(* ===== verification/Prelude.thy ===== *)
theory Prelude
  imports Main "HOL-Library.Word" "HOL-Library.Multiset"
begin

text \<open>
  What all the components share: the outcome of a piece of C code (a value, a call of
  \<open>exit\<close>, or undefined behaviour), its output as a list of events, C \<open>int\<close> arithmetic with
  the overflow check written out, and arrays whose reads and writes check the index.

  \<^item> \<open>('ev, 'a) io\<close> is the result of running C code that returns an \<open>'a\<close>: the events it
    printed, in order, and either the value or the reason why it stopped.
  \<^item> \<open>Exit n\<close> is \<open>exit(n)\<close>; \<open>Fault f\<close> is undefined behaviour of C, which a theorem about
    the code has to exclude: the model stops there, whatever a compiled program would do.
  \<^item> allocation is assumed to succeed: \<open>malloc\<close> gives an array of uninitialised cells.
\<close>

section \<open>Outcomes of C code\<close>

datatype fault = OutOfBounds | NullPointer | Uninitialised | SignedOverflow | DivisionByZero

datatype halt = Exit int | Fault fault

type_synonym ('ev, 'a) io = "(halt + 'a) \<times> 'ev list"

definition ret :: "'a \<Rightarrow> ('ev, 'a) io" where
  "ret x = (Inr x, [])"

definition stop :: "halt \<Rightarrow> ('ev, 'a) io" where
  "stop h = (Inl h, [])"

definition emit :: "'ev \<Rightarrow> ('ev, unit) io" where
  "emit e = (Inr (), [e])"

definition bind_io :: "('ev, 'a) io \<Rightarrow> ('a \<Rightarrow> ('ev, 'b) io) \<Rightarrow> ('ev, 'b) io" where
  "bind_io m f =
     (case fst m of
        Inl h \<Rightarrow> (Inl h, snd m)
      | Inr x \<Rightarrow> (fst (f x), snd m @ snd (f x)))"

named_theorems io_simps "equations that run the io combinators"

lemma bind_ret [simp, io_simps]: "bind_io (ret x) f = f x"
  by (simp add: bind_io_def ret_def)

lemma bind_stop [simp, io_simps]: "bind_io (stop h) f = stop h"
  by (simp add: bind_io_def stop_def)

lemma bind_emit [io_simps]: "bind_io (emit e) f = (fst (f ()), e # snd (f ()))"
  by (simp add: bind_io_def emit_def)

lemma bind_pair [io_simps]:
  "bind_io (Inr x, w) f = (fst (f x), w @ snd (f x))"
  "bind_io (Inl h, w) f = (Inl h, w)"
  by (simp_all add: bind_io_def)

lemma bind_assoc: "bind_io (bind_io m f) g = bind_io m (\<lambda>x. bind_io (f x) g)"
  by (auto simp: bind_io_def split: sum.splits)

lemma bind_ret_right [simp]: "bind_io m ret = m"
  by (cases m) (auto simp: bind_io_def ret_def split: sum.splits)

lemma bind_cong_io [fundef_cong]:
  "m = m' \<Longrightarrow> (\<And>x. fst m' = Inr x \<Longrightarrow> f x = g x) \<Longrightarrow> bind_io m f = bind_io m' g"
  by (auto simp: bind_io_def split: sum.splits)

text \<open>Inversion: what a run that returned a value was made of.\<close>

lemma bind_ok_iff:
  "bind_io m f = (Inr y, w) \<longleftrightarrow>
     (\<exists>x u v. m = (Inr x, u) \<and> f x = (Inr y, v) \<and> w = u @ v)"
proof (cases "fst m")
  case (Inl h)
  then show ?thesis by (cases m) (auto simp: bind_io_def)
next
  case (Inr x)
  then show ?thesis by (cases m; cases "f x") (auto simp: bind_io_def)
qed

lemma ret_eq_iff [simp]: "ret x = (Inr y, w) \<longleftrightarrow> x = y \<and> w = []"
  by (auto simp: ret_def)

lemma stop_neq_ok [simp]: "stop h \<noteq> (Inr y, w)"
  by (simp add: stop_def)

lemma ret_inj [simp]: "ret x = ret y \<longleftrightarrow> x = y"
  by (simp add: ret_def)

lemma ret_neq_stop [simp]: "ret x \<noteq> stop h" "stop h \<noteq> ret x"
  by (simp_all add: ret_def stop_def)

lemma fst_ret [simp]: "fst (ret x) = Inr x" and snd_ret [simp]: "snd (ret x) = []"
  by (simp_all add: ret_def)

lemma fst_stop [simp]: "fst (stop h) = Inl h" and snd_stop [simp]: "snd (stop h) = []"
  by (simp_all add: stop_def)

lemma fst_emit [simp]: "fst (emit e) = Inr ()" and snd_emit [simp]: "snd (emit e) = [e]"
  by (simp_all add: emit_def)

text \<open>\<open>if_io\<close> branches on a condition that itself runs code, as the C \<open>if\<close> does.\<close>

definition if_io :: "('ev, bool) io \<Rightarrow> ('ev, 'a) io \<Rightarrow> ('ev, 'a) io \<Rightarrow> ('ev, 'a) io" where
  "if_io b t e = bind_io b (\<lambda>x. if x then t else e)"

lemma if_io_ret [simp]: "if_io (ret b) t e = (if b then t else e)"
  by (simp add: if_io_def)

lemma if_io_cong [fundef_cong]:
  "b = b' \<Longrightarrow> (fst b' = Inr True \<Longrightarrow> t = t') \<Longrightarrow> (fst b' = Inr False \<Longrightarrow> e = e') \<Longrightarrow>
   if_io b t e = if_io b' t' e'"
  unfolding if_io_def by (rule bind_cong_io) auto

text \<open>
  A function with fuel gives \<open>None\<close> when the fuel runs out; \<open>bind_fuel\<close> continues a
  piece of code with such a function.
\<close>

definition bind_fuel ::
  "('ev, 'a) io \<Rightarrow> ('a \<Rightarrow> ('ev, 'b) io option) \<Rightarrow> ('ev, 'b) io option" where
  "bind_fuel m f =
     (case fst m of
        Inl h \<Rightarrow> Some (Inl h, snd m)
      | Inr x \<Rightarrow> map_option (\<lambda>(r, w). (r, snd m @ w)) (f x))"

lemma bind_fuel_ret [simp, io_simps]: "bind_fuel (ret x) f = f x"
  by (cases "f x") (auto simp: bind_fuel_def ret_def)

lemma bind_fuel_stop [simp, io_simps]: "bind_fuel (stop h) f = Some (stop h)"
  by (simp add: bind_fuel_def stop_def)

lemma bind_fuel_ok [io_simps]:
  "bind_fuel (Inr x, u) f = map_option (\<lambda>(r, w). (r, u @ w)) (f x)"
  by (simp add: bind_fuel_def)

section \<open>C integers\<close>

definition INT_MAX :: int where "INT_MAX = 2147483647"
definition INT_MIN :: int where "INT_MIN = -2147483648"

definition in_int :: "int \<Rightarrow> bool" where
  "in_int x \<longleftrightarrow> INT_MIN \<le> x \<and> x \<le> INT_MAX"

text \<open>The value of a signed expression, or undefined behaviour where it overflows.\<close>

definition cint :: "int \<Rightarrow> ('ev, int) io" where
  "cint x = (if in_int x then ret x else stop (Fault SignedOverflow))"

lemma cint_ok [simp]: "in_int x \<Longrightarrow> cint x = ret x"
  by (simp add: cint_def)

lemma cint_ok_iff [simp]: "cint x = (Inr y, w) \<longleftrightarrow> in_int x \<and> y = x \<and> w = []"
  by (auto simp: cint_def)

lemma in_int_between: "in_int b \<Longrightarrow> 0 \<le> a \<Longrightarrow> a \<le> b \<Longrightarrow> in_int a"
  by (simp add: in_int_def INT_MIN_def)

lemma in_int_nonneg: "0 \<le> x \<Longrightarrow> x \<le> INT_MAX \<Longrightarrow> in_int x"
  by (simp add: in_int_def INT_MIN_def)

section \<open>Arrays\<close>

text \<open>A byte; \<open>char\<close> is signed, so \<open>sint\<close> is its value as an \<open>int\<close>.\<close>

type_synonym u8 = "8 word"

text \<open>A cell is \<open>None\<close> until it is written: reading it before that is undefined.\<close>

definition arr_get :: "'a option list \<Rightarrow> int \<Rightarrow> ('ev, 'a) io" where
  "arr_get xs i =
     (if 0 \<le> i \<and> i < int (length xs)
      then (case xs ! nat i of None \<Rightarrow> stop (Fault Uninitialised) | Some x \<Rightarrow> ret x)
      else stop (Fault OutOfBounds))"

definition arr_set :: "'a option list \<Rightarrow> int \<Rightarrow> 'a \<Rightarrow> ('ev, 'a option list) io" where
  "arr_set xs i x =
     (if 0 \<le> i \<and> i < int (length xs) then ret (xs[nat i := Some x])
      else stop (Fault OutOfBounds))"

lemma arr_get_ok [simp]:
  "0 \<le> i \<Longrightarrow> i < int (length xs) \<Longrightarrow> xs ! nat i = Some x \<Longrightarrow> arr_get xs i = ret x"
  by (simp add: arr_get_def)

lemma arr_get_ok_iff:
  "arr_get xs i = (Inr x, w) \<longleftrightarrow>
     0 \<le> i \<and> i < int (length xs) \<and> xs ! nat i = Some x \<and> w = []"
  by (auto simp: arr_get_def split: option.splits)

lemma arr_set_ok [simp]:
  "0 \<le> i \<Longrightarrow> i < int (length xs) \<Longrightarrow> arr_set xs i x = ret (xs[nat i := Some x])"
  by (simp add: arr_set_def)

lemma arr_set_ok_iff:
  "arr_set xs i x = (Inr ys, w) \<longleftrightarrow>
     0 \<le> i \<and> i < int (length xs) \<and> ys = xs[nat i := Some x] \<and> w = []"
  by (auto simp: arr_set_def)

lemma arr_out_of_bounds [simp]:
  "i < 0 \<or> int (length xs) \<le> i \<Longrightarrow> arr_get xs i = stop (Fault OutOfBounds)"
  "i < 0 \<or> int (length xs) \<le> i \<Longrightarrow> arr_set xs i x = stop (Fault OutOfBounds)"
  by (auto simp: arr_get_def arr_set_def)

lemma upto_int: "[0..int n - 1] = map int [0..<n]"
  by (rule nth_equalityI) (auto simp: nth_upto)

section \<open>Row-major indices\<close>

text \<open>The index \<open>r * cols + c\<close> of a two-dimensional array stored row after row.\<close>

lemma rc_bounds:
  fixes r c :: int
  assumes "0 \<le> r" "r < rows" "0 \<le> c" "c < cols"
  shows "0 \<le> r * cols + c" "r * cols + c < rows * cols"
proof -
  show "0 \<le> r * cols + c" using assms by simp
  have "(r + 1) * cols \<le> rows * cols"
    using assms by (intro mult_right_mono) auto
  then show "r * cols + c < rows * cols"
    using assms by (simp add: distrib_right)
qed

lemma rc_inj:
  fixes r c r' c' :: int
  assumes "0 \<le> c" "c < cols" "0 \<le> c'" "c' < cols"
  shows "r * cols + c = r' * cols + c' \<longleftrightarrow> r = r' \<and> c = c'"
proof
  assume eq: "r * cols + c = r' * cols + c'"
  have "(r * cols + c) div cols = r" "(r' * cols + c') div cols = r'"
    using assms by (simp_all add: div_pos_pos_trivial)
  then have "r = r'" using eq by simp
  then show "r = r' \<and> c = c'" using eq by simp
qed simp

end
