(* ===== verification/Stdlib.thy ===== *)
theory Stdlib
  imports Prelude
begin

text \<open>
  The parts of the C library that several programs call, as the standard describes them:
  \<open>atoi\<close>, and the strings of the argument vector.
\<close>

section \<open>Strings and arguments\<close>

text \<open>
  \<open>atoi\<close> of the C library: white space, an optional sign, then digits up to the first
  character that is none. A value outside \<open>int\<close> is undefined.
\<close>

definition is_space :: "char \<Rightarrow> bool" where
  "is_space c \<longleftrightarrow> c = CHR '' '' \<or> 9 \<le> (of_char c :: nat) \<and> (of_char c :: nat) \<le> 13"

definition is_digit :: "char \<Rightarrow> bool" where
  "is_digit c \<longleftrightarrow> 48 \<le> (of_char c :: nat) \<and> (of_char c :: nat) \<le> 57"

definition digit_val :: "char \<Rightarrow> int" where
  "digit_val c = of_char c - 48"

definition decimal_val :: "string \<Rightarrow> int" where
  "decimal_val s = foldl (\<lambda>n c. n * 10 + digit_val c) 0 (takeWhile is_digit s)"

definition atoi :: "string \<Rightarrow> ('ev, int) io" where
  "atoi s =
     (case dropWhile is_space s of
        [] \<Rightarrow> ret 0
      | c # cs \<Rightarrow>
          if c = CHR ''-'' then cint (- decimal_val cs)
          else if c = CHR ''+'' then cint (decimal_val cs)
          else cint (decimal_val (c # cs)))"

text \<open>
  \<open>argv[i]\<close> where it is used as a string: \<open>argv[argc]\<close> is the null pointer, and there is
  nothing behind it.
\<close>

definition arg_get :: "string list \<Rightarrow> int \<Rightarrow> ('ev, string) io" where
  "arg_get argv i =
     (if i < 0 \<or> int (length argv) < i then stop (Fault OutOfBounds)
      else if i = int (length argv) then stop (Fault NullPointer)
      else ret (argv ! nat i))"

lemma arg_get_ok [simp]: "0 \<le> i \<Longrightarrow> i < int (length argv) \<Longrightarrow> arg_get argv i = ret (argv ! nat i)"
  by (simp add: arg_get_def)

lemma arg_get_none [simp]: "arg_get argv (int (length argv)) = stop (Fault NullPointer)"
  by (simp add: arg_get_def)

section \<open>Strings in buffers\<close>

text \<open>
  A buffer is an array of bytes; the string it holds ends before the first zero. Reading on
  past the end of the buffer, or writing there, is undefined.
\<close>

definition cstr :: "u8 list \<Rightarrow> u8 option list" where
  "cstr s = map Some s @ [Some 0]"

function strlen_from :: "u8 option list \<Rightarrow> int \<Rightarrow> ('ev, int) io" where
  "strlen_from buf i =
     bind_io (arr_get buf i) (\<lambda>b. if b = 0 then ret i else strlen_from buf (i + 1))"
  by pat_completeness auto
termination
  by (relation "measure (\<lambda>(buf, i). nat (int (length buf) - i))")
    (auto simp: arr_get_def split: if_splits option.splits)

declare strlen_from.simps [simp del]

definition strlen :: "u8 option list \<Rightarrow> ('ev, int) io" where
  "strlen buf = strlen_from buf 0"

function strcpy_from :: "u8 option list \<Rightarrow> u8 option list \<Rightarrow> int \<Rightarrow> ('ev, u8 option list) io" where
  "strcpy_from dst src i =
     bind_io (arr_get src i) (\<lambda>b. bind_io (arr_set dst i b) (\<lambda>dst'.
       if b = 0 then ret dst' else strcpy_from dst' src (i + 1)))"
  by pat_completeness auto
termination
  by (relation "measure (\<lambda>(dst, src, i). nat (int (length src) - i))")
    (auto simp: arr_get_def split: if_splits option.splits)

declare strcpy_from.simps [simp del]

definition strcpy :: "u8 option list \<Rightarrow> u8 option list \<Rightarrow> ('ev, u8 option list) io" where
  "strcpy dst src = strcpy_from dst src 0"

text \<open>The C locale's \<open>toupper\<close>, on bytes.\<close>

definition toupper :: "u8 \<Rightarrow> u8" where
  "toupper b = (if 97 \<le> uint b \<and> uint b \<le> 122 then b - 32 else b)"

definition holds :: "u8 option list \<Rightarrow> u8 list \<Rightarrow> bool" where
  "holds buf s \<longleftrightarrow> 0 \<notin> set s \<and> take (Suc (length s)) buf = cstr s"

lemma holds_nth:
  assumes "holds buf s"
  shows "i < length s \<Longrightarrow> buf ! i = Some (s ! i)" and "buf ! length s = Some 0"
    and "length s < length buf"
proof -
  have t: "take (Suc (length s)) buf = map Some s @ [Some 0]" using assms by (simp add: holds_def cstr_def)
  have "length (take (Suc (length s)) buf) = Suc (length s)" unfolding t by simp
  then show "length s < length buf" by (simp add: min_def split: if_splits)
  show "buf ! i = Some (s ! i)" if "i < length s"
    using arg_cong [OF t, of "\<lambda>xs. xs ! i"] that by (simp add: nth_append)
  show "buf ! length s = Some 0"
    using arg_cong [OF t, of "\<lambda>xs. xs ! length s"] by (simp add: nth_append)
qed

lemma holds_cstr [simp]: "0 \<notin> set s \<Longrightarrow> holds (cstr s @ rest) s" "0 \<notin> set s \<Longrightarrow> holds (cstr s) s"
  by (simp_all add: holds_def cstr_def)

lemma holds_get:
  "holds buf s \<Longrightarrow> i < length s \<Longrightarrow> arr_get buf (int i) = ret (s ! i)"
  "holds buf s \<Longrightarrow> arr_get buf (int (length s)) = ret 0"
  using holds_nth [of buf s] by (auto intro!: arr_get_ok)

lemma strlen_holds:
  assumes "holds buf s"
  shows "strlen buf = ret (int (length s))"
proof -
  have "i \<le> length s \<Longrightarrow> strlen_from buf (int i) = ret (int (length s))" for i
  proof (induction "length s - i" arbitrary: i)
    case 0
    then have i: "i = length s" by simp
    show ?case unfolding i by (simp add: strlen_from.simps holds_get [OF assms])
  next
    case (Suc n)
    then have i: "i < length s" by simp
    moreover have "s ! i \<noteq> 0" using assms i by (auto simp: holds_def dest: nth_mem)
    ultimately show ?case
      using Suc.hyps(1) [of "Suc i"] Suc.hyps(2)
      by (subst strlen_from.simps) (simp add: holds_get [OF assms] add.commute)
  qed
  from this [of 0] show ?thesis by (simp add: strlen_def)
qed

lemma strcpy_holds:
  assumes "holds src s"
  shows "strcpy dst src =
    (if length s < length dst then ret (cstr s @ drop (Suc (length s)) dst)
     else stop (Fault OutOfBounds))"
proof -
  have run: "i \<le> length s \<Longrightarrow> i \<le> length d \<Longrightarrow> strcpy_from d src (int i) =
     (if length s < length d then ret (take i d @ cstr (drop i s) @ drop (Suc (length s)) d)
      else stop (Fault OutOfBounds))" for i d
  proof (induction "length s - i" arbitrary: i d)
    case 0
    then have i: "i = length s" by simp
    show ?case unfolding i
      using 0(3) unfolding i by (subst strcpy_from.simps, subst holds_get(2) [OF assms])
        (auto simp: cstr_def upd_conv_take_nth_drop)
  next
    case (Suc n)
    then have i: "i < length s" by simp
    moreover have "s ! i \<noteq> 0" using assms i by (auto simp: holds_def dest: nth_mem)
    moreover have "take (Suc i) (d[i := Some (s ! i)]) = take i d @ [Some (s ! i)]" if "i < length d"
      using that by (simp add: take_Suc_conv_app_nth)
    moreover have "cstr (drop i s) = Some (s ! i) # cstr (drop (Suc i) s)"
      using i by (simp add: cstr_def flip: Cons_nth_drop_Suc)
    ultimately show ?case
      using Suc.hyps(1) [of "Suc i" "d[i := Some (s ! i)]"] Suc.hyps(2) Suc.prems
      by (subst strcpy_from.simps, cases "i < length d") (auto simp: holds_get [OF assms] add.commute)
  qed
  show ?thesis unfolding strcpy_def by (simp add: run [of 0 dst, simplified])
qed

end
