(* ===== verification/Maze_Base.thy ===== *)
theory Maze_Base
  imports Prelude
begin

text \<open>
  The types of \<open>izp/projekt_2/maze.c\<close>: the events the program prints, the enums for the
  walls of a cell and for the side a cell was entered from, and the coordinates of a cell.
  The queue of cells is in \<open>Maze_Queue\<close>, the maze itself in \<open>Maze_Map\<close>, the two
  wall-following searches in \<open>Maze_Walk\<close> and the shortest path in \<open>Maze_Shortest\<close>.
\<close>

text \<open>
  \<open>Coord r c\<close> is \<open>printf("%d,%d\n", r, c)\<close>; the other prints carry their text.
\<close>

datatype maze_event = Out string | Err string | Coord int int

type_synonym 'a maze_io = "(maze_event, 'a) io"

text \<open>\<open>enum Wall\<close>: the position of the wall's bit in the three characters of a cell.\<close>

definition TOP_WALL :: int where "TOP_WALL = 0"
definition RIGHT_WALL :: int where "RIGHT_WALL = 1"
definition LEFT_WALL :: int where "LEFT_WALL = 2"

text \<open>The first bit is the top wall of one kind of cell, the bottom wall of the other.\<close>

definition BOTTOM_WALL :: int where "BOTTOM_WALL = TOP_WALL"

lemmas wall_defs = TOP_WALL_def RIGHT_WALL_def LEFT_WALL_def BOTTOM_WALL_def

datatype From = TOP | RIGHT | BOTTOM | LEFT

record node =
  nrow :: int
  ncol :: int

definition node_ctor :: "int \<Rightarrow> int \<Rightarrow> node" where
  "node_ctor r c = \<lparr>nrow = r, ncol = c\<rparr>"

lemma node_ctor_sel [simp]:
  "nrow (node_ctor r c) = r" "ncol (node_ctor r c) = c"
  by (simp_all add: node_ctor_def)

lemma node_ctor_eq [simp]:
  "node_ctor r c = node_ctor r' c' \<longleftrightarrow> r = r' \<and> c = c'"
  by (simp add: node_ctor_def)

lemma node_ctor_surj: "node_ctor (nrow n) (ncol n) = n"
  by (simp add: node_ctor_def)

end
