(* ===== verification/Maze_Queue.thy ===== *)
theory Maze_Queue
  imports Maze_Base
begin

text \<open>
  The queue of \<open>maze.c\<close>, a ring buffer of \<open>capacity\<close> nodes, with the interface that the
  breadth-first search relies on: \<open>bounded_fifo\<close> states what a first-in first-out queue
  with a bound promises, and \<open>queue_items\<close> reads a ring buffer as a list.
  The fields are \<open>nat\<close>: every one of them is between 0 and the capacity, which is the
  positive number of cells of a maze.
\<close>

section \<open>The ring buffer\<close>

record queue =
  capacity :: nat
  q_size :: nat
  front :: nat
  rear :: nat
  nodes :: "node option list"

definition q_ctor :: "nat \<Rightarrow> queue" where
  "q_ctor n =
     \<lparr>capacity = n, q_size = 0, front = 0, rear = 0, nodes = replicate n None\<rparr>"

definition enqueue :: "queue \<Rightarrow> node \<Rightarrow> queue maze_io" where
  "enqueue q n =
     (if q_size q = capacity q
      then bind_io (emit (Err ''Queue is full. This should not happen.'')) (\<lambda>_. ret q)
      else bind_io (arr_set (nodes q) (int (rear q)) n) (\<lambda>ns.
        ret (q\<lparr>nodes := ns, rear := (rear q + 1) mod capacity q, q_size := q_size q + 1\<rparr>)))"

definition dequeue :: "queue \<Rightarrow> (node \<times> queue) maze_io" where
  "dequeue q =
     (if q_size q = 0
      then bind_io (emit (Err ''Queue is empty'')) (\<lambda>_. ret (node_ctor (-1) (-1), q))
      else bind_io (arr_get (nodes q) (int (front q))) (\<lambda>n.
        ret (n, q\<lparr>front := (front q + 1) mod capacity q, q_size := q_size q - 1\<rparr>)))"

definition q_is_empty :: "queue \<Rightarrow> bool" where
  "q_is_empty q \<longleftrightarrow> q_size q = 0"

section \<open>The interface\<close>

text \<open>
  What a client may rely on: within the bound, \<open>enq\<close> appends and prints nothing; a
  non-empty queue gives back its oldest element; both keep the invariant and the bound.
\<close>

locale bounded_fifo =
  fixes enq :: "'q \<Rightarrow> 'a \<Rightarrow> ('ev, 'q) io"
    and deq :: "'q \<Rightarrow> ('ev, 'a \<times> 'q) io"
    and emp :: "'q \<Rightarrow> bool"
    and bound :: "'q \<Rightarrow> nat"
    and items :: "'q \<Rightarrow> 'a list"
    and inv :: "'q \<Rightarrow> bool"
  assumes enq_law: "inv q \<Longrightarrow> length (items q) < bound q \<Longrightarrow>
      \<exists>q'. enq q x = ret q' \<and> inv q' \<and> items q' = items q @ [x] \<and> bound q' = bound q"
    and deq_law: "inv q \<Longrightarrow> items q = x # xs \<Longrightarrow>
      \<exists>q'. deq q = ret (x, q') \<and> inv q' \<and> items q' = xs \<and> bound q' = bound q"
    and emp_law: "inv q \<Longrightarrow> emp q \<longleftrightarrow> items q = []"

text \<open>
  Any sequence of operations on a queue, with the elements that come out, and what it has to give: a list
  that grows at its end and shrinks at its front, and a message for what does not fit or is not there.
\<close>

datatype 'a q_op = Enq 'a | Deq

primrec run_ops ::
  "('q \<Rightarrow> 'a \<Rightarrow> ('ev, 'q) io) \<Rightarrow> ('q \<Rightarrow> ('ev, 'a \<times> 'q) io) \<Rightarrow> 'a q_op list \<Rightarrow> 'q \<Rightarrow> ('ev, 'a list \<times> 'q) io" where
  "run_ops enq deq [] q = ret ([], q)"
| "run_ops enq deq (op # ops) q =
     (case op of
        Enq x \<Rightarrow> bind_io (enq q x) (run_ops enq deq ops)
      | Deq \<Rightarrow> bind_io (deq q) (\<lambda>(x, q'). bind_io (run_ops enq deq ops q') (\<lambda>(xs, q''). ret (x # xs, q''))))"

fun fifo_spec ::
  "nat \<Rightarrow> 'ev \<Rightarrow> 'ev \<Rightarrow> 'a \<Rightarrow> 'a q_op list \<Rightarrow> 'a list \<Rightarrow> 'a list \<times> 'a list \<times> 'ev list" where
  "fifo_spec n on_full on_empty none [] xs = ([], xs, [])"
| "fifo_spec n on_full on_empty none (Enq x # ops) xs =
     (if length xs < n then fifo_spec n on_full on_empty none ops (xs @ [x])
      else case fifo_spec n on_full on_empty none ops xs of (out, ys, w) \<Rightarrow> (out, ys, on_full # w))"
| "fifo_spec n on_full on_empty none (Deq # ops) [] =
     (case fifo_spec n on_full on_empty none ops [] of (out, ys, w) \<Rightarrow> (none # out, ys, on_empty # w))"
| "fifo_spec n on_full on_empty none (Deq # ops) (x # xs) =
     (case fifo_spec n on_full on_empty none ops xs of (out, ys, w) \<Rightarrow> (x # out, ys, w))"

text \<open>A queue that also says what it does at its bounds: it prints a message and stays as it is.\<close>

locale reporting_fifo = bounded_fifo enq deq emp bound items inv
  for enq :: "'q \<Rightarrow> 'a \<Rightarrow> ('ev, 'q) io" and deq :: "'q \<Rightarrow> ('ev, 'a \<times> 'q) io" and emp :: "'q \<Rightarrow> bool"
    and bound :: "'q \<Rightarrow> nat" and items :: "'q \<Rightarrow> 'a list" and inv :: "'q \<Rightarrow> bool" +
  fixes on_full :: 'ev and on_empty :: 'ev and none :: 'a
  assumes bound_law: "inv q \<Longrightarrow> length (items q) \<le> bound q"
    and full_law: "inv q \<Longrightarrow> length (items q) = bound q \<Longrightarrow> enq q x = (Inr q, [on_full])"
    and empty_law: "inv q \<Longrightarrow> items q = [] \<Longrightarrow> deq q = (Inr (none, q), [on_empty])"
begin

lemma run_ops_fifo:
  assumes "inv q" and "fifo_spec (bound q) on_full on_empty none ops (items q) = (out, ys, w)"
  shows "\<exists>q'. run_ops enq deq ops q = (Inr (out, q'), w) \<and> inv q' \<and> items q' = ys \<and> bound q' = bound q"
  using assms
proof (induction ops arbitrary: q out w)
  case Nil
  then show ?case by (auto simp: ret_def)
next
  case (Cons op ops)
  show ?case
  proof (cases op)
    case (Enq x)
    show ?thesis
    proof (cases "length (items q) < bound q")
      case True
      with Cons.prems enq_law obtain q1 where "enq q x = ret q1" "inv q1" "items q1 = items q @ [x]" "bound q1 = bound q"
        by blast
      with Cons.IH [of q1 out w] Cons.prems Enq True show ?thesis by auto
    next
      case False
      with bound_law [OF Cons.prems(1)] full_law [OF Cons.prems(1)] have e: "enq q x = (Inr q, [on_full])" by simp
      obtain w' where o: "fifo_spec (bound q) on_full on_empty none ops (items q) = (out, ys, w')" "w = on_full # w'"
        using Cons.prems(2) Enq False by (auto split: prod.splits)
      from Cons.IH [OF Cons.prems(1) o(1)] e o(2) Enq show ?thesis by (auto simp: bind_pair)
    qed
  next
    case Deq
    show ?thesis
    proof (cases "items q")
      case Nil
      with empty_law [OF Cons.prems(1)] have d: "deq q = (Inr (none, q), [on_empty])" by simp
      obtain out' w' where o: "fifo_spec (bound q) on_full on_empty none ops (items q) = (out', ys, w')"
          "out = none # out'" "w = on_empty # w'"
        using Cons.prems(2) Deq Nil by (auto split: prod.splits)
      from Cons.IH [OF Cons.prems(1) o(1)] d o(2,3) Deq show ?thesis by (auto simp: bind_pair ret_def)
    next
      case items: (Cons x xs)
      from deq_law [OF Cons.prems(1) items] obtain q1 where
        d: "deq q = ret (x, q1)" "inv q1" "items q1 = xs" "bound q1 = bound q"
        by blast
      obtain out' where o: "fifo_spec (bound q1) on_full on_empty none ops (items q1) = (out', ys, w)" "out = x # out'"
        using Cons.prems(2) Deq items d(3,4) by (auto split: prod.splits)
      from Cons.IH [OF d(2) o(1)] d(1,4) o(2) Deq show ?thesis by (auto simp: bind_pair ret_def)
    qed
  qed
qed

end

section \<open>The ring buffer implements it\<close>

definition queue_items :: "queue \<Rightarrow> node list" where
  "queue_items q =
     map (\<lambda>i. the (nodes q ! ((front q + i) mod capacity q))) [0..<q_size q]"

definition queue_inv :: "queue \<Rightarrow> bool" where
  "queue_inv q \<longleftrightarrow>
     0 < capacity q \<and> length (nodes q) = capacity q \<and> q_size q \<le> capacity q \<and>
     front q < capacity q \<and> rear q = (front q + q_size q) mod capacity q \<and>
     (\<forall>i < q_size q. nodes q ! ((front q + i) mod capacity q) \<noteq> None)"

lemma length_queue_items [simp]: "length (queue_items q) = q_size q"
  by (simp add: queue_items_def)

lemma mod_ring_neq:
  fixes i j f n :: nat
  assumes "i < j" and "j < n"
  shows "(f + i) mod n \<noteq> (f + j) mod n"
proof
  assume "(f + i) mod n = (f + j) mod n"
  then have "n dvd (f + j) - (f + i)"
    using assms by (metis mod_eq_dvd_iff_nat add_le_cancel_left less_imp_le_nat)
  then have "n dvd j - i" by simp
  with assms show False by (metis dvd_imp_le less_imp_diff_less not_le zero_less_diff)
qed

lemma enqueue_room:
  assumes "queue_inv q" and "q_size q < capacity q"
  shows "\<exists>q'. enqueue q n = ret q' \<and> queue_inv q' \<and> queue_items q' = queue_items q @ [n] \<and>
              capacity q' = capacity q"
proof -
  let ?r = "(front q + q_size q) mod capacity q"
  let ?q' = "q\<lparr>nodes := (nodes q)[?r := Some n], rear := (?r + 1) mod capacity q,
              q_size := q_size q + 1\<rparr>"
  have r: "?r < capacity q" using assms by (simp add: queue_inv_def)
  have other: "(front q + i) mod capacity q \<noteq> ?r" if "i < q_size q" for i
    using mod_ring_neq [OF that assms(2)] .
  have old: "(nodes q)[?r := Some n] ! ((front q + i) mod capacity q)
              = nodes q ! ((front q + i) mod capacity q)" if "i < q_size q" for i
    using other [OF that] by (metis nth_list_update_neq)
  have "enqueue q n = ret ?q'"
    using assms r by (simp add: enqueue_def queue_inv_def)
  moreover have "queue_inv ?q'"
    using assms r old by (auto simp: queue_inv_def less_Suc_eq mod_Suc_eq)
  moreover have "queue_items ?q' = queue_items q @ [n]"
    using assms r old by (auto simp: queue_items_def queue_inv_def)
  ultimately show ?thesis by auto
qed

lemma dequeue_some:
  assumes "queue_inv q" and "queue_items q = x # xs"
  shows "\<exists>q'. dequeue q = ret (x, q') \<and> queue_inv q' \<and> queue_items q' = xs \<and>
              capacity q' = capacity q"
proof -
  let ?f = "(front q + 1) mod capacity q"
  let ?q' = "q\<lparr>front := ?f, q_size := q_size q - 1\<rparr>"
  have pos: "0 < q_size q"
    using arg_cong [OF assms(2), of length] by simp
  have f: "front q < capacity q" using assms by (simp add: queue_inv_def)
  have shift: "(Suc (front q) mod capacity q + i) mod capacity q = Suc (front q + i) mod capacity q"
    for i
    by (simp add: mod_add_left_eq)
  have split: "[0..<q_size q] = 0 # map Suc [0..<q_size q - 1]"
    using pos by (metis Suc_diff_1 map_Suc_upt upt_conv_Cons)
  have hd: "x = the (nodes q ! front q)" and tl: "xs = queue_items ?q'"
    using assms(2) f by (simp_all add: queue_items_def split shift comp_def)
  have "nodes q ! front q \<noteq> None"
    using assms(1) pos f unfolding queue_inv_def
    by (metis add.right_neutral mod_less)
  then have "dequeue q = ret (x, ?q')"
    using assms(1) pos f hd by (auto simp: dequeue_def queue_inv_def)
  moreover have "queue_inv ?q'"
  proof -
    have "rear q = (?f + (q_size q - 1)) mod capacity q"
      using assms(1) pos shift [of "q_size q - 1"] by (simp add: queue_inv_def)
    moreover have "nodes q ! ((?f + i) mod capacity q) \<noteq> None" if "i < q_size q - 1" for i
    proof -
      have "Suc i < q_size q" using that by simp
      with assms(1) have "nodes q ! ((front q + Suc i) mod capacity q) \<noteq> None"
        unfolding queue_inv_def by blast
      then show ?thesis by (simp add: shift)
    qed
    ultimately show ?thesis using assms(1) by (auto simp: queue_inv_def)
  qed
  ultimately show ?thesis using tl by auto
qed

interpretation ring: reporting_fifo enqueue dequeue q_is_empty capacity queue_items queue_inv
  "Err ''Queue is full. This should not happen.''" "Err ''Queue is empty''" "node_ctor (-1) (-1)"
proof
  show "\<exists>q'. enqueue q x = ret q' \<and> queue_inv q' \<and> queue_items q' = queue_items q @ [x] \<and>
          capacity q' = capacity q"
    if "queue_inv q" and "length (queue_items q) < capacity q" for q x
    using enqueue_room that by simp
  show "\<exists>q'. dequeue q = ret (x, q') \<and> queue_inv q' \<and> queue_items q' = xs \<and>
          capacity q' = capacity q"
    if "queue_inv q" and "queue_items q = x # xs" for q x xs
    using dequeue_some that .
  show "q_is_empty q \<longleftrightarrow> queue_items q = []" if "queue_inv q" for q
    by (simp add: q_is_empty_def queue_items_def)
  show "length (queue_items q) \<le> capacity q" if "queue_inv q" for q
    using that by (simp add: queue_inv_def)
  show "enqueue q x = (Inr q, [Err ''Queue is full. This should not happen.''])"
    if "length (queue_items q) = capacity q" for q x
    using that by (simp add: enqueue_def bind_emit ret_def)
  show "dequeue q = (Inr (node_ctor (-1) (-1), q), [Err ''Queue is empty''])" if "queue_items q = []" for q
  proof -
    have "q_size q = 0" using that by (metis length_queue_items list.size(3))
    then show ?thesis by (simp add: dequeue_def bind_emit ret_def)
  qed
qed

lemma q_ctor_inv: "0 < n \<Longrightarrow> queue_inv (q_ctor n)"
  by (simp add: queue_inv_def q_ctor_def)

lemma q_ctor_items [simp]: "queue_items (q_ctor n) = []" "capacity (q_ctor n) = n"
  by (simp_all add: queue_items_def q_ctor_def)

end
