(* ===== verification/Maze_Map.thy ===== *)
theory Maze_Map
  imports Maze_Base
begin

text \<open>
  The maze of \<open>maze.c\<close>: reading it from a file (\<open>Map_loader\<close>), reading the walls of a cell
  (\<open>dec_to_bin\<close>, \<open>isborder\<close>), the side a search starts from (\<open>start_border\<close>), the check
  that neighbouring cells agree on their common wall (\<open>Map_valid_maze\<close>), and printing.
  A file is the list of its bytes.
\<close>

record maze_map =
  rows :: int
  cols :: int
  cells :: "u8 option list"

definition newline :: char where "newline = CHR 0x0A"

definition Invalid_msg :: maze_event where "Invalid_msg = Out (''Invalid'' @ [newline])"
definition Valid_msg :: maze_event where "Valid_msg = Out (''Valid'' @ [newline])"

section \<open>Cells and walls\<close>

text \<open>
  The three characters of a cell. The parameter is a signed \<open>char\<close>; the buffer of three
  characters is written at every position before it is read.
\<close>

function dec_to_bin_loop :: "nat \<Rightarrow> int \<Rightarrow> string \<Rightarrow> string" where
  "dec_to_bin_loop i dec bin =
     (if i < 3
      then dec_to_bin_loop (i + 1) (dec div 2)
             (bin[2 - i := if dec mod 2 = 1 then CHR ''1'' else CHR ''0''])
      else bin)"
  by pat_completeness auto
termination
  by (relation "measure (\<lambda>(i, _, _). 3 - i)") auto

declare dec_to_bin_loop.simps [simp del]

definition dec_to_bin :: "u8 \<Rightarrow> string option" where
  "dec_to_bin dec_ch =
     (let dec = sint dec_ch - 48 in
      if dec > 7 \<or> dec < 0 then None
      else Some (dec_to_bin_loop 0 dec (replicate 3 (CHR 0x00))))"

definition isborder :: "maze_map \<Rightarrow> int \<Rightarrow> int \<Rightarrow> int \<Rightarrow> bool maze_io" where
  "isborder m r c border =
     bind_io (cint (r * cols m)) (\<lambda>rc. bind_io (cint (rc + c)) (\<lambda>i.
     bind_io (arr_get (cells m) i) (\<lambda>ch.
       case dec_to_bin ch of
         None \<Rightarrow>
           bind_io (emit (Out ''Something unexpected happened. The result might be wrong.''))
             (\<lambda>_. ret False)
       | Some cell \<Rightarrow>
           if 0 \<le> border \<and> border < int (length cell)
           then ret (cell ! nat border = CHR ''1'')
           else stop (Fault OutOfBounds))))"

definition start_border :: "maze_map \<Rightarrow> int \<Rightarrow> int \<Rightarrow> From option maze_io" where
  "start_border m r c =
     (if r > 1 \<and> c > 1 \<and> r < rows m - 1 \<and> c < cols m - 1
      then bind_io (emit Invalid_msg) (\<lambda>_. ret None)
      else
        let check = (\<lambda>on_edge w d rest.
              if on_edge
              then bind_io (isborder m (r - 1) (c - 1) w) (\<lambda>b. if \<not> b then ret (Some d) else rest)
              else rest)
        in check (r = 1) TOP_WALL TOP
            (check (r = rows m) BOTTOM_WALL BOTTOM
              (check (c = 1) LEFT_WALL LEFT
                (check (c = cols m) RIGHT_WALL RIGHT
                  (ret None)))))"

section \<open>Reading a maze\<close>

definition isdigit :: "u8 \<Rightarrow> bool" where
  "isdigit b \<longleftrightarrow> 48 \<le> uint b \<and> uint b \<le> 57"

definition isblank_maze :: "u8 \<Rightarrow> bool" where
  "isblank_maze b \<longleftrightarrow> b = 32 \<or> b = 10 \<or> b = 9 \<or> b = 13"

text \<open>
  \<open>char ch; (ch = fgetc(file)) != EOF\<close>: where \<open>char\<close> is signed, the byte 0xFF compares equal
  to \<open>EOF\<close>. The inner loop takes the byte it stops at from the file.
\<close>

definition is_eof :: "u8 \<Rightarrow> bool" where
  "is_eof b \<longleftrightarrow> b = 255"

fun read_num :: "int \<Rightarrow> u8 list \<Rightarrow> (int \<times> u8 list) maze_io" where
  "read_num num [] = ret (num, [])"
| "read_num num (b # bs) =
     (if \<not> is_eof b \<and> isdigit b
      then bind_io (cint (num * 10)) (\<lambda>n10. bind_io (cint (n10 + (uint b - 48))) (\<lambda>n. read_num n bs))
      else ret (num, bs))"

lemma read_num_length: "fst (read_num num bs) = Inr (n, rest) \<Longrightarrow> length rest \<le> length bs"
  by (induction num bs arbitrary: n rest rule: read_num.induct)
    (fastforce simp: bind_io_def cint_def split: if_splits sum.splits)+

definition Map_ctor :: "int \<Rightarrow> int \<Rightarrow> maze_map maze_io" where
  "Map_ctor r c =
     bind_io (cint (c * r)) (\<lambda>n. ret \<lparr>rows = r, cols = c, cells = replicate (nat n) None\<rparr>)"

text \<open>
  The loop of \<open>Map_loader\<close>: \<open>i\<close> counts the numbers from -2 (the rows, the columns, then the
  cells); \<open>rws\<close> holds \<open>rows\<close> between the first and the second number, and the map pointer is
  \<open>None\<close> until \<open>Map_ctor\<close> has run.
\<close>

function load_loop ::
  "int \<Rightarrow> int \<Rightarrow> maze_map option \<Rightarrow> u8 list \<Rightarrow> (int \<times> maze_map option) maze_io" where
  "load_loop i rws mp [] = ret (i, mp)"
| "load_loop i rws mp (b # bs) =
     (if is_eof b then ret (i, mp)
      else if isblank_maze b then load_loop i rws mp bs
      else if \<not> isdigit b then bind_io (emit Invalid_msg) (\<lambda>_. stop (Exit 1))
      else bind_io (read_num (uint b - 48) bs) (\<lambda>(num, rest).
        if i = -2 then
          (if num < 1 then bind_io (emit Invalid_msg) (\<lambda>_. stop (Exit 1))
           else load_loop (i + 1) num mp rest)
        else if i = -1 then
          (if num < 1 then bind_io (emit Invalid_msg) (\<lambda>_. stop (Exit 1))
           else bind_io (Map_ctor rws num) (\<lambda>m. load_loop (i + 1) rws (Some m) rest))
        else
          (case mp of
             None \<Rightarrow> stop (Fault Uninitialised)
           | Some m \<Rightarrow>
               bind_io (cint (num + 48)) (\<lambda>v.
               bind_io (arr_set (cells m) i (word_of_int v)) (\<lambda>cs.
                 load_loop (i + 1) rws (Some (m\<lparr>cells := cs\<rparr>)) rest)))))"
  by pat_completeness auto
termination
  by (relation "measure (\<lambda>(_, _, _, bs). length bs)")
    (auto dest: read_num_length simp: less_Suc_eq_le)

text \<open>
  After the loop: \<open>!map\<close> reads the pointer, which is uninitialised when fewer than two
  numbers were read.
\<close>

definition Map_loader :: "u8 list \<Rightarrow> maze_map maze_io" where
  "Map_loader file =
     bind_io (load_loop (-2) 0 None file) (\<lambda>(i, mp).
       case mp of
         None \<Rightarrow> stop (Fault Uninitialised)
       | Some m \<Rightarrow>
           bind_io (cint (rows m * cols m)) (\<lambda>n.
             if i \<noteq> n then bind_io (emit Invalid_msg) (\<lambda>_. stop (Exit 1)) else ret m))"

section \<open>Checking and printing a maze\<close>

text \<open>
  The two nested loops of \<open>Map_valid_maze\<close> over lists of indices; \<open>False\<close> is the early
  return after \<open>Invalid\<close> was printed.
\<close>

primrec valid_row :: "maze_map \<Rightarrow> int \<Rightarrow> int list \<Rightarrow> bool maze_io" where
  "valid_row m i [] = ret True"
| "valid_row m i (j # js) =
     bind_io (isborder m i j RIGHT_WALL) (\<lambda>a. bind_io (isborder m i (j + 1) LEFT_WALL) (\<lambda>b.
       if a \<noteq> b then bind_io (emit Invalid_msg) (\<lambda>_. ret False) else valid_row m i js))"

primrec valid_rows :: "maze_map \<Rightarrow> int list \<Rightarrow> bool maze_io" where
  "valid_rows m [] = ret True"
| "valid_rows m (i # is) =
     bind_io (valid_row m i [0..cols m - 1 - 1]) (\<lambda>ok. if ok then valid_rows m is else ret False)"

primrec valid_col :: "maze_map \<Rightarrow> int \<Rightarrow> int list \<Rightarrow> bool maze_io" where
  "valid_col m i [] = ret True"
| "valid_col m i (j # js) =
     bind_io (isborder m i j TOP_WALL) (\<lambda>a. bind_io (isborder m (i + 1) j 0) (\<lambda>b.
       if a \<noteq> b then bind_io (emit Invalid_msg) (\<lambda>_. ret False) else valid_col m i js))"

text \<open>The indices of \<open>for (j = from; j < below; j += 2)\<close>.\<close>

function by_two :: "int \<Rightarrow> int \<Rightarrow> int list" where
  "by_two j below = (if j < below then j # by_two (j + 2) below else [])"
  by pat_completeness auto
termination
  by (relation "measure (\<lambda>(j, below). nat (below - j))") auto

declare by_two.simps [simp del]

primrec valid_cols :: "maze_map \<Rightarrow> int list \<Rightarrow> bool maze_io" where
  "valid_cols m [] = ret True"
| "valid_cols m (i # is) =
     bind_io (valid_col m i (by_two (if i mod 2 = 0 then 1 else 0) (cols m))) (\<lambda>ok.
       if ok then valid_cols m is else ret False)"

definition Map_valid_maze :: "maze_map \<Rightarrow> unit maze_io" where
  "Map_valid_maze m =
     bind_io (valid_rows m [0..rows m - 1]) (\<lambda>ok.
       if \<not> ok then ret ()
       else bind_io (valid_cols m [0..rows m - 1 - 1]) (\<lambda>ok.
         if \<not> ok then ret () else emit Valid_msg))"

primrec print_row :: "maze_map \<Rightarrow> int \<Rightarrow> int list \<Rightarrow> unit maze_io" where
  "print_row m i [] = emit (Out [newline])"
| "print_row m i (j # js) =
     bind_io (arr_get (cells m) (i * cols m + j)) (\<lambda>ch.
     bind_io (emit (Out [char_of (unat ch), CHR '' ''])) (\<lambda>_. print_row m i js))"

primrec print_rows :: "maze_map \<Rightarrow> int list \<Rightarrow> unit maze_io" where
  "print_rows m [] = ret ()"
| "print_rows m (i # is) = bind_io (print_row m i [0..cols m - 1]) (\<lambda>_. print_rows m is)"

definition Map_print :: "maze_map \<Rightarrow> unit maze_io" where
  "Map_print m = print_rows m [0..rows m - 1]"

definition has_top_wall :: "int \<Rightarrow> int \<Rightarrow> bool" where
  "has_top_wall r c \<longleftrightarrow> (r + c) mod 2 = 0"

text \<open>
  \<open>cond && !isborder(map, r, c, w)\<close>: the border is read only where the condition holds.
\<close>

definition free :: "maze_map \<Rightarrow> int \<Rightarrow> int \<Rightarrow> bool \<Rightarrow> int \<Rightarrow> bool maze_io" where
  "free m r c cond w =
     (if cond then bind_io (isborder m r c w) (\<lambda>b. ret (\<not> b)) else ret False)"

end
