(* ===== verification/Maze_Walls.thy ===== *)
theory Maze_Walls
  imports Maze_Map
begin

text \<open>
  What the walls of a maze mean: \<open>wall m r c w\<close> is bit \<open>2 - w\<close> of the octal digit of a
  cell. On mazes of octal digits \<open>isborder\<close> computes it without printing or faulting, and
  \<open>Map_valid_maze\<close> decides whether neighbouring cells agree (\<open>consistent\<close>).
\<close>

section \<open>Well-formed mazes\<close>

definition octal :: "u8 \<Rightarrow> bool" where
  "octal b \<longleftrightarrow> 48 \<le> uint b \<and> uint b \<le> 55"

definition wf_map :: "maze_map \<Rightarrow> bool" where
  "wf_map m \<longleftrightarrow>
     1 \<le> rows m \<and> 1 \<le> cols m \<and> in_int (rows m) \<and> in_int (cols m) \<and> in_int (rows m * cols m) \<and>
     int (length (cells m)) = rows m * cols m \<and> None \<notin> set (cells m)"

definition octal_map :: "maze_map \<Rightarrow> bool" where
  "octal_map m \<longleftrightarrow> wf_map m \<and> (\<forall>b. Some b \<in> set (cells m) \<longrightarrow> octal b)"

definition inside :: "maze_map \<Rightarrow> int \<Rightarrow> int \<Rightarrow> bool" where
  "inside m r c \<longleftrightarrow> 0 \<le> r \<and> r < rows m \<and> 0 \<le> c \<and> c < cols m"

definition cell :: "maze_map \<Rightarrow> int \<Rightarrow> int \<Rightarrow> u8" where
  "cell m r c = the (cells m ! nat (r * cols m + c))"

definition wall :: "maze_map \<Rightarrow> int \<Rightarrow> int \<Rightarrow> int \<Rightarrow> bool" where
  "wall m r c w \<longleftrightarrow> odd ((uint (cell m r c) - 48) div 2 ^ nat (2 - w))"

definition consistent :: "maze_map \<Rightarrow> bool" where
  "consistent m \<longleftrightarrow>
     (\<forall>r c. 0 \<le> r \<and> r < rows m \<and> 0 \<le> c \<and> c < cols m - 1 \<longrightarrow>
        wall m r c RIGHT_WALL = wall m r (c + 1) LEFT_WALL) \<and>
     (\<forall>r c. 0 \<le> r \<and> r < rows m - 1 \<and> 0 \<le> c \<and> c < cols m \<and> \<not> has_top_wall r c \<longrightarrow>
        wall m r c BOTTOM_WALL = wall m (r + 1) c TOP_WALL)"

lemma octal_map_wf [simp]: "octal_map m \<Longrightarrow> wf_map m"
  by (simp add: octal_map_def)

lemma wf_index:
  assumes "wf_map m" and "inside m r c"
  shows "0 \<le> r * cols m + c" "r * cols m + c < int (length (cells m))"
    and "in_int (r * cols m)" "in_int (r * cols m + c)"
proof -
  have b: "0 \<le> r * cols m + c" "r * cols m + c < rows m * cols m"
    using assms rc_bounds by (auto simp: inside_def)
  then show "0 \<le> r * cols m + c" "r * cols m + c < int (length (cells m))"
    using assms by (auto simp: wf_map_def)
  have i: "in_int (rows m * cols m)" using assms by (simp add: wf_map_def)
  from i b show "in_int (r * cols m + c)" by (auto elim: in_int_between)
  have "0 \<le> r * cols m" "r * cols m \<le> rows m * cols m"
    using assms by (auto simp: inside_def wf_map_def intro: mult_right_mono)
  with i show "in_int (r * cols m)" by (rule in_int_between)
qed

lemma wf_get_cell:
  assumes "wf_map m" and "inside m r c"
  shows "arr_get (cells m) (r * cols m + c) = ret (cell m r c)"
proof -
  let ?i = "r * cols m + c"
  have "cells m ! nat ?i \<in> set (cells m)"
    using wf_index [OF assms] by (intro nth_mem) linarith
  then have "cells m ! nat ?i \<noteq> None" using assms(1) by (metis wf_map_def)
  then show ?thesis
    using wf_index [OF assms] by (auto simp: cell_def)
qed

lemma octal_cell:
  assumes "octal_map m" and "inside m r c"
  shows "octal (cell m r c)"
proof -
  let ?i = "nat (r * cols m + c)"
  have "cells m ! ?i \<in> set (cells m)"
    using wf_index [OF octal_map_wf assms(2)] assms(1) by (intro nth_mem) linarith
  moreover from this have "cells m ! ?i \<noteq> None" using assms(1) by (metis octal_map_def wf_map_def)
  ultimately show ?thesis using assms(1) by (auto simp: octal_map_def cell_def)
qed

section \<open>Reading a wall\<close>

lemma octal_cases:
  assumes "octal b"
  obtains "b = 48" | "b = 49" | "b = 50" | "b = 51" | "b = 52" | "b = 53" | "b = 54" | "b = 55"
proof -
  have "uint b \<in> {48, 49, 50, 51, 52, 53, 54, 55}"
    using assms by (auto simp: octal_def)
  moreover have "b = word_of_int (uint b)" by simp
  ultimately have "b \<in> {48, 49, 50, 51, 52, 53, 54, 55}" by fastforce
  with that show thesis by blast
qed

lemma dec_to_bin_octal:
  assumes "octal b"
  shows "dec_to_bin b =
    Some (map (\<lambda>k. if odd ((uint b - 48) div 2 ^ k) then CHR ''1'' else CHR ''0'') [2, 1, 0])"
  using assms by (cases rule: octal_cases)
    (simp_all add: dec_to_bin_def dec_to_bin_loop.simps numeral_3_eq_3)

lemma signed_take_bit_8:
  fixes k :: int
  assumes "0 \<le> k" and "k < 256"
  shows "signed_take_bit 7 k = (if k < 128 then k else k - 256)"
proof -
  have "bit k 7 \<longleftrightarrow> \<not> k < 128"
    using assms by (simp add: bit_iff_odd) presburger
  then show ?thesis
    using assms by (simp add: signed_take_bit_eq_take_bit_minus take_bit_int_eq_self)
qed

lemma sint_u8: "sint (b :: u8) = (if uint b < 128 then uint b else uint b - 256)"
  using uint_lt2p [of b] signed_take_bit_8 [of "uint b"] by (simp add: sint_uint)

lemma dec_to_bin_other:
  assumes "\<not> octal b"
  shows "dec_to_bin b = None"
  using assms uint_lt2p [of b] by (auto simp: dec_to_bin_def octal_def sint_u8)

lemma isborder_octal:
  assumes "octal_map m" and "inside m r c" and "w \<in> {0, 1, 2}"
  shows "isborder m r c w = ret (wall m r c w)"
  using assms wf_index [OF octal_map_wf [OF assms(1)] assms(2)]
  by (auto simp: isborder_def wf_get_cell dec_to_bin_octal octal_cell wall_def)

lemma isborder_walls:
  assumes "octal_map m" and "inside m r c"
  shows "isborder m r c TOP_WALL = ret (wall m r c TOP_WALL)"
    and "isborder m r c BOTTOM_WALL = ret (wall m r c BOTTOM_WALL)"
    and "isborder m r c LEFT_WALL = ret (wall m r c LEFT_WALL)"
    and "isborder m r c RIGHT_WALL = ret (wall m r c RIGHT_WALL)"
    and "isborder m r c 0 = ret (wall m r c TOP_WALL)"
  using isborder_octal [OF assms] by (simp_all add: wall_defs)

section \<open>The check of a maze\<close>

lemma set_by_two: "set (by_two s n) = {j. s \<le> j \<and> j < n \<and> (j - s) mod 2 = 0}"
proof (induction s n rule: by_two.induct)
  case (1 s n)
  show ?case
  proof (cases "s < n")
    case True
    have "x = s \<or> s + 2 \<le> x \<and> x < n \<and> (x - (s + 2)) mod 2 = 0 \<longleftrightarrow>
        s \<le> x \<and> x < n \<and> (x - s) mod 2 = 0" for x
      using True by presburger
    then show ?thesis
      using True "1.IH" by (simp add: by_two.simps [of s n] set_eq_iff)
  next
    case False
    then show ?thesis by (auto simp: by_two.simps [of s n])
  qed
qed

lemma valid_row_iff:
  assumes "octal_map m" and "0 \<le> i" "i < rows m"
    and "\<forall>j \<in> set js. 0 \<le> j \<and> j + 1 < cols m"
  shows "valid_row m i js =
    (if \<forall>j \<in> set js. wall m i j RIGHT_WALL = wall m i (j + 1) LEFT_WALL
     then ret True else (Inr False, [Invalid_msg]))"
  using assms(4)
proof (induction js)
  case Nil
  then show ?case by simp
next
  case (Cons j js)
  then have "inside m i j" "inside m i (j + 1)"
    using assms(2,3) by (auto simp: inside_def)
  with Cons assms(1) show ?case by (auto simp: isborder_walls io_simps)
qed

lemma valid_rows_iff:
  assumes "octal_map m" and "\<forall>i \<in> set is. 0 \<le> i \<and> i < rows m"
  shows "valid_rows m is =
    (if \<forall>i \<in> set is. \<forall>j. 0 \<le> j \<and> j < cols m - 1 \<longrightarrow>
        wall m i j RIGHT_WALL = wall m i (j + 1) LEFT_WALL
     then ret True else (Inr False, [Invalid_msg]))"
  using assms(2)
proof (induction "is")
  case Nil
  then show ?case by simp
next
  case (Cons i "is")
  then show ?case
    using valid_row_iff [OF assms(1), of i "[0..cols m - 1 - 1]"] by (auto simp: io_simps)
qed

lemma valid_col_iff:
  assumes "octal_map m" and "0 \<le> i" "i < rows m - 1"
    and "\<forall>j \<in> set js. 0 \<le> j \<and> j < cols m"
  shows "valid_col m i js =
    (if \<forall>j \<in> set js. wall m i j TOP_WALL = wall m (i + 1) j TOP_WALL
     then ret True else (Inr False, [Invalid_msg]))"
  using assms(4)
proof (induction js)
  case Nil
  then show ?case by simp
next
  case (Cons j js)
  then have "inside m i j" "inside m (i + 1) j"
    using assms(2,3) by (auto simp: inside_def)
  with Cons assms(1) show ?case by (auto simp: isborder_walls io_simps)
qed

text \<open>The cells that the second loop visits in row \<open>i\<close> are those with a bottom wall.\<close>

lemma by_two_no_top:
  "0 \<le> i \<Longrightarrow> set (by_two (if i mod 2 = 0 then 1 else 0) n) = {j. 0 \<le> j \<and> j < n \<and> \<not> has_top_wall i j}"
  by (auto simp: set_by_two has_top_wall_def) presburger+

lemma valid_cols_iff:
  assumes "octal_map m" and "\<forall>i \<in> set is. 0 \<le> i \<and> i < rows m - 1"
  shows "valid_cols m is =
    (if \<forall>i \<in> set is. \<forall>j. 0 \<le> j \<and> j < cols m \<and> \<not> has_top_wall i j \<longrightarrow>
        wall m i j TOP_WALL = wall m (i + 1) j TOP_WALL
     then ret True else (Inr False, [Invalid_msg]))"
  using assms(2)
proof (induction "is")
  case Nil
  then show ?case by simp
next
  case (Cons i "is")
  let ?js = "by_two (if i mod 2 = 0 then 1 else 0) (cols m)"
  have js: "set ?js = {j. 0 \<le> j \<and> j < cols m \<and> \<not> has_top_wall i j}"
    using Cons.prems by (intro by_two_no_top) simp
  from Cons show ?case
    using valid_col_iff [OF assms(1), of i ?js] unfolding valid_cols.simps js
    by (auto simp: io_simps)
qed

lemma valid_maze_decides:
  assumes "octal_map m"
  shows "Map_valid_maze m = (Inr (), [if consistent m then Valid_msg else Invalid_msg])"
proof -
  have r: "valid_rows m [0..rows m - 1] =
      (if \<forall>r c. 0 \<le> r \<and> r < rows m \<and> 0 \<le> c \<and> c < cols m - 1 \<longrightarrow>
          wall m r c RIGHT_WALL = wall m r (c + 1) LEFT_WALL
       then ret True else (Inr False, [Invalid_msg]))"
    by (subst valid_rows_iff [OF assms]) auto
  have c: "valid_cols m [0..rows m - 1 - 1] =
      (if \<forall>r c. 0 \<le> r \<and> r < rows m - 1 \<and> 0 \<le> c \<and> c < cols m \<and> \<not> has_top_wall r c \<longrightarrow>
          wall m r c BOTTOM_WALL = wall m (r + 1) c TOP_WALL
       then ret True else (Inr False, [Invalid_msg]))"
    by (subst valid_cols_iff [OF assms]) (auto simp: BOTTOM_WALL_def)
  show ?thesis
    unfolding Map_valid_maze_def r c consistent_def by (auto simp: io_simps emit_def)
qed

text \<open>
  C11. The check of a maze is right: on a loaded maze of octal digits, \<open>Map_valid_maze\<close>
  neither faults nor stops, and it prints exactly one line, which is \<open>Valid\<close> if and only if
  every two neighbouring cells agree on the wall between them (the right and the left wall
  of horizontal neighbours, the bottom and the top wall of vertical neighbours).
\<close>

theorem Map_valid_maze_correct:
  assumes "octal_map m"
  shows "Map_valid_maze m = (Inr (), [if consistent m then Valid_msg else Invalid_msg])"
  using assms by (rule valid_maze_decides)

end
