(* ===== verification/Maze_Shortest.thy ===== *)
theory Maze_Shortest
  imports Maze_Queue Maze_Walls
begin

text \<open>
  The breadth-first search of \<open>maze.c\<close> (the branch \<open>'s'\<close> of \<open>Map_solve\<close>): the loop over the
  queue with the array of previous nodes, the walk back to the start, and the printed path.
  The loop terminates because every node that enters the queue marks a fresh entry of
  \<open>pre_nodes\<close>; the walk back terminates because it writes to an array of bounded length.
\<close>

section \<open>One node of the search\<close>

definition outside :: "maze_map \<Rightarrow> node \<Rightarrow> bool" where
  "outside m n \<longleftrightarrow> nrow n < 0 \<or> nrow n \<ge> rows m \<or> ncol n < 0 \<or> ncol n \<ge> cols m"

text \<open>
  An opening in the border of the maze at node \<open>n\<close>: the four tests of the loop, in order.
  Each also asks that the node is in another row and in another column than the start.
\<close>

definition exit_side :: "maze_map \<Rightarrow> node \<Rightarrow> node \<Rightarrow> bool \<Rightarrow> int \<Rightarrow> bool maze_io" where
  "exit_side m n st cond w =
     bind_io (free m (nrow n) (ncol n) cond w) (\<lambda>f.
       ret (f \<and> nrow n \<noteq> nrow st \<and> ncol n \<noteq> ncol st))"

definition bfs_exit :: "maze_map \<Rightarrow> node \<Rightarrow> node \<Rightarrow> bool maze_io" where
  "bfs_exit m n st =
     if_io (exit_side m n st (nrow n = 0 \<and> has_top_wall (nrow n) (ncol n)) TOP_WALL) (ret True)
    (if_io (exit_side m n st (ncol n = cols m - 1) RIGHT_WALL) (ret True)
    (if_io (exit_side m n st
              (nrow n = rows m - 1 \<and> \<not> has_top_wall (nrow n) (ncol n)) BOTTOM_WALL) (ret True)
           (exit_side m n st (ncol n = 0) LEFT_WALL)))"

type_synonym pre_nodes = "node option list"

text \<open>One of the four tests for a neighbour: enqueue it and record where it was reached from.\<close>

definition bfs_edge ::
  "maze_map \<Rightarrow> node \<Rightarrow> bool \<Rightarrow> int \<Rightarrow> int \<Rightarrow> int \<Rightarrow> queue \<times> pre_nodes \<Rightarrow>
   (queue \<times> pre_nodes) maze_io" where
  "bfs_edge m n cond w r c qp =
     if_io (free m (nrow n) (ncol n) cond w)
       (bind_io (arr_get (snd qp) (r * cols m + c)) (\<lambda>p.
          if nrow p = -1
          then bind_io (enqueue (fst qp) (node_ctor r c)) (\<lambda>q'.
               bind_io (arr_set (snd qp) (r * cols m + c) n) (\<lambda>pre'. ret (q', pre')))
          else ret qp))
       (ret qp)"

definition bfs_expand :: "maze_map \<Rightarrow> node \<Rightarrow> queue \<times> pre_nodes \<Rightarrow> (queue \<times> pre_nodes) maze_io" where
  "bfs_expand m n qp =
     (let r = nrow n; c = ncol n; top = has_top_wall (nrow n) (ncol n) in
      bind_io (bfs_edge m n top TOP_WALL (r - 1) c qp) (\<lambda>qp.
      bind_io (bfs_edge m n True RIGHT_WALL r (c + 1) qp) (\<lambda>qp.
      bind_io (bfs_edge m n (\<not> top) BOTTOM_WALL (r + 1) c qp) (\<lambda>qp.
        bfs_edge m n True LEFT_WALL r (c - 1) qp))))"

text \<open>The read of the node's cell, whose only effect is the message for a bad digit.\<close>

definition bfs_warn :: "maze_map \<Rightarrow> node \<Rightarrow> unit maze_io" where
  "bfs_warn m n =
     bind_io (arr_get (cells m) (nrow n * cols m + ncol n)) (\<lambda>ch.
       case dec_to_bin ch of
         None \<Rightarrow> emit (Err ''Something unexpected happened 1'')
       | Some _ \<Rightarrow> ret ())"

section \<open>The loop terminates\<close>

definition unmarked :: "pre_nodes \<Rightarrow> nat" where
  "unmarked pre = length (filter (\<lambda>p. \<exists>n. p = Some n \<and> nrow n = -1) pre)"

lemma unmarked_mark:
  assumes "i < length pre" and "pre ! i = Some p" and "nrow p = -1" and "nrow n \<noteq> -1"
  shows "Suc (unmarked (pre[i := Some n])) = unmarked pre"
proof -
  have "pre = take i pre @ Some p # drop (Suc i) pre"
    using assms by (metis id_take_nth_drop)
  moreover have "pre[i := Some n] = take i pre @ Some n # drop (Suc i) pre"
    using assms by (simp add: upd_conv_take_nth_drop)
  ultimately have "unmarked pre = unmarked (take i pre @ Some p # drop (Suc i) pre)"
    and "unmarked (pre[i := Some n]) = unmarked (take i pre @ Some n # drop (Suc i) pre)"
    by metis+
  then show ?thesis using assms by (simp add: unmarked_def)
qed

text \<open>The measure of the loop: an enqueued node is paid for by the entry that it marks.\<close>

definition bfs_measure :: "queue \<times> pre_nodes \<Rightarrow> nat" where
  "bfs_measure qp = 2 * unmarked (snd qp) + q_size (fst qp)"

lemma enqueue_size: "enqueue q n = (Inr q', w) \<Longrightarrow> q_size q' \<le> q_size q + 1"
  by (auto simp: enqueue_def bind_ok_iff split: if_splits)

lemma dequeue_size: "fst (dequeue q) = Inr nq \<Longrightarrow> q_size q \<noteq> 0 \<Longrightarrow> q_size (snd nq) < q_size q"
  by (cases "dequeue q") (auto simp: dequeue_def bind_ok_iff split: if_splits)

lemma bfs_edge_measure:
  assumes "bfs_edge m n cond w r c qp = (Inr qp', out)" and "nrow n \<noteq> -1"
  shows "bfs_measure qp' \<le> bfs_measure qp"
proof -
  let ?i = "nat (r * cols m + c)"
  from assms(1) consider "qp' = qp"
    | p q' w' where "?i < length (snd qp)" "snd qp ! ?i = Some p" "nrow p = -1"
        "enqueue (fst qp) (node_ctor r c) = (Inr q', w')" "qp' = (q', (snd qp)[?i := Some n])"
    by (auto simp: bfs_edge_def if_io_def bind_ok_iff arr_get_ok_iff arr_set_ok_iff
        split: if_splits)
  then show ?thesis
  proof cases
    case 2
    then show ?thesis
      using unmarked_mark [of ?i "snd qp" p n] enqueue_size [of "fst qp"] assms(2)
      by (fastforce simp: bfs_measure_def)
  qed simp
qed

lemma bfs_expand_measure:
  assumes "bfs_expand m n qp = (Inr qp', out)" and "nrow n \<noteq> -1"
  shows "bfs_measure qp' \<le> bfs_measure qp"
  using assms by (auto simp: bfs_expand_def Let_def bind_ok_iff)
    (meson bfs_edge_measure order_trans)

lemma fst_Inr_iff: "fst x = Inr y \<longleftrightarrow> x = (Inr y, snd x)"
  by (cases x) auto

function bfs_loop ::
  "maze_map \<Rightarrow> node \<Rightarrow> node option \<Rightarrow> queue \<times> pre_nodes \<Rightarrow> (node option \<times> pre_nodes) maze_io"
where
  "bfs_loop m st cur qp =
     (if q_is_empty (fst qp) then ret (cur, snd qp)
      else bind_io (dequeue (fst qp)) (\<lambda>nq.
        if outside m (fst nq) then bfs_loop m st (Some (fst nq)) (snd nq, snd qp)
        else if_io (bfs_exit m (fst nq) st) (ret (Some (fst nq), snd qp))
         (bind_io (bfs_warn m (fst nq)) (\<lambda>_.
          bind_io (bfs_expand m (fst nq) (snd nq, snd qp)) (\<lambda>qp'.
            bfs_loop m st (Some (fst nq)) qp')))))"
  by pat_completeness auto
termination
proof (relation "measure (\<lambda>(_, _, _, qp). bfs_measure qp)", goal_cases)
  case 1
  show ?case by simp
next
  case (2 m st cur qp nq)
  then show ?case
    using dequeue_size [of "fst qp" nq] by (auto simp: bfs_measure_def q_is_empty_def)
next
  case (3 m st cur qp nq u qp')
  then have "bfs_measure qp' \<le> bfs_measure (snd nq, snd qp)"
    by (intro bfs_expand_measure) (auto simp: fst_Inr_iff outside_def)
  with 3 show ?case
    using dequeue_size [of "fst qp" nq] by (auto simp: bfs_measure_def q_is_empty_def)
qed

declare bfs_loop.simps [simp del]

section \<open>The path\<close>

function back_path ::
  "maze_map \<Rightarrow> node \<Rightarrow> node \<Rightarrow> pre_nodes \<Rightarrow> node option list \<Rightarrow> int \<Rightarrow>
   (node option list \<times> int) maze_io" where
  "back_path m st cur pre arr index =
     (if nrow cur \<noteq> nrow st \<or> ncol cur \<noteq> ncol st
      then bind_io (arr_set arr index cur) (\<lambda>arr'.
           bind_io (arr_get pre (nrow cur * cols m + ncol cur)) (\<lambda>p.
             back_path m st p pre arr' (index + 1)))
      else bind_io (arr_set arr index cur) (\<lambda>arr'. ret (arr', index)))"
  by pat_completeness auto
termination
  by (relation "measure (\<lambda>(_, _, _, _, arr, index). nat (int (length arr) - index))")
    (auto simp: fst_Inr_iff arr_set_ok_iff)

declare back_path.simps [simp del]

primrec print_path :: "node option list \<Rightarrow> int list \<Rightarrow> unit maze_io" where
  "print_path arr [] = ret ()"
| "print_path arr (i # is) =
     bind_io (arr_get arr i) (\<lambda>n.
     bind_io (emit (Coord (nrow n + 1) (ncol n + 1))) (\<lambda>_. print_path arr is))"

definition solve_shortest :: "maze_map \<Rightarrow> int \<Rightarrow> int \<Rightarrow> unit maze_io" where
  "solve_shortest m r c =
     bind_io (cint (rows m * cols m)) (\<lambda>len.
     let st = node_ctor r c in
     bind_io (enqueue (q_ctor (nat len)) st) (\<lambda>q.
     bind_io (arr_set (replicate (nat len) (Some (node_ctor (-1) (-1)))) (r * cols m + c) st) (\<lambda>pre.
     bind_io (bfs_loop m st None (q, pre)) (\<lambda>(found, pre).
       case found of
         None \<Rightarrow> stop (Fault Uninitialised)
       | Some n \<Rightarrow>
           bind_io (back_path m st n pre (replicate (nat len) None) 0) (\<lambda>(arr, index).
             print_path arr (rev [0..index]))))))"

end
