(* ===== verification/Maze_Walk.thy ===== *)
theory Maze_Walk
  imports Maze_Shortest
begin

text \<open>
  \<open>Map_solve\<close> of \<open>maze.c\<close>. The recursion of \<open>Map_solve\<close> is one call per cell
  that is entered: \<open>Map_solve_call\<close> is the body of one call up to its recursive call, and
  \<open>Map_solve\<close> runs the calls with fuel, one unit for each.
\<close>

section \<open>One call\<close>

text \<open>The switch of mode \<open>'l'\<close>: the cell that is entered next, and from which side.\<close>

definition turn_l :: "maze_map \<Rightarrow> int \<Rightarrow> int \<Rightarrow> From \<Rightarrow> (int \<times> int \<times> From) maze_io" where
  "turn_l m r c from =
     (let top = free m r c (has_top_wall r c) TOP_WALL;
          bottom = free m r c (\<not> has_top_wall r c) BOTTOM_WALL;
          left = free m r c True LEFT_WALL;
          right = free m r c True RIGHT_WALL;
          go_top = ret (r - 1, c, BOTTOM); go_bottom = ret (r + 1, c, TOP);
          go_left = ret (r, c - 1, RIGHT); go_right = ret (r, c + 1, LEFT)
      in case from of
           TOP \<Rightarrow> if_io right go_right (if_io left go_left go_top)
         | RIGHT \<Rightarrow> if_io bottom go_bottom (if_io left go_left (if_io top go_top go_right))
         | BOTTOM \<Rightarrow> if_io left go_left (if_io right go_right go_bottom)
         | LEFT \<Rightarrow> if_io top go_top (if_io right go_right (if_io bottom go_bottom go_left)))"

text \<open>The switch of mode \<open>'r'\<close>.\<close>

definition turn_r :: "maze_map \<Rightarrow> int \<Rightarrow> int \<Rightarrow> From \<Rightarrow> (int \<times> int \<times> From) maze_io" where
  "turn_r m r c from =
     (let top = free m r c (has_top_wall r c) TOP_WALL;
          bottom = free m r c (\<not> has_top_wall r c) BOTTOM_WALL;
          left = free m r c True LEFT_WALL;
          right = free m r c True RIGHT_WALL;
          go_top = ret (r - 1, c, BOTTOM); go_bottom = ret (r + 1, c, TOP);
          go_left = ret (r, c - 1, RIGHT); go_right = ret (r, c + 1, LEFT)
      in case from of
           TOP \<Rightarrow> if_io left go_left (if_io right go_right go_top)
         | RIGHT \<Rightarrow> if_io top go_top (if_io left go_left (if_io bottom go_bottom go_right))
         | BOTTOM \<Rightarrow> if_io right go_right (if_io left go_left go_bottom)
         | LEFT \<Rightarrow> if_io bottom go_bottom (if_io right go_right (if_io top go_top go_left)))"

text \<open>
  One call: \<open>None\<close> when it returns without a recursive call, otherwise the arguments of that
  call. A side of \<open>None\<close> is the -1 that \<open>start_border\<close> returns when it finds no opening.
\<close>

definition Map_solve_call ::
  "maze_map \<Rightarrow> int \<Rightarrow> int \<Rightarrow> From option \<Rightarrow> char \<Rightarrow> (int \<times> int \<times> From) option maze_io" where
  "Map_solve_call m r c from lrs =
     (if r < 0 \<or> r \<ge> rows m \<or> c < 0 \<or> c \<ge> cols m then ret None
      else
        bind_io (if lrs \<noteq> CHR ''s'' then emit (Coord (r + 1) (c + 1)) else ret ()) (\<lambda>_.
        bind_io (arr_get (cells m) (r * cols m + c)) (\<lambda>ch.
        case dec_to_bin ch of
          None \<Rightarrow>
            bind_io (emit (Err ''Something unexpected happened 1'')) (\<lambda>_. stop (Fault NullPointer))
        | Some bin \<Rightarrow>
            if bin = ''111'' then
              bind_io (emit (Err ''The position is a dead end. How did you get here?''))
                (\<lambda>_. stop (Exit 1))
            else if lrs = CHR ''l'' \<or> lrs = CHR ''r'' then
              (case from of
                 None \<Rightarrow> bind_io (emit (Err ''Something unexpected happened 2'')) (\<lambda>_. ret None)
               | Some f \<Rightarrow>
                   bind_io (if lrs = CHR ''l'' then turn_l m r c f else turn_r m r c f)
                     (\<lambda>nxt. ret (Some nxt)))
            else if lrs = CHR ''s'' then bind_io (solve_shortest m r c) (\<lambda>_. ret None)
            else ret None)))"

primrec Map_solve ::
  "nat \<Rightarrow> maze_map \<Rightarrow> int \<Rightarrow> int \<Rightarrow> From option \<Rightarrow> char \<Rightarrow> unit maze_io option" where
  "Map_solve 0 m r c from lrs = None"
| "Map_solve (Suc fuel) m r c from lrs =
     bind_fuel (Map_solve_call m r c from lrs) (\<lambda>nxt.
       case nxt of
         None \<Rightarrow> Some (ret ())
       | Some (r', c', from') \<Rightarrow> Map_solve fuel m r' c' (Some from') lrs)"

end
