(* ===== verification/Maze_Rules.thy ===== *)
theory Maze_Rules
  imports Maze_Walk
begin

text \<open>
  Why following a wall leaves the maze. A position is a cell and the side it was entered
  from. The two rules choose the exit by going round the three sides of a cell in a fixed
  order, which can be undone; so where neighbouring cells agree on their walls, a step
  between positions with an open entry side is injective (\<open>reversible_walk\<close>), and a walk that
  starts at a position without predecessor never repeats one.
\<close>

section \<open>Reversible walks\<close>

locale reversible_walk =
  fixes area :: "'s set"
    and nxt :: "'s \<Rightarrow> 's"
  assumes fin: "finite area"
    and inj: "inj_on nxt area"
begin

lemma no_return:
  assumes "s \<in> area" and "s \<notin> nxt ` area"
    and "\<And>k. k < j \<Longrightarrow> (nxt ^^ k) s \<in> area" and "i < j"
  shows "(nxt ^^ i) s \<noteq> (nxt ^^ j) s"
  using assms(3,4)
proof (induction i arbitrary: j)
  case 0
  then obtain k where k: "j = Suc k" by (cases j) auto
  with 0 have "(nxt ^^ k) s \<in> area" by simp
  with assms(2) k show ?case by (auto intro: rev_image_eqI)
next
  case (Suc i)
  then obtain k where k: "j = Suc k" "i < k" by (cases j) auto
  with Suc have "(nxt ^^ i) s \<noteq> (nxt ^^ k) s" by simp
  moreover have "(nxt ^^ i) s \<in> area" "(nxt ^^ k) s \<in> area"
    using Suc.prems k by auto
  ultimately show ?case using inj k by (auto dest: inj_onD)
qed

text \<open>The walk leaves the area within as many steps as the area has positions.\<close>

lemma leaves:
  assumes "s \<in> area" and "s \<notin> nxt ` area"
  shows "\<exists>n \<le> card area. (nxt ^^ n) s \<notin> area \<and> (\<forall>i < n. (nxt ^^ i) s \<in> area)"
proof -
  let ?w = "\<lambda>i. (nxt ^^ i) s"
  have "\<exists>n. n \<le> card area \<and> ?w n \<notin> area"
  proof (rule ccontr)
    assume "\<not> ?thesis"
    then have all: "?w i \<in> area" if "i \<le> card area" for i using that by blast
    have ne: "?w i \<noteq> ?w j" if "i < j" "j \<le> card area" for i j
      using that assms by (intro no_return) (auto intro: all)
    have "inj_on ?w {..card area}"
    proof (rule inj_onI, rule ccontr)
      fix i j
      assume "i \<in> {..card area}" "j \<in> {..card area}" "?w i = ?w j" "i \<noteq> j"
      then show False using ne [of i j] ne [of j i] by (cases "i < j") auto
    qed
    then have "card (?w ` {..card area}) = Suc (card area)"
      by (simp add: card_image)
    moreover have "card (?w ` {..card area}) \<le> card area"
      using fin all by (intro card_mono) auto
    ultimately show False by simp
  qed
  then obtain n where n: "n \<le> card area" "?w n \<notin> area" by blast
  define k where "k = (LEAST k. ?w k \<notin> area)"
  have "?w k \<notin> area" using n(2) unfolding k_def by (rule LeastI)
  moreover have "k \<le> n" using n(2) unfolding k_def by (rule Least_le)
  moreover have "?w i \<in> area" if "i < k" for i
    using not_less_Least [of i "\<lambda>k. ?w k \<notin> area"] that unfolding k_def by blast
  ultimately show ?thesis using n(1) by (meson order_trans)
qed

end

section \<open>The two rules\<close>

type_synonym position = "int \<times> int \<times> From"

text \<open>A cell has a top or a bottom side, a left and a right side; which of them is open.\<close>

fun open_side :: "maze_map \<Rightarrow> int \<Rightarrow> int \<Rightarrow> From \<Rightarrow> bool" where
  "open_side m r c TOP \<longleftrightarrow> has_top_wall r c \<and> \<not> wall m r c TOP_WALL"
| "open_side m r c BOTTOM \<longleftrightarrow> \<not> has_top_wall r c \<and> \<not> wall m r c BOTTOM_WALL"
| "open_side m r c LEFT \<longleftrightarrow> \<not> wall m r c LEFT_WALL"
| "open_side m r c RIGHT \<longleftrightarrow> \<not> wall m r c RIGHT_WALL"

text \<open>The position behind a side.\<close>

fun go :: "int \<Rightarrow> int \<Rightarrow> From \<Rightarrow> position" where
  "go r c TOP = (r - 1, c, BOTTOM)"
| "go r c BOTTOM = (r + 1, c, TOP)"
| "go r c LEFT = (r, c - 1, RIGHT)"
| "go r c RIGHT = (r, c + 1, LEFT)"

text \<open>The order in which mode \<open>'l'\<close> goes round the sides; mode \<open>'r'\<close> goes the other way.\<close>

fun order_l :: "bool \<Rightarrow> From \<Rightarrow> From" where
  "order_l up TOP = RIGHT"
| "order_l up BOTTOM = LEFT"
| "order_l up RIGHT = (if up then LEFT else BOTTOM)"
| "order_l up LEFT = (if up then TOP else RIGHT)"

fun order_r :: "bool \<Rightarrow> From \<Rightarrow> From" where
  "order_r up TOP = LEFT"
| "order_r up BOTTOM = RIGHT"
| "order_r up RIGHT = (if up then TOP else LEFT)"
| "order_r up LEFT = (if up then RIGHT else BOTTOM)"

definition order_of :: "char \<Rightarrow> bool \<Rightarrow> From \<Rightarrow> From" where
  "order_of lrs = (if lrs = CHR ''l'' then order_l else order_r)"

text \<open>The first open side after the entry, or the entry itself.\<close>

definition exit_by :: "char \<Rightarrow> maze_map \<Rightarrow> int \<Rightarrow> int \<Rightarrow> From \<Rightarrow> From" where
  "exit_by lrs m r c f =
     (let nx = order_of lrs (has_top_wall r c) in
      if open_side m r c (nx f) then nx f
      else if open_side m r c (nx (nx f)) then nx (nx f)
      else f)"

definition walk_step :: "char \<Rightarrow> maze_map \<Rightarrow> position \<Rightarrow> position" where
  "walk_step lrs m = (\<lambda>(r, c, f). go r c (exit_by lrs m r c f))"

definition walk_area :: "maze_map \<Rightarrow> position set" where
  "walk_area m = {(r, c, f). inside m r c \<and> open_side m r c f}"

definition is_side :: "int \<Rightarrow> int \<Rightarrow> From \<Rightarrow> bool" where
  "is_side r c f \<longleftrightarrow> (f = TOP \<longrightarrow> has_top_wall r c) \<and> (f = BOTTOM \<longrightarrow> \<not> has_top_wall r c)"

lemma open_is_side: "open_side m r c f \<Longrightarrow> is_side r c f"
  by (cases f) (auto simp: is_side_def)

lemma free_open:
  assumes "octal_map m" and "inside m r c"
  shows "free m r c (has_top_wall r c) TOP_WALL = ret (open_side m r c TOP)"
    and "free m r c (\<not> has_top_wall r c) BOTTOM_WALL = ret (open_side m r c BOTTOM)"
    and "free m r c True LEFT_WALL = ret (open_side m r c LEFT)"
    and "free m r c True RIGHT_WALL = ret (open_side m r c RIGHT)"
  using assms by (auto simp: free_def isborder_walls)

text \<open>The code's switches are these rules.\<close>

lemma turn_l_rule:
  assumes "octal_map m" and "inside m r c" and "is_side r c f"
  shows "turn_l m r c f = ret (walk_step (CHR ''l'') m (r, c, f))"
  using assms
  by (cases f)
    (auto simp: turn_l_def free_open walk_step_def exit_by_def order_of_def is_side_def Let_def)

lemma turn_r_rule:
  assumes "octal_map m" and "inside m r c" and "is_side r c f"
  shows "turn_r m r c f = ret (walk_step (CHR ''r'') m (r, c, f))"
  using assms
  by (cases f)
    (auto simp: turn_r_def free_open walk_step_def exit_by_def order_of_def is_side_def Let_def)

section \<open>A step is reversible\<close>

text \<open>The side through which one comes back.\<close>

fun opposite :: "From \<Rightarrow> From" where
  "opposite TOP = BOTTOM"
| "opposite BOTTOM = TOP"
| "opposite LEFT = RIGHT"
| "opposite RIGHT = LEFT"

lemma go_eq: "go r c d = go r' c' d' \<longleftrightarrow> r = r' \<and> c = c' \<and> d = d'"
  by (cases d; cases d') auto

text \<open>Going round the sides can be undone, also when closed sides are skipped.\<close>

lemma exit_by_inj:
  assumes "open_side m r c f" and "open_side m r c g"
    and "exit_by lrs m r c f = exit_by lrs m r c g"
  shows "f = g"
  using assms by (cases f; cases g)
    (auto simp: exit_by_def order_of_def Let_def split: if_splits)

lemma exit_by_open: "open_side m r c f \<Longrightarrow> open_side m r c (exit_by lrs m r c f)"
  by (auto simp: exit_by_def Let_def)

lemma walk_step_inj: "inj_on (walk_step lrs m) (walk_area m)"
  by (rule inj_onI) (auto simp: walk_step_def walk_area_def go_eq dest: exit_by_inj)

lemma side_UNIV: "(UNIV :: From set) = {TOP, RIGHT, BOTTOM, LEFT}"
  by (auto intro: From.exhaust)

lemma finite_walk_area: "finite (walk_area m)"
proof (rule finite_subset)
  show "walk_area m \<subseteq> {0..<rows m} \<times> {0..<cols m} \<times> UNIV"
    by (auto simp: walk_area_def inside_def)
qed (simp add: side_UNIV)

interpretation hand: reversible_walk "walk_area m" "walk_step lrs m" for lrs m
  by unfold_locales (rule finite_walk_area, rule walk_step_inj)

text \<open>A cell has three sides, so there are at most three positions for each cell.\<close>

lemma card_walk_area:
  assumes "wf_map m"
  shows "card (walk_area m) \<le> nat (3 * (rows m * cols m))"
proof -
  let ?h = "\<lambda>(r, c, f). (r, c, if f = BOTTOM then TOP else f) :: position"
  have "inj_on ?h (walk_area m)"
    by (rule inj_onI) (auto simp: walk_area_def dest!: open_is_side simp: is_side_def split: if_splits)
  then have "card (walk_area m) = card (?h ` walk_area m)" by (simp add: card_image)
  also have "\<dots> \<le> card ({0..<rows m} \<times> {0..<cols m} \<times> {TOP, RIGHT, LEFT})"
    by (rule card_mono) (auto simp: walk_area_def inside_def, metis From.exhaust)
  also have "\<dots> = nat (rows m) * nat (cols m) * 3"
    by (simp add: card_cartesian_product)
  also have "\<dots> = nat (3 * (rows m * cols m))"
    using assms by (simp add: wf_map_def nat_mult_distrib)
  finally show ?thesis .
qed

text \<open>In a consistent maze an open side stays open seen from the other cell.\<close>

lemma consistent_open:
  assumes "consistent m" and "inside m r c" and "open_side m r c d"
    and "go r c d = (r', c', f')" and "inside m r' c'"
  shows "open_side m r' c' f'"
proof -
  have h: "wall m r c RIGHT_WALL = wall m r (c + 1) LEFT_WALL" if "inside m r c" "inside m r (c + 1)" for r c
    using assms(1) that by (auto simp: consistent_def inside_def)
  have v: "wall m r c BOTTOM_WALL = wall m (r + 1) c TOP_WALL"
    if "inside m r c" "inside m (r + 1) c" "\<not> has_top_wall r c" for r c
    using assms(1) that by (auto simp: consistent_def inside_def)
  have par: "has_top_wall (r + 1) c \<longleftrightarrow> \<not> has_top_wall r c" for r c
    unfolding has_top_wall_def by presburger
  show ?thesis
    using assms(2-) h [of r c] h [of r "c - 1"] v [of r c] v [of "r - 1" c] par [of r c] par [of "r - 1" c]
    by (cases d) auto
qed

lemma walk_step_stays:
  assumes "consistent m" and "p \<in> walk_area m"
  shows "walk_step lrs m p \<in> walk_area m \<longleftrightarrow> (case walk_step lrs m p of (r, c, f) \<Rightarrow> inside m r c)"
proof -
  obtain r c f where p: "p = (r, c, f)" by (cases p)
  obtain r' c' f' where g: "go r c (exit_by lrs m r c f) = (r', c', f')"
    by (cases "go r c (exit_by lrs m r c f)")
  from assms p have "inside m r c" "open_side m r c (exit_by lrs m r c f)"
    by (auto simp: walk_area_def intro: exit_by_open)
  from consistent_open [OF assms(1) this g] p g show ?thesis
    by (auto simp: walk_step_def walk_area_def)
qed

text \<open>Two cells with an open side between them, seen from the first.\<close>

definition passage :: "maze_map \<Rightarrow> int \<times> int \<Rightarrow> int \<times> int \<Rightarrow> bool" where
  "passage m p q \<longleftrightarrow>
     (\<exists>d f. open_side m (fst p) (snd p) d \<and> go (fst p) (snd p) d = (fst q, snd q, f))"

end
