(* ===== verification/Maze_Sample.thy ===== *)
theory Maze_Sample
  imports Maze_Walls
begin

text \<open>A small maze on which the theorems about \<open>maze.c\<close> are applied.\<close>

text \<open>
  Two rows of three cells, \<open>4 2 7\<close> and \<open>7 1 4\<close>. From the opening in the left border at the
  upper left cell, the way is right, down, and right through the opening in the right border.
\<close>

definition sample_map :: maze_map where
  "sample_map = \<lparr>rows = 2, cols = 3, cells = map Some [52, 50, 55, 55, 49, 52]\<rparr>"

lemma octal_mapI:
  "wf_map m \<Longrightarrow> list_all (\<lambda>x. octal (the x)) (cells m) \<Longrightarrow> octal_map m"
  by (auto simp: octal_map_def list_all_iff)

lemma sample_octal: "octal_map sample_map"
  by (rule octal_mapI) (simp_all add: sample_map_def wf_map_def in_int_def INT_MIN_def INT_MAX_def octal_def)

lemma int_below_2: "0 \<le> (i :: int) \<and> i < 2 \<longleftrightarrow> i = 0 \<or> i = 1"
  and int_below_3: "0 \<le> (i :: int) \<and> i < 3 \<longleftrightarrow> i = 0 \<or> i = 1 \<or> i = 2"
  by auto

lemma sample_consistent: "consistent sample_map"
proof -
  have "wall sample_map r c RIGHT_WALL = wall sample_map r (c + 1) LEFT_WALL"
    if "0 \<le> r" "r < 2" "0 \<le> c" "c < 2" for r c
  proof -
    have "(r = 0 \<or> r = 1) \<and> (c = 0 \<or> c = 1)" using that by auto
    then show ?thesis by (elim conjE disjE) (simp_all, code_simp+)
  qed
  moreover have "wall sample_map r c BOTTOM_WALL = wall sample_map (r + 1) c TOP_WALL"
    if "0 \<le> r" "r < 1" "0 \<le> c" "c < 3" "\<not> has_top_wall r c" for r c
  proof -
    have "r = 0 \<and> (c = 0 \<or> c = 1 \<or> c = 2)" using that by auto
    then show ?thesis using that(5) by (elim conjE disjE) (simp_all, code_simp+)
  qed
  ultimately show ?thesis by (simp add: consistent_def sample_map_def)
qed

text \<open>The same maze without the opening on the left, and one with an opening above instead.\<close>

definition sealed_map :: maze_map where
  "sealed_map = \<lparr>rows = 2, cols = 3, cells = map Some [53, 50, 55, 55, 49, 52]\<rparr>"

definition top_map :: maze_map where
  "top_map = \<lparr>rows = 2, cols = 3, cells = map Some [49, 50, 55, 55, 49, 52]\<rparr>"

lemma sealed_octal: "octal_map sealed_map"
  by (rule octal_mapI) (simp_all add: sealed_map_def wf_map_def in_int_def INT_MIN_def INT_MAX_def octal_def)

lemma top_octal: "octal_map top_map"
  by (rule octal_mapI) (simp_all add: top_map_def wf_map_def in_int_def INT_MIN_def INT_MAX_def octal_def)

end
