(* ===== verification/Maze_Escape.thy ===== *)
theory Maze_Escape
  imports Maze_Rules Maze_Sample
begin

text \<open>
  What \<open>Map_solve\<close> does in its modes \<open>'l'\<close> and \<open>'r'\<close>: from an opening in the border of a
  consistent maze it returns, within a bounded depth of recursion, having printed a path
  through open sides that ends at an opening in the border.
\<close>

section \<open>A call is a step of the walk\<close>

lemma dead_end_iff:
  assumes "octal b"
  shows "dec_to_bin b = Some ''111'' \<longleftrightarrow> (\<forall>k \<in> {0, 1, 2}. odd ((uint b - 48) div 2 ^ k))"
  by (auto simp: dec_to_bin_octal [OF assms])

lemma open_not_dead_end:
  assumes "octal_map m" and "inside m r c" and "open_side m r c f"
  shows "dec_to_bin (cell m r c) \<noteq> Some ''111''" and "dec_to_bin (cell m r c) \<noteq> None"
proof -
  have oct: "octal (cell m r c)" using octal_cell assms(1,2) .
  then show "dec_to_bin (cell m r c) \<noteq> None" by (simp add: dec_to_bin_octal)
  have "\<exists>w \<in> {0, 1, 2}. \<not> wall m r c w"
    using assms(3) by (cases f) (auto simp: wall_defs)
  then show "dec_to_bin (cell m r c) \<noteq> Some ''111''"
    by (auto simp: dead_end_iff [OF oct] wall_def)
qed

lemma call_inside:
  assumes "octal_map m" and "(r, c, f) \<in> walk_area m" and "lrs = CHR ''l'' \<or> lrs = CHR ''r''"
  shows "Map_solve_call m r c (Some f) lrs =
    (Inr (Some (walk_step lrs m (r, c, f))), [Coord (r + 1) (c + 1)])"
proof -
  from assms(2) have in_m: "inside m r c" and op: "open_side m r c f"
    by (auto simp: walk_area_def)
  obtain bin where bin: "dec_to_bin (cell m r c) = Some bin" "bin \<noteq> ''111''"
    using open_not_dead_end [OF assms(1) in_m op] by (cases "dec_to_bin (cell m r c)") auto
  have turn: "(if lrs = CHR ''l'' then turn_l m r c f else turn_r m r c f) =
      ret (walk_step lrs m (r, c, f))"
    using turn_l_rule turn_r_rule assms(1,3) in_m open_is_side [OF op] by auto
  have "\<not> (r < 0 \<or> r \<ge> rows m \<or> c < 0 \<or> c \<ge> cols m)"
    using in_m by (auto simp: inside_def)
  then show ?thesis
    unfolding Map_solve_call_def wf_get_cell [OF octal_map_wf [OF assms(1)] in_m]
    using bin assms(3) by (auto simp: turn [simplified] io_simps)
qed

lemma call_outside: "\<not> inside m r c \<Longrightarrow> Map_solve_call m r c from lrs = ret None"
  by (auto simp: Map_solve_call_def inside_def)

text \<open>The calls print the cells of the walk, as long as it stays in the maze.\<close>

definition coord_of :: "position \<Rightarrow> maze_event" where
  "coord_of = (\<lambda>(r, c, f). Coord (r + 1) (c + 1))"

definition walk_path :: "char \<Rightarrow> maze_map \<Rightarrow> position \<Rightarrow> nat \<Rightarrow> position list" where
  "walk_path lrs m p n = map (\<lambda>i. (walk_step lrs m ^^ i) p) [0..<n]"

lemma walk_path_Suc: "walk_path lrs m p (Suc n) = p # walk_path lrs m (walk_step lrs m p) n"
  by (simp add: walk_path_def upt_conv_Cons map_Suc_upt [symmetric] comp_def funpow_swap1
      del: upt_Suc)

lemma run_walk:
  assumes "octal_map m" and "lrs = CHR ''l'' \<or> lrs = CHR ''r''"
    and "\<And>i. i < n \<Longrightarrow> (walk_step lrs m ^^ i) p \<in> walk_area m"
    and "\<And>r c f. (walk_step lrs m ^^ n) p = (r, c, f) \<Longrightarrow> \<not> inside m r c" and "n < fuel"
  shows "(case p of (r, c, f) \<Rightarrow> Map_solve fuel m r c (Some f) lrs) =
    Some (Inr (), map coord_of (walk_path lrs m p n))"
  using assms(3-)
proof (induction n arbitrary: p fuel)
  case 0
  then obtain k where k: "fuel = Suc k" by (cases fuel) auto
  obtain r c f where p: "p = (r, c, f)" by (cases p)
  have "Map_solve_call m r c (Some f) lrs = ret None"
    using 0 p by (intro call_outside) simp
  then show ?case by (simp add: p k walk_path_def)
next
  case (Suc n)
  obtain r c f where p: "p = (r, c, f)" by (cases p)
  obtain r' c' f' where step: "walk_step lrs m p = (r', c', f')" by (cases "walk_step lrs m p")
  from Suc.prems obtain k where k: "fuel = Suc k" "n < k" by (cases fuel) auto
  have shift: "(walk_step lrs m ^^ Suc i) p = (walk_step lrs m ^^ i) (r', c', f')" for i
    by (simp add: funpow_Suc_right step del: funpow.simps)
  have "(r, c, f) \<in> walk_area m" using Suc.prems(1) [of 0] p by simp
  note call = call_inside [OF assms(1) this assms(2)]
  have "Map_solve k m r' c' (Some f') lrs = Some (Inr (), map coord_of (walk_path lrs m (r', c', f') n))"
    using Suc.IH [of "(r', c', f')" k] Suc.prems(1) [of "Suc _"] Suc.prems(2) k shift by auto
  then show ?case
    using p step by (simp add: k call io_simps walk_path_Suc coord_of_def)
qed

section \<open>The way out\<close>

definition cell_of :: "position \<Rightarrow> int \<times> int" where
  "cell_of = (\<lambda>(r, c, f). (r, c))"

lemma walk_step_passage:
  assumes "p \<in> walk_area m"
  shows "passage m (cell_of p) (cell_of (walk_step lrs m p))"
proof -
  obtain r c f where p: "p = (r, c, f)" by (cases p)
  obtain r' c' f' where g: "go r c (exit_by lrs m r c f) = (r', c', f')"
    by (cases "go r c (exit_by lrs m r c f)")
  have "open_side m r c (exit_by lrs m r c f)"
    using assms p by (intro exit_by_open) (simp add: walk_area_def)
  with g show ?thesis
    unfolding passage_def by (auto simp: p walk_step_def cell_of_def)
qed

lemma successively_map_upt:
  "(\<And>i. Suc i < n \<Longrightarrow> P (f i) (f (Suc i))) \<Longrightarrow> successively P (map f [0..<n])"
  by (simp add: successively_conv_nth)

text \<open>The positions of a consistent maze have no way back from outside.\<close>

lemma no_predecessor:
  assumes "(r, c, f) \<in> walk_area m" and "go r c f = (r', c', f')" and "\<not> inside m r' c'"
  shows "(r, c, f) \<notin> walk_step lrs m ` walk_area m"
proof
  assume "(r, c, f) \<in> walk_step lrs m ` walk_area m"
  then obtain r1 c1 d where in_m: "inside m r1 c1" and g: "go r1 c1 d = (r, c, f)"
    by (auto simp: walk_step_def walk_area_def)
  from g have "go r c f = (r1, c1, d)" by (cases d) auto
  with in_m assms(2,3) show False by simp
qed

lemma walk_escapes:
  assumes "octal_map m" and "consistent m" and "lrs = CHR ''l'' \<or> lrs = CHR ''r''"
    and "inside m r c" and "open_side m r c f"
    and "go r c f = (r', c', f')" and "\<not> inside m r' c'"
    and "nat (3 * (rows m * cols m)) < fuel"
  shows "\<exists>path. Map_solve fuel m r c (Some f) lrs =
                 Some (Inr (), map (\<lambda>(r, c). Coord (r + 1) (c + 1)) path) \<and>
           path \<noteq> [] \<and> hd path = (r, c) \<and> length path \<le> nat (3 * (rows m * cols m)) \<and>
           (\<forall>(r, c) \<in> set path. inside m r c) \<and> successively (passage m) path \<and>
           (\<exists>r c. passage m (last path) (r, c) \<and> \<not> inside m r c)"
proof -
  let ?p = "(r, c, f)"
  let ?w = "\<lambda>i. (walk_step lrs m ^^ i) ?p"
  have start: "?p \<in> walk_area m" using assms by (simp add: walk_area_def)
  from hand.leaves [OF this no_predecessor [OF this assms(6,7)], of lrs]
  obtain n where n: "n \<le> card (walk_area m)" "?w n \<notin> walk_area m" "\<forall>i < n. ?w i \<in> walk_area m"
    by blast
  then obtain k where k: "n = Suc k" using start by (cases n) auto
  have len: "n \<le> nat (3 * (rows m * cols m))"
    using n(1) card_walk_area [OF octal_map_wf [OF assms(1)]] by linarith
  have out: "\<not> inside m r1 c1" if "?w n = (r1, c1, f1)" for r1 c1 f1
    using walk_step_stays [OF assms(2), of "?w k" lrs] n k that by auto
  define path where "path = map cell_of (walk_path lrs m ?p n)"
  have "Map_solve fuel m r c (Some f) lrs = Some (Inr (), map coord_of (walk_path lrs m ?p n))"
    using run_walk [OF assms(1,3), of n ?p fuel] n(3) out len assms(8) by simp
  then have run: "Map_solve fuel m r c (Some f) lrs =
      Some (Inr (), map (\<lambda>(r, c). Coord (r + 1) (c + 1)) path)"
    by (auto simp: path_def coord_of_def cell_of_def split: prod.splits)
  have path_nth: "path = map (\<lambda>i. cell_of (?w i)) [0..<n]"
    by (simp add: path_def walk_path_def comp_def)
  have pass: "passage m (cell_of (?w i)) (cell_of (?w (Suc i)))" if "i < n" for i
    using walk_step_passage [of "?w i" m lrs] n(3) that by auto
  have "path \<noteq> []" "hd path = (r, c)" "length path = n"
    unfolding path_nth by (simp_all add: k hd_map cell_of_def del: upt_Suc)
  moreover have "\<forall>(r, c) \<in> set path. inside m r c"
    using n(3) by (auto simp: path_nth cell_of_def walk_area_def split: prod.splits)
  moreover have "successively (passage m) path"
    unfolding path_nth by (intro successively_map_upt pass) simp
  moreover have "last path = cell_of (?w k)"
    by (simp add: path_nth k)
  moreover obtain r1 c1 f1 where "?w n = (r1, c1, f1)" by (cases "?w n")
  moreover from this have "passage m (cell_of (?w k)) (r1, c1)"
    using pass [of k] k by (simp add: cell_of_def)
  ultimately show ?thesis using run out len by metis
qed

text \<open>
  C1. Wall following gets out. In a consistent maze of octal digits, started at a cell with
  an open side that leads outside, \<open>Map_solve\<close> in mode \<open>'l'\<close> or \<open>'r'\<close> returns at a depth of
  recursion of at most three times the number of cells plus one, without a fault or an
  \<open>exit\<close>. It prints a path that begins at the start, stays inside the maze, goes from every
  cell to the next through an open side, and ends at a cell with an opening to the outside.
\<close>

theorem Map_solve_escapes:
  assumes "octal_map m" and "consistent m" and "lrs = CHR ''l'' \<or> lrs = CHR ''r''"
    and "inside m r c" and "open_side m r c f"
    and "go r c f = (r', c', f')" and "\<not> inside m r' c'"
    and "nat (3 * (rows m * cols m)) < fuel"
  shows "\<exists>path. Map_solve fuel m r c (Some f) lrs =
                 Some (Inr (), map (\<lambda>(r, c). Coord (r + 1) (c + 1)) path) \<and>
           path \<noteq> [] \<and> hd path = (r, c) \<and> length path \<le> nat (3 * (rows m * cols m)) \<and>
           (\<forall>(r, c) \<in> set path. inside m r c) \<and> successively (passage m) path \<and>
           (\<exists>r c. passage m (last path) (r, c) \<and> \<not> inside m r c)"
  using assms by (rule walk_escapes)

end
