(* ===== verification/Maze_Search.thy ===== *)
theory Maze_Search
  imports Maze_Rules
begin

text \<open>
  The invariant of the breadth-first search of \<open>maze.c\<close>. The ghost variables are \<open>ord\<close>, the
  cells in the order in which they were marked, and \<open>lev\<close>, the number of steps in which they
  were reached; the queue holds the cells of \<open>ord\<close> from some position on.
\<close>

section \<open>Cells and their entries\<close>

type_synonym square = "int \<times> int"

definition node_of :: "square \<Rightarrow> node" where
  "node_of p = node_ctor (fst p) (snd p)"

definition idx :: "maze_map \<Rightarrow> square \<Rightarrow> nat" where
  "idx m p = nat (fst p * cols m + snd p)"

definition within :: "maze_map \<Rightarrow> square \<Rightarrow> bool" where
  "within m p \<longleftrightarrow> inside m (fst p) (snd p)"

lemma node_of_sel [simp]: "nrow (node_of p) = fst p" "ncol (node_of p) = snd p"
  by (simp_all add: node_of_def)

lemma node_of_inj [simp]: "node_of p = node_of q \<longleftrightarrow> p = q"
  by (auto simp: node_of_def prod_eq_iff)

lemma outside_node: "outside m (node_of p) \<longleftrightarrow> \<not> within m p"
  by (auto simp: outside_def within_def inside_def)

lemma idx_less: "wf_map m \<Longrightarrow> within m p \<Longrightarrow> idx m p < nat (rows m * cols m)"
  using rc_bounds [of "fst p" "rows m" "snd p" "cols m"]
  by (auto simp: idx_def within_def inside_def)

lemma within_bounds:
  assumes "within m p"
  shows "0 \<le> fst p * cols m + snd p" and "fst p * cols m + snd p < rows m * cols m"
  using assms rc_bounds [of "fst p" "rows m" "snd p" "cols m"]
  by (simp_all add: within_def inside_def)

lemma idx_inj:
  assumes "within m p" and "within m q"
  shows "idx m p = idx m q \<longleftrightarrow> p = q"
proof -
  have "idx m p = idx m q \<longleftrightarrow> fst p * cols m + snd p = fst q * cols m + snd q"
    unfolding idx_def by (rule eq_nat_nat_iff [OF within_bounds(1) within_bounds(1)]) fact+
  also have "\<dots> \<longleftrightarrow> p = q"
    using assms rc_inj [of "snd p" "cols m" "snd q" "fst p" "fst q"]
    by (auto simp: within_def inside_def prod_eq_iff)
  finally show ?thesis .
qed

section \<open>The invariant\<close>

text \<open>
  A marked cell points to an earlier one, one step closer to the start; the levels do not
  decrease along \<open>ord\<close>; the cells before position \<open>k\<close> have been expanded, so their
  neighbours are marked and at most one level further.
\<close>

definition searched ::
  "maze_map \<Rightarrow> square \<Rightarrow> nat \<Rightarrow> square list \<Rightarrow> (square \<Rightarrow> nat) \<Rightarrow> pre_nodes \<Rightarrow> bool" where
  "searched m st k ord lev pre \<longleftrightarrow>
     length pre = nat (rows m * cols m) \<and> None \<notin> set pre \<and>
     ord \<noteq> [] \<and> hd ord = st \<and> distinct ord \<and> (\<forall>p \<in> set ord. within m p) \<and>
     (\<forall>p. within m p \<longrightarrow> (nrow (the (pre ! idx m p)) \<noteq> -1 \<longleftrightarrow> p \<in> set ord)) \<and>
     lev st = 0 \<and> sorted (map lev ord) \<and>
     (\<forall>i < length ord. 0 < i \<longrightarrow>
        (\<exists>j < i. pre ! idx m (ord ! i) = Some (node_of (ord ! j)) \<and>
                 passage m (ord ! j) (ord ! i) \<and> lev (ord ! i) = Suc (lev (ord ! j)))) \<and>
     (\<forall>i < k. \<forall>q. within m q \<and> passage m (ord ! i) q \<longrightarrow>
        q \<in> set ord \<and> lev q \<le> Suc (lev (ord ! i)))"

lemma searched_expanded:
  "searched m st k ord lev pre \<Longrightarrow> i < k \<Longrightarrow> within m q \<Longrightarrow> passage m (ord ! i) q \<Longrightarrow>
   q \<in> set ord \<and> lev q \<le> Suc (lev (ord ! i))"
  unfolding searched_def by blast

lemma searched_parent:
  "searched m st k ord lev pre \<Longrightarrow> i < length ord \<Longrightarrow> 0 < i \<Longrightarrow>
   \<exists>j < i. pre ! idx m (ord ! i) = Some (node_of (ord ! j)) \<and>
           passage m (ord ! j) (ord ! i) \<and> lev (ord ! i) = Suc (lev (ord ! j))"
  unfolding searched_def by blast

lemma searched_marked:
  "searched m st k ord lev pre \<Longrightarrow> within m q \<Longrightarrow>
   nrow (the (pre ! idx m q)) \<noteq> -1 \<longleftrightarrow> q \<in> set ord"
  unfolding searched_def by blast

lemma searched_within: "searched m st k ord lev pre \<Longrightarrow> q \<in> set ord \<Longrightarrow> within m q"
  unfolding searched_def by blast

lemma searched_start:
  "searched m st k ord lev pre \<Longrightarrow> ord ! 0 = st \<and> ord \<noteq> [] \<and> distinct ord \<and> lev st = 0"
  unfolding searched_def by (metis hd_conv_nth)

lemma searched_levels:
  "searched m st k ord lev pre \<Longrightarrow> i \<le> j \<Longrightarrow> j < length ord \<Longrightarrow> lev (ord ! i) \<le> lev (ord ! j)"
  unfolding searched_def by (auto simp: sorted_iff_nth_mono)

text \<open>While the cell at position \<open>k\<close> is expanded, no marked cell is further than its neighbours.\<close>

definition bounded :: "nat \<Rightarrow> square list \<Rightarrow> (square \<Rightarrow> nat) \<Rightarrow> bool" where
  "bounded k ord lev \<longleftrightarrow> (\<forall>p \<in> set ord. lev p \<le> Suc (lev (ord ! k)))"

definition queued :: "maze_map \<Rightarrow> nat \<Rightarrow> square list \<Rightarrow> queue \<Rightarrow> bool" where
  "queued m k ord q \<longleftrightarrow>
     queue_inv q \<and> capacity q = nat (rows m * cols m) \<and> queue_items q = map node_of (drop k ord)"

lemma marked_card:
  assumes "searched m st k ord lev pre" and "wf_map m" and "within m p" and "p \<notin> set ord"
  shows "length ord < nat (rows m * cols m)"
proof -
  have "distinct (p # ord)" "\<forall>q \<in> set (p # ord). within m q"
    using assms by (auto simp: searched_def)
  moreover from this have "inj_on (idx m) (set (p # ord))"
    by (intro inj_onI) (metis idx_inj)
  ultimately have "distinct (map (idx m) (p # ord))"
    by (simp only: distinct_map)
  moreover have "set (map (idx m) (p # ord)) \<subseteq> {..<nat (rows m * cols m)}"
    using \<open>\<forall>q \<in> set (p # ord). within m q\<close> idx_less [OF assms(2)] by auto
  ultimately have "length (p # ord) \<le> card {..<nat (rows m * cols m)}"
    by (metis card_mono distinct_card finite_lessThan length_map)
  then show ?thesis by simp
qed

text \<open>Marking a new neighbour of the cell that is being expanded.\<close>

lemma searched_mark:
  assumes "searched m st k ord lev pre" and "wf_map m" and "k < length ord" and "bounded k ord lev"
    and "within m q" and "q \<notin> set ord" and "passage m (ord ! k) q"
  shows "searched m st k (ord @ [q]) (lev(q := Suc (lev (ord ! k)))) (pre[idx m q := Some (node_of (ord ! k))])"
    and "bounded k (ord @ [q]) (lev(q := Suc (lev (ord ! k))))"
proof -
  let ?x = "ord ! k"
  let ?lev = "lev(q := Suc (lev ?x))"
  let ?pre = "pre[idx m q := Some (node_of ?x)]"
  note inv = assms(1) [unfolded searched_def]
  have in_ord: "ord ! i \<in> set ord" "ord ! i \<noteq> q" if "i < length ord" for i
    using that assms(6) by auto
  have same_lev: "?lev (ord ! i) = lev (ord ! i)" if "i < length ord" for i
    using in_ord [OF that] by simp
  have same_map: "map ?lev ord = map lev ord"
    using assms(6) by (auto simp: map_eq_conv)
  have iq: "idx m q < length pre" using inv idx_less [OF assms(2,5)] by simp
  have entry: "?pre ! idx m p = (if p = q then Some (node_of ?x) else pre ! idx m p)"
    if "within m p" for p
    using idx_inj [OF that assms(5)] iq by (auto simp: nth_list_update)
  have "within m ?x" using inv in_ord(1) [OF assms(3)] by blast
  then have x_row: "fst ?x \<noteq> -1" by (simp add: within_def inside_def)
  show "bounded k (ord @ [q]) ?lev"
    using assms(3,4,6) same_lev [OF assms(3)] by (auto simp: bounded_def nth_append)
  show "searched m st k (ord @ [q]) ?lev ?pre"
    unfolding searched_def
  proof (intro conjI)
    show "None \<notin> set ?pre"
      using inv set_update_subset_insert [of pre "idx m q" "Some (node_of ?x)"] by auto
    show "distinct (ord @ [q])" "\<forall>p \<in> set (ord @ [q]). within m p"
      using inv assms(5,6) by auto
    show "\<forall>p. within m p \<longrightarrow> (nrow (the (?pre ! idx m p)) \<noteq> -1 \<longleftrightarrow> p \<in> set (ord @ [q]))"
      using inv x_row by (auto simp: entry)
    show "?lev st = 0"
      using inv assms(6) by (auto simp: hd_conv_nth dest: in_ord)
    show "sorted (map ?lev (ord @ [q]))"
      using inv assms(4,6) by (auto simp: sorted_append same_map bounded_def)
    show "\<forall>i < length (ord @ [q]). 0 < i \<longrightarrow>
        (\<exists>j < i. ?pre ! idx m ((ord @ [q]) ! i) = Some (node_of ((ord @ [q]) ! j)) \<and>
           passage m ((ord @ [q]) ! j) ((ord @ [q]) ! i) \<and>
           ?lev ((ord @ [q]) ! i) = Suc (?lev ((ord @ [q]) ! j)))"
    proof (intro allI impI)
      fix i
      assume i: "i < length (ord @ [q])" "0 < i"
      show "\<exists>j < i. ?pre ! idx m ((ord @ [q]) ! i) = Some (node_of ((ord @ [q]) ! j)) \<and>
           passage m ((ord @ [q]) ! j) ((ord @ [q]) ! i) \<and>
           ?lev ((ord @ [q]) ! i) = Suc (?lev ((ord @ [q]) ! j))"
      proof (cases "i = length ord")
        case True
        then show ?thesis
          using assms(3,5,7) entry [OF assms(5)] same_lev [OF assms(3)]
          by (auto simp: nth_append intro!: exI [of _ k])
      next
        case False
        with i have il: "i < length ord" by simp
        with searched_parent [OF assms(1), of i] i obtain j where j: "j < i" "pre ! idx m (ord ! i) = Some (node_of (ord ! j))"
            "passage m (ord ! j) (ord ! i)" "lev (ord ! i) = Suc (lev (ord ! j))"
          by blast
        have "within m (ord ! i)" using inv il by auto
        with j il entry [of "ord ! i"] in_ord [OF il] same_lev show ?thesis
          by (auto simp: nth_append intro!: exI [of _ j])
      qed
    qed
    show "\<forall>i < k. \<forall>p. within m p \<and> passage m ((ord @ [q]) ! i) p \<longrightarrow>
        p \<in> set (ord @ [q]) \<and> ?lev p \<le> Suc (?lev ((ord @ [q]) ! i))"
    proof (intro allI impI)
      fix i p
      assume "i < k" and p: "within m p \<and> passage m ((ord @ [q]) ! i) p"
      with assms(3) have "i < length ord" by simp
      with p have "p \<in> set ord \<and> lev p \<le> Suc (lev (ord ! i))"
        by (intro searched_expanded [OF assms(1) \<open>i < k\<close>]) (simp_all add: nth_append)
      with assms(6) \<open>i < length ord\<close> same_lev show
        "p \<in> set (ord @ [q]) \<and> ?lev p \<le> Suc (?lev ((ord @ [q]) ! i))"
        by (auto simp: nth_append)
    qed
  qed (use inv in simp_all)
qed

end
