(* ===== verification/Maze_BFS.thy ===== *)
theory Maze_BFS
  imports Maze_Search
begin

text \<open>
  The loop of the breadth-first search keeps the invariant of \<open>Maze_Search\<close>, provided that
  the cells in the row and in the column of the start have no opening to the outside
  (\<open>sealed\<close>): such an opening is not taken as an exit, and the code then reads the entry of a
  cell that does not exist.
\<close>

definition sealed :: "maze_map \<Rightarrow> square \<Rightarrow> bool" where
  "sealed m st \<longleftrightarrow>
     (\<forall>p q. within m p \<and> (fst p = fst st \<or> snd p = snd st) \<and> passage m p q \<longrightarrow> within m q)"

text \<open>What the search accepts as an exit.\<close>

definition exit_cell :: "maze_map \<Rightarrow> square \<Rightarrow> square \<Rightarrow> bool" where
  "exit_cell m st p \<longleftrightarrow>
     fst p \<noteq> fst st \<and> snd p \<noteq> snd st \<and> (\<exists>q. passage m p q \<and> \<not> within m q)"

section \<open>The tests of one node\<close>

lemma passage_iff:
  "passage m p q \<longleftrightarrow>
     open_side m (fst p) (snd p) TOP \<and> q = (fst p - 1, snd p) \<or>
     open_side m (fst p) (snd p) RIGHT \<and> q = (fst p, snd p + 1) \<or>
     open_side m (fst p) (snd p) BOTTOM \<and> q = (fst p + 1, snd p) \<or>
     open_side m (fst p) (snd p) LEFT \<and> q = (fst p, snd p - 1)"
proof
  assume "passage m p q"
  then obtain d f where d: "open_side m (fst p) (snd p) d" "go (fst p) (snd p) d = (fst q, snd q, f)"
    by (auto simp: passage_def)
  then show "open_side m (fst p) (snd p) TOP \<and> q = (fst p - 1, snd p) \<or>
     open_side m (fst p) (snd p) RIGHT \<and> q = (fst p, snd p + 1) \<or>
     open_side m (fst p) (snd p) BOTTOM \<and> q = (fst p + 1, snd p) \<or>
     open_side m (fst p) (snd p) LEFT \<and> q = (fst p, snd p - 1)"
    by (cases d) (auto simp: prod_eq_iff)
next
  assume "open_side m (fst p) (snd p) TOP \<and> q = (fst p - 1, snd p) \<or>
     open_side m (fst p) (snd p) RIGHT \<and> q = (fst p, snd p + 1) \<or>
     open_side m (fst p) (snd p) BOTTOM \<and> q = (fst p + 1, snd p) \<or>
     open_side m (fst p) (snd p) LEFT \<and> q = (fst p, snd p - 1)"
  then show "passage m p q"
    by (elim disjE) (force simp: passage_def simp del: open_side.simps intro: exI [of _ TOP] exI [of _ RIGHT]
        exI [of _ BOTTOM] exI [of _ LEFT])+
qed

lemma exit_cell_iff:
  assumes "within m p"
  shows "exit_cell m st p \<longleftrightarrow> fst p \<noteq> fst st \<and> snd p \<noteq> snd st \<and>
     (fst p = 0 \<and> open_side m (fst p) (snd p) TOP \<or>
      snd p = cols m - 1 \<and> open_side m (fst p) (snd p) RIGHT \<or>
      fst p = rows m - 1 \<and> open_side m (fst p) (snd p) BOTTOM \<or>
      snd p = 0 \<and> open_side m (fst p) (snd p) LEFT)"
proof -
  have "(\<exists>q. passage m p q \<and> \<not> within m q) \<longleftrightarrow>
     open_side m (fst p) (snd p) TOP \<and> \<not> within m (fst p - 1, snd p) \<or>
     open_side m (fst p) (snd p) RIGHT \<and> \<not> within m (fst p, snd p + 1) \<or>
     open_side m (fst p) (snd p) BOTTOM \<and> \<not> within m (fst p + 1, snd p) \<or>
     open_side m (fst p) (snd p) LEFT \<and> \<not> within m (fst p, snd p - 1)"
    unfolding passage_iff by blast
  moreover have "\<not> within m (fst p - 1, snd p) \<longleftrightarrow> fst p = 0"
    and "\<not> within m (fst p, snd p + 1) \<longleftrightarrow> snd p = cols m - 1"
    and "\<not> within m (fst p + 1, snd p) \<longleftrightarrow> fst p = rows m - 1"
    and "\<not> within m (fst p, snd p - 1) \<longleftrightarrow> snd p = 0"
    using assms by (auto simp: within_def inside_def)
  ultimately show ?thesis unfolding exit_cell_def by (simp only: conj_commute)
qed

lemma free_narrow:
  assumes "free m r c cond w = ret b"
  shows "free m r c (e \<and> cond) w = ret (e \<and> b)"
  using assms by (cases e) (simp_all add: free_def)

lemma bfs_exit_cell:
  assumes "octal_map m" and "within m p"
  shows "bfs_exit m (node_of p) (node_of st) = ret (exit_cell m st p)"
proof -
  have in_m: "inside m (fst p) (snd p)" using assms(2) by (simp add: within_def)
  note free = free_open [OF assms(1) in_m]
  have narrow: "free m (fst p) (snd p) e w = ret (e \<and> b)"
    if "free m (fst p) (snd p) True w = ret b" for e w b
    using free_narrow [OF that, of e] by simp
  show ?thesis
    unfolding bfs_exit_def exit_side_def exit_cell_iff [OF assms(2)] node_of_sel
      free_narrow [OF free(1)] free_narrow [OF free(2)] narrow [OF free(3)] narrow [OF free(4)]
    by (auto simp del: open_side.simps)
qed

lemma bfs_warn_quiet:
  assumes "octal_map m" and "within m p"
  shows "bfs_warn m (node_of p) = ret ()"
proof -
  have in_m: "inside m (fst p) (snd p)" using assms(2) by (simp add: within_def)
  show ?thesis
    by (simp add: bfs_warn_def wf_get_cell [OF octal_map_wf [OF assms(1)] in_m]
        dec_to_bin_octal [OF octal_cell [OF assms(1) in_m]])
qed

section \<open>Expanding a node\<close>

definition expanding ::
  "maze_map \<Rightarrow> square \<Rightarrow> nat \<Rightarrow> square list \<Rightarrow> (square \<Rightarrow> nat) \<Rightarrow> queue \<times> pre_nodes \<Rightarrow> bool" where
  "expanding m st k ord lev qp \<longleftrightarrow>
     searched m st k ord lev (snd qp) \<and> k < length ord \<and> bounded k ord lev \<and>
     queued m (Suc k) ord (fst qp)"

lemma queue_room:
  assumes "expanding m st k ord lev qp" and "wf_map m" and "within m q" and "q \<notin> set ord"
  shows "\<exists>q'. enqueue (fst qp) (node_of q) = ret q' \<and> queued m (Suc k) (ord @ [q]) q'"
proof -
  from assms(1) have inv: "queue_inv (fst qp)" "capacity (fst qp) = nat (rows m * cols m)"
      "queue_items (fst qp) = map node_of (drop (Suc k) ord)" "k < length ord"
    by (auto simp: expanding_def queued_def)
  have "length ord < nat (rows m * cols m)"
    using marked_card [of m st k ord lev "snd qp" q] assms by (simp add: expanding_def)
  then have "length (queue_items (fst qp)) < capacity (fst qp)"
    using inv by simp
  from ring.enq_law [OF inv(1) this, of "node_of q"] show ?thesis
    using inv by (auto simp: queued_def)
qed

text \<open>One of the four tests marks the neighbour on its side, if that side is open.\<close>

lemma bfs_edge_step:
  assumes "expanding m st k ord lev qp" and "wf_map m"
    and "free m (fst (ord ! k)) (snd (ord ! k)) cond w = ret b"
    and "b \<Longrightarrow> within m (r, c) \<and> passage m (ord ! k) (r, c)"
  shows "\<exists>ext lev' qp'. bfs_edge m (node_of (ord ! k)) cond w r c qp = ret qp' \<and>
           expanding m st k (ord @ ext) lev' qp' \<and> (b \<longrightarrow> (r, c) \<in> set (ord @ ext))"
proof (cases b)
  case False
  then show ?thesis
    using assms(1,3) by (intro exI [of _ "[]"] exI [of _ lev] exI [of _ qp]) (simp add: bfs_edge_def)
next
  case True
  obtain q pre where qp: "qp = (q, pre)" by (cases qp)
  let ?i = "idx m (r, c)"
  note target = assms(4) [OF True]
  have srch: "searched m st k ord lev pre" and k: "k < length ord" and bnd: "bounded k ord lev"
    using assms(1) by (auto simp: expanding_def qp)
  have len: "length pre = nat (rows m * cols m)" and init: "None \<notin> set pre"
    using srch by (auto simp: searched_def)
  have i: "?i < length pre" using idx_less [OF assms(2)] target len by simp
  moreover have "pre ! ?i \<noteq> None" using init i by (metis nth_mem)
  ultimately obtain e where e: "pre ! ?i = Some e" by auto
  have pos: "0 \<le> r * cols m + c" "r * cols m + c < int (length pre)"
    using within_bounds [of m "(r, c)"] target i by (auto simp: idx_def)
  have get: "arr_get pre (r * cols m + c) = (ret e :: node maze_io)"
    using e pos by (simp add: idx_def)
  show ?thesis
  proof (cases "(r, c) \<in> set ord")
    case True
    then have "nrow e \<noteq> -1" using searched_marked [OF srch, of "(r, c)"] target e by simp
    then show ?thesis
      using assms(1,3) True get
      by (intro exI [of _ "[]"] exI [of _ lev] exI [of _ qp]) (simp add: bfs_edge_def qp)
  next
    case False
    then have "nrow e = -1" using searched_marked [OF srch, of "(r, c)"] target e by simp
    moreover obtain q' where q': "enqueue q (node_of (r, c)) = ret q'" "queued m (Suc k) (ord @ [(r, c)]) q'"
      using queue_room [OF assms(1,2) _ False] target by (auto simp: qp)
    moreover have "node_of (r, c) = node_ctor r c" by (simp add: node_of_def)
    ultimately have "bfs_edge m (node_of (ord ! k)) cond w r c qp =
        ret (q', pre[?i := Some (node_of (ord ! k))])"
      using assms(3) \<open>b\<close> get pos by (simp add: bfs_edge_def qp idx_def)
    moreover have "expanding m st k (ord @ [(r, c)]) (lev((r, c) := Suc (lev (ord ! k))))
        (q', pre[?i := Some (node_of (ord ! k))])"
      using searched_mark [OF srch assms(2) k bnd _ False] target q'(2) k
      by (simp add: expanding_def nth_append)
    ultimately show ?thesis by (intro exI [of _ "[(r, c)]"] exI conjI) auto
  qed
qed

lemma bfs_expand_step:
  assumes "expanding m st k ord lev qp" and "octal_map m"
    and "\<And>q. passage m (ord ! k) q \<Longrightarrow> within m q"
  shows "\<exists>ext lev' qp'. bfs_expand m (node_of (ord ! k)) qp = ret qp' \<and>
           expanding m st k (ord @ ext) lev' qp' \<and>
           (\<forall>q. passage m (ord ! k) q \<longrightarrow> q \<in> set (ord @ ext))"
proof -
  let ?x = "ord ! k" and ?wf = "octal_map_wf [OF assms(2)]"
  have k: "k < length ord" using assms(1) by (simp add: expanding_def)
  have x: "(ord @ ext) ! k = ?x" for ext using k by (simp add: nth_append)
  have "within m ?x" using assms(1) k by (auto simp: expanding_def intro: searched_within)
  then have in_m: "inside m (fst ?x) (snd ?x)" by (simp add: within_def)
  note free = free_open [OF assms(2) in_m]
  from bfs_edge_step [OF assms(1) octal_map_wf [OF assms(2)] free(1), of "fst ?x - 1" "snd ?x"] assms(3)
  obtain e1 l1 s1 where 1: "bfs_edge m (node_of ?x) (has_top_wall (fst ?x) (snd ?x)) TOP_WALL
        (fst ?x - 1) (snd ?x) qp = ret s1" "expanding m st k (ord @ e1) l1 s1"
      "open_side m (fst ?x) (snd ?x) TOP \<longrightarrow> (fst ?x - 1, snd ?x) \<in> set (ord @ e1)"
    by (auto simp: passage_iff simp del: open_side.simps)
  from bfs_edge_step [OF 1(2) octal_map_wf [OF assms(2)], unfolded x, OF free(4), of "fst ?x" "snd ?x + 1"] assms(3)
  obtain e2 l2 s2 where 2: "bfs_edge m (node_of ?x) True RIGHT_WALL (fst ?x) (snd ?x + 1) s1 = ret s2"
      "expanding m st k ((ord @ e1) @ e2) l2 s2"
      "open_side m (fst ?x) (snd ?x) RIGHT \<longrightarrow> (fst ?x, snd ?x + 1) \<in> set ((ord @ e1) @ e2)"
    by (auto simp: passage_iff simp del: open_side.simps append_assoc)
  from bfs_edge_step [OF 2(2) octal_map_wf [OF assms(2)], unfolded append_assoc x, OF free(2),
      of "fst ?x + 1" "snd ?x"] assms(3)
  obtain e3 l3 s3 where 3: "bfs_edge m (node_of ?x) (\<not> has_top_wall (fst ?x) (snd ?x)) BOTTOM_WALL
        (fst ?x + 1) (snd ?x) s2 = ret s3" "expanding m st k (ord @ e1 @ e2 @ e3) l3 s3"
      "open_side m (fst ?x) (snd ?x) BOTTOM \<longrightarrow> (fst ?x + 1, snd ?x) \<in> set (ord @ e1 @ e2 @ e3)"
    by (auto simp: passage_iff simp del: open_side.simps)
  from bfs_edge_step [OF 3(2) octal_map_wf [OF assms(2)], unfolded append_assoc x, OF free(3),
      of "fst ?x" "snd ?x - 1"] assms(3)
  obtain e4 l4 s4 where 4: "bfs_edge m (node_of ?x) True LEFT_WALL (fst ?x) (snd ?x - 1) s3 = ret s4"
      "expanding m st k (ord @ e1 @ e2 @ e3 @ e4) l4 s4"
      "open_side m (fst ?x) (snd ?x) LEFT \<longrightarrow> (fst ?x, snd ?x - 1) \<in> set (ord @ e1 @ e2 @ e3 @ e4)"
    by (auto simp: passage_iff simp del: open_side.simps)
  have "bfs_expand m (node_of ?x) qp = ret s4"
    using 1(1) 2(1) 3(1) 4(1) by (simp add: bfs_expand_def Let_def)
  moreover have "\<forall>q. passage m ?x q \<longrightarrow> q \<in> set (ord @ e1 @ e2 @ e3 @ e4)"
    using 1(3) 2(3) 3(3) 4(3) unfolding passage_iff by auto
  ultimately show ?thesis using 4(2) by blast
qed

end
