(* ===== verification/Maze_Nearest.thy ===== *)
theory Maze_Nearest
  imports Maze_BFS
begin

text \<open>
  The result of the breadth-first search of \<open>maze.c\<close>: the loop stops at a nearest exit, or
  has visited every cell that can be reached; the array of previous nodes then holds a path
  back to the start, which is what the program prints.
\<close>

section \<open>The loop\<close>

lemma searched_card:
  assumes "searched m st k ord lev pre" and "wf_map m"
  shows "length ord \<le> nat (rows m * cols m)"
proof -
  have "distinct ord" "\<forall>q \<in> set ord. within m q" using assms by (auto simp: searched_def)
  moreover from this have "inj_on (idx m) (set ord)"
    by (intro inj_onI) (metis idx_inj)
  ultimately have "distinct (map (idx m) ord)" by (simp only: distinct_map)
  moreover have "set (map (idx m) ord) \<subseteq> {..<nat (rows m * cols m)}"
    using \<open>\<forall>q \<in> set ord. within m q\<close> idx_less [OF assms(2)] by auto
  ultimately have "length ord \<le> card {..<nat (rows m * cols m)}"
    by (metis card_mono distinct_card finite_lessThan length_map)
  then show ?thesis by simp
qed

text \<open>A node whose neighbours have all been marked is done.\<close>

lemma searched_next:
  assumes "searched m st k ord lev pre" and "k < length ord" and "bounded k ord lev"
    and "\<forall>q. passage m (ord ! k) q \<longrightarrow> q \<in> set ord"
  shows "searched m st (Suc k) ord lev pre"
    and "Suc k < length ord \<Longrightarrow> bounded (Suc k) ord lev"
proof -
  have "\<forall>i < Suc k. \<forall>q. within m q \<and> passage m (ord ! i) q \<longrightarrow>
      q \<in> set ord \<and> lev q \<le> Suc (lev (ord ! i))"
    using assms searched_expanded [OF assms(1)] by (auto simp: less_Suc_eq bounded_def)
  with assms(1) show "searched m st (Suc k) ord lev pre" unfolding searched_def by blast
  assume "Suc k < length ord"
  with searched_levels [OF assms(1), of k "Suc k"] have "lev (ord ! k) \<le> lev (ord ! Suc k)" by simp
  with assms(3) show "bounded (Suc k) ord lev" by (fastforce simp: bounded_def)
qed

text \<open>What holds before each iteration.\<close>

definition looping ::
  "maze_map \<Rightarrow> square \<Rightarrow> nat \<Rightarrow> square list \<Rightarrow> (square \<Rightarrow> nat) \<Rightarrow> node option \<Rightarrow> queue \<times> pre_nodes \<Rightarrow> bool"
where
  "looping m st k ord lev cur qp \<longleftrightarrow>
     searched m st k ord lev (snd qp) \<and> k \<le> length ord \<and> queued m k ord (fst qp) \<and>
     (k < length ord \<longrightarrow> bounded k ord lev) \<and> (\<forall>i < k. \<not> exit_cell m st (ord ! i)) \<and>
     (0 < k \<longrightarrow> cur = Some (node_of (ord ! (k - 1))))"

text \<open>What holds after the loop, which ended at the node at position \<open>k\<close>.\<close>

definition ended ::
  "maze_map \<Rightarrow> square \<Rightarrow> nat \<Rightarrow> square list \<Rightarrow> (square \<Rightarrow> nat) \<Rightarrow> pre_nodes \<Rightarrow> bool"
where
  "ended m st k ord lev pre \<longleftrightarrow>
     k < length ord \<and> (\<forall>i < k. \<not> exit_cell m st (ord ! i)) \<and>
     searched m st (if exit_cell m st (ord ! k) then k else Suc k) ord lev pre \<and>
     (exit_cell m st (ord ! k) \<or> Suc k = length ord)"

lemma inner_passages:
  assumes "sealed m st" and "within m p" and "\<not> exit_cell m st p" and "passage m p q"
  shows "within m q"
  using assms unfolding sealed_def exit_cell_def by blast

lemma looping_dequeue:
  assumes "looping m st k ord lev cur qp" and "k < length ord"
  shows "\<exists>q'. dequeue (fst qp) = ret (node_of (ord ! k), q') \<and>
           expanding m st k ord lev (q', snd qp) \<and> \<not> q_is_empty (fst qp)"
proof -
  have drop: "drop k ord = ord ! k # drop (Suc k) ord"
    using assms(2) by (simp add: Cons_nth_drop_Suc)
  have q: "queue_inv (fst qp)" "capacity (fst qp) = nat (rows m * cols m)"
      "queue_items (fst qp) = node_of (ord ! k) # map node_of (drop (Suc k) ord)"
    using assms drop by (auto simp: looping_def queued_def)
  from ring.deq_law [OF q(1,3)] ring.emp_law [OF q(1)] show ?thesis
    using assms q by (auto simp: expanding_def queued_def looping_def)
qed

lemma looping_done:
  assumes "looping m st (length ord) ord lev cur qp"
  shows "bfs_loop m (node_of st) cur qp = ret (Some (node_of (ord ! (length ord - 1))), snd qp)"
    and "ended m st (length ord - 1) ord lev (snd qp)"
proof -
  have "searched m st (length ord) ord lev (snd qp)" using assms by (simp add: looping_def)
  then have ne: "ord \<noteq> []" by (simp add: searched_def)
  have "queue_inv (fst qp)" "queue_items (fst qp) = []"
    using assms by (simp_all add: looping_def queued_def)
  then have "q_is_empty (fst qp)" using ring.emp_law by blast
  with assms ne show "bfs_loop m (node_of st) cur qp = ret (Some (node_of (ord ! (length ord - 1))), snd qp)"
    by (simp add: bfs_loop.simps looping_def)
  show "ended m st (length ord - 1) ord lev (snd qp)"
    using assms ne by (simp add: looping_def ended_def)
qed

lemma bfs_loop_ends:
  assumes "looping m st k ord lev cur qp" and "octal_map m" and "sealed m st"
  shows "\<exists>k' ord' lev' pre'. bfs_loop m (node_of st) cur qp = ret (Some (node_of (ord' ! k')), pre') \<and>
           ended m st k' ord' lev' pre'"
  using assms(1)
proof (induction "nat (rows m * cols m) - k" arbitrary: k ord lev cur qp)
  case (0 k ord lev cur qp)
  note wf = octal_map_wf [OF assms(2)]
  have "searched m st k ord lev (snd qp)" using 0 by (simp add: looping_def)
  from searched_card [OF this wf] 0 have "length ord \<le> k" by simp
  with 0 have "k = length ord" by (simp add: looping_def)
  with looping_done [of m st ord lev cur qp] 0 show ?case by blast
next
  case (Suc n k ord lev cur qp)
  note wf = octal_map_wf [OF assms(2)]
  show ?case
  proof (cases "k < length ord")
    case False
    with Suc have "k = length ord" by (simp add: looping_def)
    with looping_done [of m st ord lev cur qp] Suc.prems show ?thesis by blast
  next
    case True
    let ?x = "ord ! k"
    from looping_dequeue [OF Suc.prems True] obtain q' where q': "dequeue (fst qp) = ret (node_of ?x, q')"
        "expanding m st k ord lev (q', snd qp)" "\<not> q_is_empty (fst qp)"
      by blast
    have x: "within m ?x"
      using Suc.prems True by (auto simp: looping_def intro: searched_within)
    have run: "bfs_loop m (node_of st) cur qp =
        (if exit_cell m st ?x then ret (Some (node_of ?x), snd qp)
         else bind_io (bfs_expand m (node_of ?x) (q', snd qp)) (bfs_loop m (node_of st) (Some (node_of ?x))))"
      using q' x by (subst bfs_loop.simps)
        (simp add: outside_node bfs_exit_cell [OF assms(2) x] bfs_warn_quiet [OF assms(2) x])
    show ?thesis
    proof (cases "exit_cell m st ?x")
      case True
      then show ?thesis
        using run Suc.prems \<open>k < length ord\<close>
        by (intro exI [of _ k] exI [of _ ord] exI [of _ lev] exI [of _ "snd qp"])
          (simp add: looping_def ended_def)
    next
      case False
      from bfs_expand_step [OF q'(2) assms(2) inner_passages [OF assms(3) x False]]
      obtain ext lev' qp' where e: "bfs_expand m (node_of ?x) (q', snd qp) = ret qp'"
          "expanding m st k (ord @ ext) lev' qp'" "\<forall>q. passage m ?x q \<longrightarrow> q \<in> set (ord @ ext)"
        by blast
      have x': "(ord @ ext) ! i = ord ! i" if "i \<le> k" for i
        using that True \<open>k < length ord\<close> by (simp add: nth_append)
      have "looping m st (Suc k) (ord @ ext) lev' (Some (node_of ?x)) qp'"
        using e(2,3) searched_next [of m st k "ord @ ext" lev' "snd qp'"] False Suc.prems x'
        by (auto simp: looping_def expanding_def less_Suc_eq)
      from Suc.hyps(1) [OF _ this] Suc.hyps(2) run False e(1) show ?thesis by simp
    qed
  qed
qed

section \<open>Nearest\<close>

definition open_path :: "maze_map \<Rightarrow> square list \<Rightarrow> bool" where
  "open_path m ps \<longleftrightarrow>
     ps \<noteq> [] \<and> (\<forall>p \<in> set ps. within m p) \<and> successively (passage m) ps"

lemma open_path_snoc:
  "ps \<noteq> [] \<Longrightarrow> open_path m (ps @ [q]) \<longleftrightarrow> open_path m ps \<and> within m q \<and> passage m (List.last ps) q"
  by (auto simp: open_path_def successively_append_iff)

text \<open>
  Along an open path of \<open>n\<close> steps, either the end is marked with a level of at most \<open>n\<close>, or
  a marked cell that has not been expanded is closer.
\<close>

lemma path_level:
  assumes "searched m st k ord lev pre" and "open_path m ps" and "hd ps = st"
  shows "List.last ps \<in> set ord \<and> lev (List.last ps) < length ps \<or>
         (\<exists>i < length ord. k \<le> i \<and> Suc (lev (ord ! i)) < length ps)"
  using assms(2,3)
proof (induction ps rule: rev_induct)
  case Nil
  then show ?case by (simp add: open_path_def)
next
  case (snoc q ps)
  show ?case
  proof (cases "ps = []")
    case True
    with snoc assms(1) show ?thesis by (auto simp: searched_def)
  next
    case False
    with snoc have ps: "open_path m ps" "hd ps = st" "within m q" "passage m (List.last ps) q"
      by (simp_all add: open_path_snoc)
    from snoc.IH [OF ps(1,2)] show ?thesis
    proof
      assume p: "List.last ps \<in> set ord \<and> lev (List.last ps) < length ps"
      then obtain i where i: "i < length ord" "ord ! i = List.last ps" by (auto simp: in_set_conv_nth)
      show ?thesis
      proof (cases "i < k")
        case True
        from searched_expanded [OF assms(1) this ps(3)] ps(4) i p show ?thesis by auto
      next
        case False
        with i p show ?thesis by (intro disjI2 exI [of _ i]) simp
      qed
    next
      assume "\<exists>i < length ord. k \<le> i \<and> Suc (lev (ord ! i)) < length ps"
      then show ?thesis by auto
    qed
  qed
qed

lemma ended_nearest:
  assumes "ended m st k ord lev pre" and "open_path m ps" and "hd ps = st"
    and "exit_cell m st (List.last ps)"
  shows "exit_cell m st (ord ! k) \<and> lev (ord ! k) < length ps"
proof -
  let ?kk = "if exit_cell m st (ord ! k) then k else Suc k"
  have srch: "searched m st ?kk ord lev pre" and before: "\<forall>i < k. \<not> exit_cell m st (ord ! i)"
    and k: "k < length ord" and fin: "exit_cell m st (ord ! k) \<or> Suc k = length ord"
    using assms(1) by (simp_all add: ended_def)
  have unmarked: "k \<le> i" if "i < length ord" "ord ! i = List.last ps" for i
    using that before assms(4) by (metis linorder_not_less)
  have up: "lev (ord ! k) \<le> lev (ord ! i)" if "k \<le> i" "i < length ord" for i
    using searched_levels [OF srch that] .
  from path_level [OF srch assms(2,3)] show ?thesis
  proof
    assume p: "List.last ps \<in> set ord \<and> lev (List.last ps) < length ps"
    then obtain i where i: "i < length ord" "ord ! i = List.last ps" by (auto simp: in_set_conv_nth)
    from unmarked [OF this] have "k \<le> i" .
    moreover from this have "exit_cell m st (ord ! k)"
      using fin i assms(4) by (metis Suc_leI le_antisym linorder_not_less not_less_eq_eq)
    ultimately show ?thesis using up [of i] i p by auto
  next
    assume "\<exists>i < length ord. ?kk \<le> i \<and> Suc (lev (ord ! i)) < length ps"
    then obtain i where i: "i < length ord" "?kk \<le> i" "Suc (lev (ord ! i)) < length ps" by blast
    then have "exit_cell m st (ord ! k)" using fin by (auto split: if_splits)
    with i up [of i] show ?thesis by auto
  qed
qed

end
