(* ===== verification/Maze_Path.thy ===== *)
theory Maze_Path
  imports Maze_Nearest Maze_Sample
begin

text \<open>
  The end of the search of \<open>maze.c\<close>: the walk back along \<open>pre_nodes\<close>, the printed
  coordinates, and the theorem about \<open>solve_shortest\<close> as a whole.
\<close>

section \<open>The walk back\<close>

definition coord :: "square \<Rightarrow> maze_event" where
  "coord p = Coord (fst p + 1) (snd p + 1)"

lemma level_le:
  assumes "searched m st k ord lev pre" and "i < length ord"
  shows "lev (ord ! i) \<le> i"
  using assms(2)
proof (induction i rule: less_induct)
  case (less i)
  show ?case
  proof (cases "i = 0")
    case True
    then show ?thesis using searched_start [OF assms(1)] by simp
  next
    case False
    with searched_parent [OF assms(1) less.prems] obtain j where "j < i" "lev (ord ! i) = Suc (lev (ord ! j))"
      by auto
    with less.IH [of j] less.prems show ?thesis by simp
  qed
qed

lemma pre_entry:
  assumes "searched m st k ord lev pre" and "wf_map m" and "within m p"
    and "pre ! idx m p = Some n"
  shows "arr_get pre (fst p * cols m + snd p) = ret n"
proof -
  have "length pre = nat (rows m * cols m)" using assms(1) by (simp add: searched_def)
  with within_bounds [OF assms(3)] assms(4) show ?thesis by (simp add: idx_def)
qed

text \<open>The cells from position \<open>i\<close> back to the start, as \<open>back_path\<close> writes them.\<close>

definition trace ::
  "maze_map \<Rightarrow> square \<Rightarrow> pre_nodes \<Rightarrow> square \<Rightarrow> square list \<Rightarrow> bool" where
  "trace m st pre p ps \<longleftrightarrow>
     hd ps = p \<and> List.last ps = st \<and> open_path m (rev ps) \<and>
     (\<forall>arr n. n + length ps \<le> length arr \<longrightarrow>
        back_path m (node_of st) (node_of p) pre arr (int n) =
          ret (take n arr @ map (\<lambda>p. Some (node_of p)) ps @ drop (n + length ps) arr,
               int (n + length ps) - 1))"

lemma trace_run:
  "trace m st pre p ps \<Longrightarrow> n + length ps \<le> length arr \<Longrightarrow>
   back_path m (node_of st) (node_of p) pre arr (int n) =
     ret (take n arr @ map (\<lambda>p. Some (node_of p)) ps @ drop (n + length ps) arr,
          int (n + length ps) - 1)"
  unfolding trace_def by blast

lemma trace_start:
  assumes "within m st"
  shows "trace m st pre st [st]"
  using assms by (auto simp: trace_def open_path_def back_path.simps upd_conv_take_nth_drop)

lemma trace_step:
  assumes "trace m st pre q ps" and "arr_get pre (fst p * cols m + snd p) = (ret (node_of q) :: node maze_io)"
    and "p \<noteq> st" and "within m p" and "passage m q p"
  shows "trace m st pre p (p # ps)"
proof -
  have ps: "ps \<noteq> []" "hd ps = q" "List.last ps = st" "open_path m (rev ps)"
    using assms(1) by (auto simp: trace_def open_path_def)
  have "back_path m (node_of st) (node_of p) pre arr (int n) =
      ret (take n arr @ map (\<lambda>p. Some (node_of p)) (p # ps) @ drop (n + length (p # ps)) arr,
           int (n + length (p # ps)) - 1)"
    if n: "n + length (p # ps) \<le> length arr" for arr n
  proof -
    let ?arr = "arr[n := Some (node_of p)]"
    have "back_path m (node_of st) (node_of p) pre arr (int n) =
        back_path m (node_of st) (node_of q) pre ?arr (int (Suc n))"
      using n assms(3) by (subst back_path.simps) (simp add: assms(2) prod_eq_iff add.commute [of 1])
    also have "\<dots> = ret (take (Suc n) ?arr @ map (\<lambda>p. Some (node_of p)) ps @ drop (Suc n + length ps) ?arr,
           int (Suc n + length ps) - 1)"
      using n by (intro trace_run [OF assms(1)]) simp
    also have "take (Suc n) ?arr = take n arr @ [Some (node_of p)]"
      using n by (simp add: take_Suc_conv_app_nth)
    finally show ?thesis by simp
  qed
  then show ?thesis
    using ps assms(4,5) open_path_snoc [of "rev ps" m p] by (simp add: trace_def last_rev)
qed

lemma trace_exists:
  assumes "searched m st k ord lev pre" and "wf_map m" and "i < length ord"
  shows "\<exists>ps. trace m st pre (ord ! i) ps \<and> length ps = Suc (lev (ord ! i))"
  using assms(3)
proof (induction i rule: less_induct)
  case (less i)
  have st: "ord ! 0 = st" "distinct ord" "lev st = 0" "ord \<noteq> []"
    using searched_start [OF assms(1)] by auto
  have w: "within m (ord ! i)" using searched_within [OF assms(1)] less.prems by simp
  show ?case
  proof (cases "i = 0")
    case True
    with w st trace_start [of m st pre] show ?thesis by auto
  next
    case False
    with searched_parent [OF assms(1) less.prems] obtain j where j: "j < i" "pre ! idx m (ord ! i) = Some (node_of (ord ! j))"
      "passage m (ord ! j) (ord ! i)" "lev (ord ! i) = Suc (lev (ord ! j))"
      by auto
    from less.IH [OF j(1)] j(1) less.prems obtain ps where ps: "trace m st pre (ord ! j) ps"
        "length ps = Suc (lev (ord ! j))"
      by auto
    have "ord ! i \<noteq> st" using False st less.prems by (metis length_greater_0_conv nth_eq_iff_index_eq)
    with trace_step [OF ps(1) pre_entry [OF assms(1,2) w j(2)] _ w j(3)] ps(2) j(4) show ?thesis by auto
  qed
qed

lemma print_path_events:
  assumes "\<forall>i \<in> set is. 0 \<le> i \<and> i < int (length arr) \<and> arr ! nat i = Some (node_of (f i))"
  shows "print_path arr is = (Inr (), map (\<lambda>i. coord (f i)) is)"
  using assms by (induction "is") (auto simp: ret_def io_simps coord_def)

lemma print_path_rev:
  assumes "\<forall>i < length ps. arr ! i = Some (node_of (ps ! i))" and "length ps \<le> length arr" and "ps \<noteq> []"
  shows "print_path arr (rev [0..int (length ps) - 1]) = (Inr (), map coord (rev ps))"
proof -
  have "print_path arr (rev [0..int (length ps) - 1]) =
      (Inr (), map (\<lambda>i. coord (ps ! nat i)) (rev [0..int (length ps) - 1]))"
    using assms by (intro print_path_events) auto
  also have "map (\<lambda>i. coord (ps ! nat i)) (rev [0..int (length ps) - 1]) = map coord (rev ps)"
    unfolding upto_int by (simp flip: rev_map) (rule nth_equalityI, simp_all)
  finally show ?thesis .
qed

section \<open>The whole search\<close>

lemma looping_start:
  assumes "wf_map m" and "within m st" and "in_int (rows m * cols m)"
  shows "\<exists>q. enqueue (q_ctor (nat (rows m * cols m))) (node_of st) = ret q \<and>
     looping m st 0 [st] (\<lambda>_. 0) None
       (q, (replicate (nat (rows m * cols m)) (Some (node_ctor (-1) (-1))))
             [idx m st := Some (node_of st)])"
proof -
  let ?n = "nat (rows m * cols m)"
  have i: "idx m st < ?n" using idx_less [OF assms(1,2)] .
  then have "0 < ?n" by simp
  from ring.enq_law [OF q_ctor_inv [OF this], of "node_of st"] this
  obtain q where q: "enqueue (q_ctor ?n) (node_of st) = ret q" "queue_inv q" "queue_items q = [node_of st]"
      "capacity q = ?n"
    by auto
  have row: "fst st \<noteq> -1" using assms(2) by (simp add: within_def inside_def)
  have entry: "(replicate ?n (Some (node_ctor (-1) (-1))))[idx m st := Some (node_of st)] ! idx m p =
      (if p = st then Some (node_of st) else Some (node_ctor (-1) (-1)))" if "within m p" for p
    using idx_inj [OF that assms(2)] idx_less [OF assms(1) that] i by (auto simp: nth_list_update)
  have "searched m st 0 [st] (\<lambda>_. 0) ((replicate ?n (Some (node_ctor (-1) (-1))))[idx m st := Some (node_of st)])"
    unfolding searched_def using assms(2) row entry i
    by (auto dest: subsetD [OF set_update_subset_insert])
  with q show ?thesis by (auto simp: looping_def queued_def bounded_def)
qed

lemma shortest_path:
  assumes "octal_map m" and "within m st" and "sealed m st"
  shows "\<exists>ps. solve_shortest m (fst st) (snd st) = (Inr (), map coord ps) \<and>
           open_path m ps \<and> hd ps = st \<and>
           (\<forall>qs. open_path m qs \<and> hd qs = st \<and> exit_cell m st (List.last qs) \<longrightarrow>
              exit_cell m st (List.last ps) \<and> length ps \<le> length qs)"
proof -
  let ?n = "nat (rows m * cols m)"
  note wf = octal_map_wf [OF assms(1)]
  have int: "in_int (rows m * cols m)" using wf by (simp add: wf_map_def)
  from looping_start [OF wf assms(2) int]
  obtain q where q: "enqueue (q_ctor ?n) (node_of st) = ret q"
      "looping m st 0 [st] (\<lambda>_. 0) None
         (q, (replicate ?n (Some (node_ctor (-1) (-1))))[idx m st := Some (node_of st)])"
    by blast
  from bfs_loop_ends [OF q(2) assms(1,3)] obtain k ord lev pre where
    loop: "bfs_loop m (node_of st) None
         (q, (replicate ?n (Some (node_ctor (-1) (-1))))[idx m st := Some (node_of st)]) =
       ret (Some (node_of (ord ! k)), pre)" and fin: "ended m st k ord lev pre"
    by blast
  then obtain kk where srch: "searched m st kk ord lev pre" and k: "k < length ord"
    by (auto simp: ended_def)
  from trace_exists [OF srch wf k] obtain ps where ps: "trace m st pre (ord ! k) ps"
      "length ps = Suc (lev (ord ! k))"
    by blast
  have room: "length ps \<le> ?n"
    using searched_card [OF srch wf] level_le [OF srch k] ps(2) k by simp
  let ?arr = "map (\<lambda>p. Some (node_of p)) ps @ drop (length ps) (replicate ?n None)"
  have walked: "back_path m (node_of st) (node_of (ord ! k)) pre (replicate ?n None) 0 =
      ret (?arr, int (length ps) - 1)"
    using trace_run [OF ps(1), of 0 "replicate ?n None"] room by simp
  have printed: "print_path ?arr (rev [0..int (length ps) - 1]) = (Inr (), map coord (rev ps))"
    using ps(2) room by (intro print_path_rev) (auto simp: nth_append)
  have node: "node_ctor (fst st) (snd st) = node_of st" by (simp add: node_of_def)
  have "solve_shortest m (fst st) (snd st) = (Inr (), map coord (rev ps))"
    using q(1) loop walked printed int within_bounds [OF assms(2)]
    by (simp add: solve_shortest_def Let_def idx_def node)
  moreover have "open_path m (rev ps)" "hd (rev ps) = st" "List.last (rev ps) = ord ! k"
    using ps(1) by (auto simp: trace_def hd_rev last_rev)
  ultimately show ?thesis
    using ended_nearest [OF fin] ps(2) by (intro exI [of _ "rev ps"]) (auto simp: Suc_le_eq)
qed

text \<open>Starting below an opening in the top border, the first test reads before the array.\<close>

lemma start_below_opening:
  assumes "octal_map m" and "within m (0, c)" and "open_side m 0 c TOP"
  shows "solve_shortest m 0 c = stop (Fault OutOfBounds)"
proof -
  let ?n = "nat (rows m * cols m)" and ?st = "(0, c)"
  let ?pre = "(replicate ?n (Some (node_ctor (-1) (-1))))[idx m ?st := Some (node_of ?st)]"
  note wf = octal_map_wf [OF assms(1)]
  have len: "in_int (rows m * cols m)" using wf by (simp add: wf_map_def)
  have in_m: "inside m 0 c" using assms(2) by (simp add: within_def)
  from looping_start [OF wf assms(2) len]
  obtain q where q: "enqueue (q_ctor ?n) (node_of ?st) = ret q"
      "looping m ?st 0 [?st] (\<lambda>_. 0) None (q, ?pre)"
    by auto
  from looping_dequeue [OF q(2)] obtain q' where q': "dequeue q = ret (node_of ?st, q')" "\<not> q_is_empty q"
    by auto
  have no_exit: "\<not> exit_cell m ?st ?st" by (simp add: exit_cell_def)
  have "c - cols m < 0" using in_m by (simp add: inside_def)
  then have "bfs_expand m (node_of ?st) (q', ?pre) = stop (Fault OutOfBounds)"
    using free_open(1) [OF assms(1) in_m] assms(3)
    by (simp add: bfs_expand_def bfs_edge_def Let_def del: open_side.simps)
  then have "bfs_loop m (node_of ?st) None (q, ?pre) = stop (Fault OutOfBounds)"
    using q' assms(2) by (subst bfs_loop.simps)
      (simp add: outside_node bfs_exit_cell [OF assms(1,2)] bfs_warn_quiet [OF assms(1,2)] no_exit)
  then show ?thesis
    using q(1) len within_bounds [OF assms(2)]
    by (simp add: solve_shortest_def Let_def idx_def node_of_def)
qed

section \<open>The claims\<close>

lemma sealed_map_sealed: "sealed sealed_map (0, 0)" and sealed_map_start: "within sealed_map (0, 0)"
proof -
  show "within sealed_map (0, 0)" by (simp add: within_def inside_def sealed_map_def)
  have "within sealed_map q" if "within sealed_map p" "fst p = 0 \<or> snd p = 0" "passage sealed_map p q" for p q
  proof -
    have "p = (0, 0) \<or> p = (0, 1) \<or> p = (0, 2) \<or> p = (1, 0)"
      using that(1,2) by (auto simp: within_def inside_def sealed_map_def prod_eq_iff)
    then show ?thesis
      using that(3) unfolding passage_iff
      by (elim disjE; simp add: sealed_map_def within_def inside_def wall_def cell_def has_top_wall_def wall_defs)
  qed
  then show "sealed sealed_map (0, 0)" by (auto simp: sealed_def)
qed

text \<open>
  C3. The breadth-first search of \<open>maze.c\<close> is right where the row and the column of the start
  have no opening to the outside: without a fault, without a message about a full queue, it
  prints the coordinates of an open path from the start; if any exit can be reached (an opening
  in another row and another column than the start), the path ends at an exit and no open path to
  an exit has fewer cells.
\<close>

theorem solve_shortest_nearest:
  assumes "octal_map m" and "within m st" and "sealed m st"
  shows "\<exists>ps. solve_shortest m (fst st) (snd st) = (Inr (), map coord ps) \<and>
           open_path m ps \<and> hd ps = st \<and>
           (\<forall>qs. open_path m qs \<and> hd qs = st \<and> exit_cell m st (List.last qs) \<longrightarrow>
              exit_cell m st (List.last ps) \<and> length ps \<le> length qs)"
  using assms by (rule shortest_path)

theorem solve_shortest_nearest_witness:
  "\<exists>ps. solve_shortest sealed_map 0 0 = (Inr (), map coord ps) \<and> open_path sealed_map ps"
  using solve_shortest_nearest [OF sealed_octal sealed_map_start sealed_map_sealed] by auto

text \<open>
  C27. Where the start is below an opening of the top border, which is where \<open>main\<close> starts a
  search for the user who enters the maze from above, the search reads \<open>pre_nodes\<close> before
  its first element: the neighbour behind the opening is looked up without a bounds check.
\<close>

theorem solve_shortest_top_opening:
  assumes "octal_map m" and "inside m 0 c" and "open_side m 0 c TOP"
  shows "solve_shortest m 0 c = stop (Fault OutOfBounds)"
  using assms by (intro start_below_opening) (simp_all add: within_def)

theorem solve_shortest_top_opening_witness:
  "solve_shortest top_map 0 0 = stop (Fault OutOfBounds)"
  by (rule solve_shortest_top_opening [OF top_octal]) code_simp+

end
