(* ===== verification/Maze_Load.thy ===== *)
theory Maze_Load
  imports Maze_Walls
begin

text \<open>
  What \<open>Map_loader\<close> reads. A file is described as a list of tokens: a number in decimal, the
  one byte after it, and blanks. The byte after a number is taken from the file by the loop
  that reads the digits and is never looked at again, so it may be any byte that is not a
  digit.
\<close>

section \<open>Decimal numbers\<close>

definition dig :: "nat \<Rightarrow> u8" where
  "dig d = word_of_nat (48 + d)"

fun digits :: "nat \<Rightarrow> nat list" where
  "digits n = (if n < 10 then [n] else digits (n div 10) @ [n mod 10])"

declare digits.simps [simp del]

definition decimal :: "nat \<Rightarrow> u8 list" where
  "decimal n = map dig (digits n)"

definition digits_value :: "nat \<Rightarrow> nat list \<Rightarrow> nat" where
  "digits_value a ds = foldl (\<lambda>a d. a * 10 + d) a ds"

lemma digits_small: "d \<in> set (digits n) \<Longrightarrow> d < 10"
proof (induction n rule: digits.induct)
  case (1 n)
  then show ?case
    by (cases "n < 10") (auto simp: digits.simps [of n])
qed

lemma digits_nonempty [simp]: "digits n \<noteq> []"
  by (subst digits.simps) simp

lemma digits_value_digits: "digits_value 0 (digits n) = n"
proof (induction n rule: digits.induct)
  case (1 n)
  then show ?case
    by (cases "n < 10") (auto simp: digits.simps [of n] digits_value_def)
qed

lemma uint_dig: "d < 10 \<Longrightarrow> uint (dig d) = 48 + int d"
  unfolding dig_def unsigned_of_nat by (subst take_bit_nat_eq_self) simp_all

lemma dig_digit: "d < 10 \<Longrightarrow> isdigit (dig d)" and dig_not_eof: "d < 10 \<Longrightarrow> \<not> is_eof (dig d)"
  and dig_not_blank: "d < 10 \<Longrightarrow> \<not> isblank_maze (dig d)"
  using uint_dig [of d] by (auto simp: isdigit_def is_eof_def isblank_maze_def)

lemma digits_value_ge: "a \<le> digits_value a ds"
proof (induction ds arbitrary: a)
  case (Cons d ds)
  have "a \<le> a * 10 + d" by simp
  also have "\<dots> \<le> digits_value (a * 10 + d) ds" by (rule Cons.IH)
  finally show ?case by (simp add: digits_value_def)
qed (simp add: digits_value_def)

lemma read_num_digits:
  assumes "\<forall>d \<in> set ds. d < 10" and "int (digits_value a ds) \<le> INT_MAX"
    and "rest = [] \<or> \<not> isdigit (hd rest)"
  shows "read_num (int a) (map dig ds @ rest) = ret (int (digits_value a ds), tl rest)"
  using assms(1,2)
proof (induction ds arbitrary: a)
  case Nil
  then show ?case using assms(3) by (cases rest) (auto simp: digits_value_def)
next
  case (Cons d ds)
  have v: "digits_value a (d # ds) = digits_value (a * 10 + d) ds"
    by (simp add: digits_value_def)
  have le: "int (a * 10 + d) \<le> INT_MAX"
    using Cons.prems(2) digits_value_ge [of "a * 10 + d" ds] unfolding v by linarith
  then have "in_int (int a * 10)" "in_int (int a * 10 + int d)"
    by (simp_all add: in_int_def INT_MIN_def INT_MAX_def)
  moreover have "read_num (int (a * 10 + d)) (map dig ds @ rest) = ret (int (digits_value a (d # ds)), tl rest)"
    using Cons v by (intro Cons.IH [of "a * 10 + d", folded v]) auto
  ultimately show ?case
    using Cons.prems(1) by (simp add: dig_digit dig_not_eof uint_dig)
qed

section \<open>Files of tokens\<close>

type_synonym token = "nat \<times> u8 \<times> u8 list"

definition tok_ok :: "token \<Rightarrow> bool" where
  "tok_ok = (\<lambda>(n, sep, blanks). int n + 48 \<le> INT_MAX \<and> \<not> isdigit sep \<and> (\<forall>b \<in> set blanks. isblank_maze b))"

definition tok_text :: "token \<Rightarrow> u8 list" where
  "tok_text = (\<lambda>(n, sep, blanks). decimal n @ sep # blanks)"

definition file_text :: "token list \<Rightarrow> u8 list" where
  "file_text ts = concat (map tok_text ts)"

definition tok_cell :: "token \<Rightarrow> u8 option" where
  "tok_cell t = Some (word_of_nat (fst t + 48))"

lemma blank_skip:
  "\<forall>b \<in> set bs. isblank_maze b \<Longrightarrow> load_loop i rws mp (bs @ rest) = load_loop i rws mp rest"
  by (induction bs) (auto simp: isblank_maze_def is_eof_def)

text \<open>What one token does to the loop.\<close>

definition load_num ::
  "int \<Rightarrow> int \<Rightarrow> maze_map option \<Rightarrow> int \<Rightarrow> (int \<times> maze_map option) maze_io" where
  "load_num i rws mp num =
     (if i = -2 then
        (if num < 1 then bind_io (emit Invalid_msg) (\<lambda>_. stop (Exit 1)) else ret (num, mp))
      else if i = -1 then
        (if num < 1 then bind_io (emit Invalid_msg) (\<lambda>_. stop (Exit 1))
         else bind_io (Map_ctor rws num) (\<lambda>m. ret (rws, Some m)))
      else
        (case mp of
           None \<Rightarrow> stop (Fault Uninitialised)
         | Some m \<Rightarrow>
             bind_io (cint (num + 48)) (\<lambda>v.
             bind_io (arr_set (cells m) i (word_of_int v)) (\<lambda>cs. ret (rws, Some (m\<lparr>cells := cs\<rparr>))))))"

lemma load_token:
  assumes "tok_ok t"
  shows "load_loop i rws mp (tok_text t @ rest) =
    bind_io (load_num i rws mp (int (fst t))) (\<lambda>(rws', mp'). load_loop (i + 1) rws' mp' rest)"
proof -
  obtain n sep blanks where t: "t = (n, sep, blanks)" by (cases t)
  obtain d ds where ds: "digits n = d # ds" by (cases "digits n") auto
  have small: "\<forall>d \<in> set (d # ds). d < 10" using digits_small [of _ n] ds by auto
  have val: "digits_value d ds = n"
    using digits_value_digits [of n] ds by (simp add: digits_value_def)
  have "read_num (int d) (map dig ds @ sep # blanks @ rest) = ret (int n, blanks @ rest)"
    using read_num_digits [of ds d "sep # blanks @ rest"] small assms
    by (simp add: val t tok_ok_def)
  moreover have "load_loop i' rws' mp' (blanks @ rest) = load_loop i' rws' mp' rest" for i' rws' mp'
    using assms by (intro blank_skip) (simp add: t tok_ok_def)
  ultimately show ?thesis
    using small
    by (simp add: t tok_text_def decimal_def ds dig_digit dig_not_eof dig_not_blank uint_dig
        load_num_def bind_assoc split: option.splits)
qed

section \<open>What a file loads\<close>

lemma load_cells:
  assumes "list_all tok_ok ts" and "k \<le> length (cells m)"
  shows "load_loop (int k) rws (Some m) (file_text ts) =
    (if k + length ts \<le> length (cells m)
     then ret (int (k + length ts),
       Some (m\<lparr>cells := take k (cells m) @ map tok_cell ts @ drop (k + length ts) (cells m)\<rparr>))
     else stop (Fault OutOfBounds))"
  using assms
proof (induction ts arbitrary: k m)
  case Nil
  then show ?case by (simp add: file_text_def)
next
  case (Cons t ts)
  have split: "file_text (t # ts) = tok_text t @ file_text ts"
    by (simp add: file_text_def)
  have v: "in_int (int (fst t) + 48)" "word_of_int (int (fst t) + 48) = (word_of_nat (fst t + 48) :: u8)"
    using Cons.prems(1) by (auto simp: tok_ok_def in_int_def INT_MIN_def split: prod.splits)
  show ?case
  proof (cases "k < length (cells m)")
    case False
    then show ?thesis
      using Cons.prems v by (simp add: split load_token load_num_def)
  next
    case True
    let ?m = "m\<lparr>cells := (cells m)[k := tok_cell t]\<rparr>"
    have "load_loop (int (Suc k)) rws (Some ?m) (file_text ts) =
      (if Suc k + length ts \<le> length (cells ?m)
       then ret (int (Suc k + length ts), Some (?m\<lparr>cells := take (Suc k) (cells ?m) @ map tok_cell ts @
              drop (Suc k + length ts) (cells ?m)\<rparr>))
       else stop (Fault OutOfBounds))"
      using Cons.prems True by (intro Cons.IH) simp_all
    moreover have "load_loop (int k) rws (Some m) (file_text (t # ts)) =
        load_loop (int (Suc k)) rws (Some ?m) (file_text ts)"
      using Cons.prems True v by (simp add: split load_token load_num_def tok_cell_def add.commute)
    ultimately show ?thesis
      using True by (simp add: take_Suc_conv_app_nth)
  qed
qed

lemma load_tokens:
  assumes "list_all tok_ok ((r, s1, b1) # (c, s2, b2) # ts)"
    and "1 \<le> r" and "1 \<le> c" and "int (r * c) \<le> INT_MAX"
  shows "Map_loader (file_text ((r, s1, b1) # (c, s2, b2) # ts)) =
    (if length ts = r * c
     then ret \<lparr>rows = int r, cols = int c, cells = map tok_cell ts\<rparr>
     else if length ts < r * c then (Inl (Exit 1), [Invalid_msg])
     else stop (Fault OutOfBounds))"
proof -
  let ?m = "\<lparr>rows = int r, cols = int c, cells = replicate (r * c) None\<rparr>"
  have int_rc: "in_int (int r * int c)" "in_int (int c * int r)"
    using assms(4) by (auto intro!: in_int_nonneg simp: mult.commute)
  have ctor: "Map_ctor (int r) (int c) = ret ?m"
    using int_rc by (simp add: Map_ctor_def mult.commute nat_mult_distrib)
  have split: "file_text ((r, s1, b1) # (c, s2, b2) # ts) =
      tok_text (r, s1, b1) @ tok_text (c, s2, b2) @ file_text ts"
    by (simp add: file_text_def)
  have "load_loop (-2) 0 None (file_text ((r, s1, b1) # (c, s2, b2) # ts)) =
      load_loop (int 0) (int r) (Some ?m) (file_text ts)"
    using assms by (simp add: split load_token load_num_def ctor)
  also have "\<dots> = (if length ts \<le> r * c
      then ret (int (length ts), Some (?m\<lparr>cells := map tok_cell ts @ replicate (r * c - length ts) None\<rparr>))
      else stop (Fault OutOfBounds))"
    using assms(1) by (subst load_cells) simp_all
  finally show ?thesis
    using int_rc by (auto simp: Map_loader_def io_simps simp flip: of_nat_mult)
qed

text \<open>
  C23. What \<open>Map_loader\<close> does with a file of numbers. With a header of at least one row and one
  column whose product is an \<open>int\<close>, it loads the maze when there are as many numbers as
  cells, prints \<open>Invalid\<close> and exits with 1 when there are fewer, and writes past the end of
  the allocated array when there are more. The byte that follows a number can be any byte but a
  digit: a letter or a comma there is not reported.
\<close>

theorem Map_loader_tokens:
  assumes "list_all tok_ok ((r, s1, b1) # (c, s2, b2) # ts)"
    and "1 \<le> r" and "1 \<le> c" and "int (r * c) \<le> INT_MAX"
  shows "Map_loader (file_text ((r, s1, b1) # (c, s2, b2) # ts)) =
    (if length ts = r * c
     then ret \<lparr>rows = int r, cols = int c, cells = map tok_cell ts\<rparr>
     else if length ts < r * c then (Inl (Exit 1), [Invalid_msg])
     else stop (Fault OutOfBounds))"
  using assms by (rule load_tokens)

section \<open>Every maze that loads is well-formed\<close>

lemma read_num_in_int:
  "read_num a bs = (Inr (n, rest), w) \<Longrightarrow> in_int a \<Longrightarrow> in_int n \<and> w = []"
  by (induction a bs arbitrary: n rest w rule: read_num.induct)
    (auto simp: bind_ok_iff split: if_splits)

definition load_inv :: "int \<Rightarrow> int \<Rightarrow> maze_map option \<Rightarrow> bool" where
  "load_inv i rws mp \<longleftrightarrow>
     (case mp of
        None \<Rightarrow> i = -2 \<or> i = -1 \<and> 1 \<le> rws \<and> in_int rws
      | Some m \<Rightarrow> 0 \<le> i \<and> i \<le> int (length (cells m)) \<and> 1 \<le> rows m \<and> 1 \<le> cols m \<and>
          in_int (rows m) \<and> in_int (cols m) \<and> in_int (rows m * cols m) \<and>
          int (length (cells m)) = rows m * cols m \<and> (\<forall>k < nat i. cells m ! k \<noteq> None))"

lemma load_inv_num:
  assumes "load_inv i rws mp" and "in_int num" and "load_num i rws mp num = (Inr (rws', mp'), w)"
  shows "load_inv (i + 1) rws' mp'" and "w = []"
proof -
  have all_less: "(\<forall>k < nat (i + 1). P k) \<longleftrightarrow> (\<forall>k < nat i. P k) \<and> P (nat i)" if "0 \<le> i" for P
    using that by (auto simp: nat_add_distrib less_Suc_eq)
  show "load_inv (i + 1) rws' mp'"
    using assms
    by (auto simp: load_num_def load_inv_def bind_ok_iff Map_ctor_def arr_set_ok_iff all_less
        nth_list_update mult.commute split: if_splits option.splits)
  show "w = []"
    using assms(3)
    by (auto simp: load_num_def bind_ok_iff Map_ctor_def arr_set_ok_iff split: if_splits option.splits)
qed

lemma load_loop_num:
  "\<not> is_eof b \<Longrightarrow> \<not> isblank_maze b \<Longrightarrow> isdigit b \<Longrightarrow>
   load_loop i rws mp (b # bs) =
     bind_io (read_num (uint b - 48) bs) (\<lambda>(num, rest).
     bind_io (load_num i rws mp num) (\<lambda>(rws', mp'). load_loop (i + 1) rws' mp' rest))"
  by (auto simp: load_num_def bind_assoc split: option.splits intro!: bind_cong_io)

lemma load_loop_inv:
  "load_loop i rws mp bs = (Inr (i', mp'), w) \<Longrightarrow> load_inv i rws mp \<Longrightarrow>
   w = [] \<and> (\<exists>rws'. load_inv i' rws' mp')"
proof (induction "length bs" arbitrary: i rws mp bs w rule: less_induct)
  case less
  show ?case
  proof (cases bs)
    case Nil
    with less.prems show ?thesis by auto
  next
    case (Cons b cs)
    consider "is_eof b" | "\<not> is_eof b" "isblank_maze b"
      | "\<not> is_eof b" "\<not> isblank_maze b" "\<not> isdigit b"
      | "\<not> is_eof b" "\<not> isblank_maze b" "isdigit b" by blast
    then show ?thesis
    proof cases
      case 4
      have "in_int (uint b - 48)"
        using 4(3) by (auto simp: isdigit_def in_int_def INT_MIN_def INT_MAX_def)
      moreover obtain num rest u v where run: "read_num (uint b - 48) cs = (Inr (num, rest), u)"
          "bind_io (load_num i rws mp num) (\<lambda>(rws', mp'). load_loop (i + 1) rws' mp' rest) =
            (Inr (i', mp'), v)" "w = u @ v"
        using less.prems(1) unfolding Cons load_loop_num [OF 4] by (auto simp: bind_ok_iff)
      ultimately have "in_int num" "u = []" using read_num_in_int by blast+
      moreover obtain rws1 mp1 u1 v1 where "load_num i rws mp num = (Inr (rws1, mp1), u1)"
          "load_loop (i + 1) rws1 mp1 rest = (Inr (i', mp'), v1)" "v = u1 @ v1"
        using run(2) by (auto simp: bind_ok_iff)
      moreover have "length rest < length bs"
        using read_num_length [of "uint b - 48" cs num rest] run(1) Cons by simp
      ultimately show ?thesis
        using less.hyps load_inv_num less.prems(2) run(3) by fastforce
    qed (use less.prems less.hyps [of cs] Cons in \<open>auto simp: bind_ok_iff\<close>)
  qed
qed

lemma loaded_wf:
  assumes "Map_loader file = (Inr m, w)"
  shows "wf_map m \<and> w = []"
proof -
  obtain i u v where run: "load_loop (-2) 0 None file = (Inr (i, Some m), u)"
      and i: "i = rows m * cols m" and w: "w = u @ v" "v = []"
    using assms by (auto simp: Map_loader_def bind_ok_iff split: option.splits if_splits)
  have "load_inv (-2) 0 None" by (simp add: load_inv_def)
  from load_loop_inv [OF run this] obtain rws where "u = []" and inv: "load_inv i rws (Some m)"
    by blast
  moreover have "None \<notin> set (cells m)"
    using inv i by (auto simp: load_inv_def in_set_conv_nth)
  ultimately show ?thesis using inv w by (simp add: load_inv_def wf_map_def)
qed

text \<open>
  C24. Whatever the file, a maze that \<open>Map_loader\<close> returns is well-formed: it has at least one
  row and one column, its array has one initialised cell for each of them, and nothing was
  printed. The later searches rely on it for their array accesses.
\<close>

theorem Map_loader_wf:
  assumes "Map_loader file = (Inr m, w)"
  shows "wf_map m \<and> w = []"
  using assms by (rule loaded_wf)

end
