(* ===== verification/Maze_Print.thy ===== *)
theory Maze_Print
  imports Maze_Load
begin

text \<open>
  Printing and loading are inverse: the cells as \<open>Map_print\<close> writes them, after a header
  with the two sizes, load as the same maze.
\<close>

section \<open>The printed bytes\<close>

definition out_bytes :: "maze_event list \<Rightarrow> u8 list" where
  "out_bytes evs = concat (map (\<lambda>ev. case ev of Out s \<Rightarrow> map of_char s | _ \<Rightarrow> []) evs)"

lemma out_bytes_append [simp]: "out_bytes (xs @ ys) = out_bytes xs @ out_bytes ys"
  and out_bytes_Nil [simp]: "out_bytes [] = []"
  and out_bytes_Out [simp]: "out_bytes (Out s # xs) = map of_char s @ out_bytes xs"
  by (simp_all add: out_bytes_def)

lemma of_char_byte [simp]: "of_char (char_of (unat (b :: u8))) = b"
proof -
  have "(of_char (char_of (unat b)) :: u8) = of_nat (of_char (char_of (unat b)))"
    by (simp only: of_nat_of_char)
  also have "\<dots> = of_nat (unat b mod 256)" by simp
  also have "unat b mod 256 = unat b"
  proof -
    have "unat b < 2 ^ LENGTH(8)" by (rule unsigned_less)
    then show ?thesis by simp
  qed
  also have "of_nat (unat b) = b" by simp
  finally show ?thesis .
qed

section \<open>Rows of tokens\<close>

text \<open>A row is printed as one token for each cell, the last followed by the newline.\<close>

fun row_tokens :: "maze_map \<Rightarrow> int \<Rightarrow> int list \<Rightarrow> token list" where
  "row_tokens m i [] = []"
| "row_tokens m i [j] = [(nat (uint (cell m i j) - 48), 32, [10])]"
| "row_tokens m i (j # js) = (nat (uint (cell m i j) - 48), 32, []) # row_tokens m i js"

definition digit_map :: "maze_map \<Rightarrow> bool" where
  "digit_map m \<longleftrightarrow> wf_map m \<and> (\<forall>b. Some b \<in> set (cells m) \<longrightarrow> isdigit b)"

lemma digit_cell:
  assumes "digit_map m" and "inside m r c"
  shows "isdigit (cell m r c)"
proof -
  let ?i = "nat (r * cols m + c)"
  have wf: "wf_map m" using assms(1) by (simp add: digit_map_def)
  have "cells m ! ?i \<in> set (cells m)"
    using wf_index [OF wf assms(2)] by (intro nth_mem) linarith
  moreover from this have "cells m ! ?i \<noteq> None" using wf by (metis wf_map_def)
  ultimately show ?thesis using assms(1) by (auto simp: digit_map_def cell_def)
qed

lemma decimal_digit: "isdigit b \<Longrightarrow> decimal (nat (uint b - 48)) = [b]"
proof -
  assume b: "isdigit b"
  then have n: "nat (uint b - 48) < 10" by (auto simp: isdigit_def)
  then have "uint (dig (nat (uint b - 48))) = uint b"
    using b by (simp add: uint_dig isdigit_def)
  then have "dig (nat (uint b - 48)) = b" by (simp only: word_uint_eq_iff)
  then show ?thesis using n by (simp add: decimal_def digits.simps)
qed

lemma tok_cell_digit:
  assumes "isdigit b"
  shows "tok_cell (nat (uint b - 48), s, bl) = Some b"
proof -
  have "nat (uint b - 48) + 48 = unat b"
    using assms unfolding isdigit_def uint_nat by linarith
  then show ?thesis
    unfolding tok_cell_def fst_conv by (elim ssubst) simp
qed

lemma file_text_Cons: "file_text (t # ts) = tok_text t @ file_text ts"
  and file_text_append: "file_text (ts @ us) = file_text ts @ file_text us"
  and file_text_Nil [simp]: "file_text [] = []"
  by (simp_all add: file_text_def)

lemma print_row_tokens:
  assumes "digit_map m" and "\<forall>j \<in> set js. inside m i j" and "js \<noteq> []"
  shows "\<exists>w. print_row m i js = (Inr (), w) \<and> out_bytes w = file_text (row_tokens m i js)"
proof -
  have wf: "wf_map m" using assms(1) by (simp add: digit_map_def)
  have blank: "of_char CHR '' '' = (32 :: u8)" "of_char newline = (10 :: u8)"
    by (simp_all add: newline_def)
  have cell_text: "tok_text (nat (uint (cell m i j) - 48), s, bl) = cell m i j # s # bl"
    if "inside m i j" for j s bl
    using decimal_digit [OF digit_cell [OF assms(1) that]] by (simp add: tok_text_def)
  show ?thesis
    using assms(2,3)
  proof (induction js rule: induct_list012)
    case (2 j)
    then show ?case
      by (auto simp: wf_get_cell [OF wf] io_simps file_text_Cons cell_text blank emit_def)
  next
    case (3 j j' js)
    then obtain w where "print_row m i (j' # js) = (Inr (), w)"
        "out_bytes w = file_text (row_tokens m i (j' # js))"
      by auto
    with 3 show ?case
      by (auto simp: wf_get_cell [OF wf] io_simps file_text_Cons cell_text blank
          simp del: print_row.simps(2) simp: print_row.simps(2) [of m i j])
  qed simp
qed

lemma row_tokens_cells:
  assumes "digit_map m" and "\<forall>j \<in> set js. inside m i j"
  shows "map tok_cell (row_tokens m i js) = map (\<lambda>j. Some (cell m i j)) js"
    and "list_all tok_ok (row_tokens m i js)"
    and "length (row_tokens m i js) = length js"
proof -
  have dig: "isdigit (cell m i j)" if "inside m i j" for j
    using digit_cell [OF assms(1) that] .
  show "map tok_cell (row_tokens m i js) = map (\<lambda>j. Some (cell m i j)) js"
    using assms(2) by (induction js rule: induct_list012) (auto simp: tok_cell_digit dig)
  have small: "nat (uint (cell m i j) - 48) \<le> 9" if "inside m i j" for j
    using dig [OF that] by (auto simp: isdigit_def)
  have sep: "\<not> isdigit 32" "isblank_maze 10" by (simp_all add: isdigit_def isblank_maze_def)
  have ok: "tok_ok (nat (uint (cell m i j) - 48), 32, bl)"
    if "inside m i j" "bl = [] \<or> bl = [10]" for j bl
    using small [OF that(1)] that(2) sep by (auto simp: tok_ok_def INT_MAX_def)
  show "list_all tok_ok (row_tokens m i js)"
    using assms(2) by (induction js rule: induct_list012) (auto simp: ok)
  show "length (row_tokens m i js) = length js"
    by (induction js rule: induct_list012) auto
qed

lemma print_rows_tokens:
  assumes "digit_map m" and "\<forall>i \<in> set is. 0 \<le> i \<and> i < rows m"
  shows "\<exists>w. print_rows m is = (Inr (), w) \<and>
    out_bytes w = file_text (concat (map (\<lambda>i. row_tokens m i [0..cols m - 1]) is))"
  using assms(2)
proof (induction "is")
  case Nil
  then show ?case by (simp add: ret_def)
next
  case (Cons i "is")
  have "1 \<le> cols m" using assms(1) by (simp add: digit_map_def wf_map_def)
  then have "\<forall>j \<in> set [0..cols m - 1]. inside m i j" "[0..cols m - 1] \<noteq> []"
    using Cons.prems by (auto simp: inside_def)
  from print_row_tokens [OF assms(1) this] obtain u where
    "print_row m i [0..cols m - 1] = (Inr (), u)"
    "out_bytes u = file_text (row_tokens m i [0..cols m - 1])" by blast
  with Cons show ?case by (auto simp: io_simps file_text_append)
qed

section \<open>Row-major order\<close>

lemma concat_rows:
  "concat (map (\<lambda>i. map (\<lambda>j. f (i * c + j)) [0..<c]) [0..<r]) = map f [0..<r * (c :: nat)]"
proof (induction r)
  case (Suc r)
  have "[0..<Suc r * c] = [0..<r * c] @ [r * c..<r * c + c]"
    using upt_add_eq_append [of 0 "r * c" c] by (simp add: add.commute)
  moreover have "[r * c..<r * c + c] = map (\<lambda>j. j + r * c) [0..<c]"
    using map_add_upt [of "r * c" c] by (simp add: add.commute)
  ultimately show ?case using Suc by (simp add: comp_def add.commute)
qed simp

lemma cells_row_major:
  assumes "wf_map m"
  shows "concat (map (\<lambda>i. map (\<lambda>j. Some (cell m i j)) [0..cols m - 1]) [0..rows m - 1]) = cells m"
proof -
  obtain r c where rc: "rows m = int r" "cols m = int c"
    using assms by (metis wf_map_def nonneg_int_cases order_trans zero_le_one)
  have len: "length (cells m) = r * c"
    using assms rc by (simp add: wf_map_def flip: of_nat_mult)
  have "Some (cell m (int i) (int j)) = cells m ! (i * c + j)" if "i < r" "j < c" for i j
  proof -
    have "inside m (int i) (int j)" using that rc by (simp add: inside_def)
    from wf_get_cell [OF assms this] wf_index(1,2) [OF assms this] rc show ?thesis
      by (auto simp: arr_get_def nat_add_distrib nat_mult_distrib split: option.splits if_splits)
  qed
  then have "concat (map (\<lambda>i. map (\<lambda>j. Some (cell m i j)) [0..cols m - 1]) [0..rows m - 1]) =
      concat (map (\<lambda>i. map (\<lambda>j. cells m ! (i * c + j)) [0..<c]) [0..<r])"
    unfolding rc upto_int by (auto simp: comp_def intro!: arg_cong [where f = concat] map_cong)
  also have "\<dots> = map ((!) (cells m)) [0..<r * c]"
    using concat_rows [of "(!) (cells m)" c r] .
  also have "\<dots> = cells m" using len by (metis map_nth)
  finally show ?thesis .
qed

section \<open>The round trip\<close>

definition print_file :: "maze_map \<Rightarrow> u8 list" where
  "print_file m =
     decimal (nat (rows m)) @ [32] @ decimal (nat (cols m)) @ [10] @ out_bytes (snd (Map_print m))"

text \<open>
  C12. Round trip of printing and loading: for a maze whose cells are digits, \<open>Map_print\<close>
  neither faults nor stops, and the file with the number of rows, the number of columns and
  then the text it prints loads as the same maze, again without output.
\<close>

theorem Map_print_load:
  assumes "digit_map m" and "rows m + 48 \<le> INT_MAX" and "cols m + 48 \<le> INT_MAX"
  shows "fst (Map_print m) = Inr () \<and> Map_loader (print_file m) = ret m"
proof -
  let ?row = "\<lambda>i. row_tokens m i [0..cols m - 1]"
  let ?ts = "concat (map ?row [0..rows m - 1])"
  let ?hd = "\<lambda>n s. (nat n, s, []) :: token"
  have wf: "wf_map m" using assms(1) by (simp add: digit_map_def)
  from print_rows_tokens [OF assms(1), of "[0..rows m - 1]"] obtain w where
    w: "Map_print m = (Inr (), w)" "out_bytes w = file_text ?ts"
    by (auto simp: Map_print_def)
  have print_toks: "print_file m = file_text (?hd (rows m) 32 # ?hd (cols m) 10 # ?ts)"
    by (simp add: print_file_def w file_text_Cons tok_text_def)
  have in_m: "\<forall>j \<in> set [0..cols m - 1]. inside m i j" if "i \<in> set [0..rows m - 1]" for i
    using that by (auto simp: inside_def)
  have "list_all tok_ok (?hd (rows m) 32 # ?hd (cols m) 10 # ?ts)"
    using assms wf row_tokens_cells(2) [OF assms(1) in_m]
    by (auto simp: tok_ok_def isdigit_def wf_map_def list_all_iff)
  moreover have cells_ts: "map tok_cell ?ts = cells m"
  proof -
    have "map tok_cell ?ts = concat (map (\<lambda>i. map tok_cell (?row i)) [0..rows m - 1])"
      by (simp add: map_concat comp_def)
    also have "\<dots> = concat (map (\<lambda>i. map (\<lambda>j. Some (cell m i j)) [0..cols m - 1]) [0..rows m - 1])"
      by (intro arg_cong [where f = concat] map_cong refl row_tokens_cells(1) [OF assms(1) in_m])
    finally show ?thesis using cells_row_major [OF wf] by simp
  qed
  moreover have "length ?ts = nat (rows m) * nat (cols m)"
  proof -
    have "int (length (cells m)) = int (nat (rows m) * nat (cols m))"
      using wf by (simp add: wf_map_def)
    then have "length (cells m) = nat (rows m) * nat (cols m)" by (rule of_nat_eq_iff [THEN iffD1])
    then show ?thesis using arg_cong [OF cells_ts, of length] by simp
  qed
  ultimately have "Map_loader (print_file m) = ret \<lparr>rows = int (nat (rows m)),
      cols = int (nat (cols m)), cells = cells m\<rparr>"
    unfolding print_toks using wf by (subst load_tokens) (auto simp: wf_map_def in_int_def)
  then show ?thesis using wf w by (simp add: wf_map_def)
qed

end
