(* ===== verification/Maze_Main.thy ===== *)
theory Maze_Main
  imports Stdlib Maze_Escape Maze_Path Maze_Print
begin

text \<open>
  \<open>main\<close> of \<open>maze.c\<close>, from the command line to the printed path, over the files as a map
  from names to bytes (a file that cannot be opened gives the null pointer to \<open>fgetc\<close>), and the
  theorems about the whole program.
\<close>

section \<open>The program\<close>

definition maze_help :: string where
  "maze_help =
     ''To run the code, use one of the following options:'' @ [newline, CHR 0x09] @
     ''./maze --test <maze_file>'' @ [newline, CHR 0x09] @
     ''./maze --rpath <rows> <cols> <maze_file>'' @ [newline, CHR 0x09] @
     ''./maze --lpath <rows> <cols> <maze_file>'' @ [newline]"

definition maze_open :: "(string \<rightharpoonup> u8 list) \<Rightarrow> string \<Rightarrow> maze_map maze_io" where
  "maze_open fs name =
     (case fs name of None \<Rightarrow> stop (Fault NullPointer) | Some bytes \<Rightarrow> Map_loader bytes)"

definition maze_main :: "nat \<Rightarrow> (string \<rightharpoonup> u8 list) \<Rightarrow> string list \<Rightarrow> int maze_io option" where
  "maze_main fuel fs argv =
     (if length argv < 2 \<or> length argv > 5
      then Some (bind_io (emit (Out (''You entered too few or too many arguments. Type '' @
             [CHR 0x27] @ ''./maze --help'' @ [CHR 0x27] @ ''.'' @ [newline]))) (\<lambda>_. ret 1))
      else
        let option = argv ! 1 in
        if option \<noteq> ''--test'' \<and> option \<noteq> ''--rpath'' \<and> option \<noteq> ''--lpath'' \<and>
           option \<noteq> ''--help'' \<and> option \<noteq> ''--shortest''
        then Some (bind_io (emit (Err ''Invalid option'')) (\<lambda>_. ret 1))
        else if option = ''--help'' then Some (bind_io (emit (Out maze_help)) (\<lambda>_. ret 0))
        else if option = ''--test''
        then Some (bind_io (arg_get argv 2) (\<lambda>maze_file.
               bind_io (maze_open fs maze_file) (\<lambda>m.
               bind_io (Map_valid_maze m) (\<lambda>_. ret 0))))
        else
          bind_fuel
            (bind_io (bind_io (arg_get argv 2) atoi) (\<lambda>start_row.
             bind_io (bind_io (arg_get argv 3) atoi) (\<lambda>start_col.
             bind_io (arg_get argv 4) (\<lambda>maze_file.
             bind_io (maze_open fs maze_file) (\<lambda>m.
             bind_io (start_border m start_row start_col) (\<lambda>from.
             bind_io (cint (start_row - 1)) (\<lambda>r. bind_io (cint (start_col - 1)) (\<lambda>c.
               ret (m, r, c, from)))))))))
            (\<lambda>(m, r, c, from).
               map_option (\<lambda>run. bind_io run (\<lambda>_. ret 0))
                 (Map_solve fuel m r c from
                   (if option = ''--lpath'' then CHR ''l''
                    else if option = ''--rpath'' then CHR ''r'' else CHR ''s''))))"

section \<open>Where the search starts\<close>

lemma start_border_cases:
  assumes "octal_map m" and "inside m (r - 1) (c - 1)" and "start_border m r c = ret (Some d)"
  shows "(d = TOP \<and> r = 1 \<and> \<not> wall m (r - 1) (c - 1) TOP_WALL) \<or>
         (d = BOTTOM \<and> r = rows m \<and> \<not> wall m (r - 1) (c - 1) BOTTOM_WALL) \<or>
         (d = LEFT \<and> c = 1 \<and> \<not> wall m (r - 1) (c - 1) LEFT_WALL) \<or>
         (d = RIGHT \<and> c = cols m \<and> \<not> wall m (r - 1) (c - 1) RIGHT_WALL)"
  using assms(3) isborder_walls [OF assms(1,2)]
  by (auto simp: start_border_def Let_def Invalid_msg_def emit_def io_simps ret_def split: if_splits)

lemma start_border_opening:
  assumes "octal_map m" and "inside m (r - 1) (c - 1)" and "start_border m r c = ret (Some d)"
    and "is_side (r - 1) (c - 1) d"
  shows "open_side m (r - 1) (c - 1) d"
    and "\<exists>r' c' f'. go (r - 1) (c - 1) d = (r', c', f') \<and> \<not> inside m r' c'"
  using start_border_cases [OF assms(1-3)] assms(4) by (auto simp: is_side_def inside_def)

lemma start_border_runs:
  assumes "octal_map m" and "inside m (r - 1) (c - 1)"
  shows "\<exists>d w. start_border m r c = (Inr d, w) \<and> (w \<noteq> [] \<longrightarrow> d = None)"
  using isborder_walls [OF assms]
  by (auto simp: start_border_def Let_def io_simps ret_def emit_def)

section \<open>The whole program\<close>

lemma main_test_run:
  assumes "fs f = Some bytes" and "Map_loader bytes = ret m" and "octal_map m"
  shows "maze_main fuel fs [prog, ''--test'', f] =
           Some (Inr 0, [if consistent m then Valid_msg else Invalid_msg])"
  using assms by (simp add: maze_main_def maze_open_def valid_maze_decides io_simps ret_def)

lemma main_path_run:
  assumes "option \<in> {''--lpath'', ''--rpath''}" and "fs f = Some bytes"
    and "Map_loader bytes = ret m" and "octal_map m" and "consistent m"
    and "atoi rs = (ret r :: int maze_io)" and "atoi cs = (ret c :: int maze_io)"
    and "inside m (r - 1) (c - 1)" and "start_border m r c = ret (Some d)"
    and "is_side (r - 1) (c - 1) d" and "nat (3 * (rows m * cols m)) < fuel"
  shows "\<exists>path. maze_main fuel fs [prog, option, rs, cs, f] =
                 Some (Inr 0, map (\<lambda>(r, c). Coord (r + 1) (c + 1)) path) \<and>
           path \<noteq> [] \<and> hd path = (r - 1, c - 1) \<and>
           (\<forall>(r, c) \<in> set path. inside m r c) \<and> successively (passage m) path \<and>
           (\<exists>r c. passage m (List.last path) (r, c) \<and> \<not> inside m r c)"
proof -
  let ?lrs = "if option = ''--lpath'' then CHR ''l'' else CHR ''r''"
  obtain r' c' f' where out: "go (r - 1) (c - 1) d = (r', c', f')" "\<not> inside m r' c'"
    using start_border_opening [OF assms(4,8,9,10)] by blast
  have opn: "open_side m (r - 1) (c - 1) d"
    using start_border_opening [OF assms(4,8,9,10)] by blast
  have lrs: "?lrs = CHR ''l'' \<or> ?lrs = CHR ''r''" by simp
  from walk_escapes [OF assms(4,5) lrs assms(8) opn out assms(11)]
  obtain path where path: "Map_solve fuel m (r - 1) (c - 1) (Some d) ?lrs =
        Some (Inr (), map (\<lambda>(r, c). Coord (r + 1) (c + 1)) path)"
      "path \<noteq> []" "hd path = (r - 1, c - 1)" "\<forall>(r, c) \<in> set path. inside m r c"
      "successively (passage m) path" "\<exists>r c. passage m (List.last path) (r, c) \<and> \<not> inside m r c"
    by blast
  have "in_int (rows m)" "in_int (cols m)" using octal_map_wf [OF assms(4)] by (simp_all add: wf_map_def)
  then have rc: "in_int (r - 1)" "in_int (c - 1)"
    using assms(8) by (auto simp: inside_def intro: in_int_between)
  have "maze_main fuel fs [prog, option, rs, cs, f] =
      map_option (\<lambda>run. bind_io run (\<lambda>_. ret 0)) (Map_solve fuel m (r - 1) (c - 1) (Some d) ?lrs)"
    using assms(1) by (auto simp: maze_main_def maze_open_def assms(2,3,6,7,9) rc)
  then have "maze_main fuel fs [prog, option, rs, cs, f] =
      Some (Inr 0, map (\<lambda>(r, c). Coord (r + 1) (c + 1)) path)"
    using path(1) by (simp add: io_simps ret_def)
  with path show ?thesis by blast
qed

text \<open>The file of the small maze of \<open>Maze_Sample\<close>: \<open>2 3 4 2 7 7 1 4\<close>, one number a line.\<close>

definition sample_file :: "u8 list" where
  "sample_file = file_text ((2, 10, []) # (3, 10, []) # map (\<lambda>n. (n, 10, [])) [4, 2, 7, 7, 1, 4])"

lemma sample_file_loads: "Map_loader sample_file = ret sample_map"
  unfolding sample_file_def
  by (subst load_tokens) (simp_all add: tok_ok_def isdigit_def INT_MAX_def sample_map_def tok_cell_def)

lemma sample_start: "start_border sample_map 1 1 = ret (Some LEFT)"
  by code_simp

section \<open>The claims\<close>

text \<open>
  \<open>./maze --test file\<close> on a file that loads as a maze of octal digits prints one line,
  \<open>Valid\<close> if and only if neighbouring cells agree on their walls, and exits with 0.
\<close>

theorem maze_main_test:
  assumes "fs f = Some bytes" and "Map_loader bytes = ret m" and "octal_map m"
  shows "maze_main fuel fs [prog, ''--test'', f] =
           Some (Inr 0, [if consistent m then Valid_msg else Invalid_msg])"
  using assms by (rule main_test_run)

theorem maze_main_test_witness:
  "maze_main 0 [''m'' \<mapsto> sample_file] [''maze'', ''--test'', ''m''] = Some (Inr 0, [Valid_msg])"
  using maze_main_test [of "[''m'' \<mapsto> sample_file]" "''m''", OF _ sample_file_loads sample_octal]
  by (simp add: sample_consistent)

text \<open>
  C21. \<open>./maze --lpath row col file\<close> and \<open>--rpath\<close>: where the file loads as a consistent maze of
  octal digits and \<open>start_border\<close> finds an opening on a side that the cell has, the program
  returns 0 after a bounded number of calls and prints a path through open sides from the
  given cell to a cell with an opening to the outside.
\<close>

theorem maze_main_path:
  assumes "option \<in> {''--lpath'', ''--rpath''}" and "fs f = Some bytes"
    and "Map_loader bytes = ret m" and "octal_map m" and "consistent m"
    and "atoi rs = (ret r :: int maze_io)" and "atoi cs = (ret c :: int maze_io)"
    and "inside m (r - 1) (c - 1)" and "start_border m r c = ret (Some d)"
    and "is_side (r - 1) (c - 1) d" and "nat (3 * (rows m * cols m)) < fuel"
  shows "\<exists>path. maze_main fuel fs [prog, option, rs, cs, f] =
                 Some (Inr 0, map (\<lambda>(r, c). Coord (r + 1) (c + 1)) path) \<and>
           path \<noteq> [] \<and> hd path = (r - 1, c - 1) \<and>
           (\<forall>(r, c) \<in> set path. inside m r c) \<and> successively (passage m) path \<and>
           (\<exists>r c. passage m (List.last path) (r, c) \<and> \<not> inside m r c)"
  using assms by (rule main_path_run)

lemma atoi_one: "atoi ''1'' = (ret 1 :: int maze_io)"
  by (simp add: atoi_def is_space_def decimal_val_def is_digit_def digit_val_def cint_def in_int_def
      INT_MIN_def INT_MAX_def)

theorem maze_main_path_witness:
  "\<exists>path. maze_main 19 [''m'' \<mapsto> sample_file] [''maze'', ''--rpath'', ''1'', ''1'', ''m''] =
      Some (Inr 0, map (\<lambda>(r, c). Coord (r + 1) (c + 1)) path) \<and> path \<noteq> []"
proof -
  have "inside sample_map (1 - 1) (1 - 1)" "is_side (1 - 1) (1 - 1) LEFT"
      "nat (3 * (rows sample_map * cols sample_map)) < 19"
    by (simp_all add: sample_map_def inside_def is_side_def)
  from maze_main_path [of "''--rpath''" "[''m'' \<mapsto> sample_file]" "''m''", OF _ _ sample_file_loads
      sample_octal sample_consistent atoi_one atoi_one this(1) sample_start this(2,3), of "''maze''"]
  show ?thesis by auto
qed

text \<open>
  \<open>main\<close> does not check that an option has its arguments: a search without the name of the
  file, and a test without one, use the null pointer or what is behind \<open>argv\<close>.
\<close>

theorem maze_main_missing_file:
  assumes "option \<in> {''--lpath'', ''--rpath'', ''--shortest''}"
    and "atoi rs = (ret r :: int maze_io)" and "atoi cs = (ret c :: int maze_io)"
  shows "maze_main fuel fs [prog, option, rs, cs] = Some (stop (Fault NullPointer)) \<and>
         maze_main fuel fs [prog, option, rs] = Some (stop (Fault NullPointer)) \<and>
         maze_main fuel fs [prog, ''--test''] = Some (stop (Fault NullPointer))"
  using assms by (auto simp: maze_main_def arg_get_def)

theorem maze_main_missing_file_witness:
  "maze_main 0 Map.empty [''maze'', ''--rpath'', ''1'', ''1''] = Some (stop (Fault NullPointer))"
  using maze_main_missing_file [OF _ atoi_one atoi_one, of "''--rpath''"] by simp

end
