(* ===== verification/Maze_Claims.thy ===== *)
theory Maze_Claims
  imports Maze_Main
begin

text \<open>
  Further properties of \<open>maze.c\<close> that span its parts, and the applications of the properties of
  the other theories to the small mazes of \<open>Maze_Sample\<close>.
\<close>

section \<open>The queue\<close>

text \<open>
  C25. The ring buffer is a bounded first-in first-out queue, for any sequence of \<open>enqueue\<close> and \<open>dequeue\<close>,
  however often it goes round: what comes out, what is left and what is printed are as for a list that grows at
  its end up to the capacity and shrinks at its front; at the bounds the queue stays as it is,
  with a message, and gives the node (-1, -1).
\<close>

theorem queue_implements_fifo:
  assumes "0 < n"
    and "fifo_spec n (Err ''Queue is full. This should not happen.'') (Err ''Queue is empty'') (node_ctor (-1) (-1)) ops [] =
      (out, rest, printed)"
  shows "\<exists>q. run_ops enqueue dequeue ops (q_ctor n) = (Inr (out, q), printed) \<and>
    queue_items q = rest \<and> (q_is_empty q \<longleftrightarrow> rest = [])"
  using ring.run_ops_fifo [OF q_ctor_inv [OF assms(1)], of ops out rest printed] assms(2) ring.emp_law by auto

text \<open>Two places, three nodes: the third one goes into the place of the first one.\<close>

theorem queue_implements_fifo_witness:
  "\<exists>q. run_ops enqueue dequeue [Enq (node_ctor 1 1), Enq (node_ctor 2 2), Enq (node_ctor 9 9), Deq, Enq (node_ctor 3 3), Deq, Deq, Deq]
       (q_ctor 2) =
     (Inr ([node_ctor 1 1, node_ctor 2 2, node_ctor 3 3, node_ctor (-1) (-1)], q),
      [Err ''Queue is full. This should not happen.'', Err ''Queue is empty'']) \<and> q_is_empty q"
  using queue_implements_fifo [of 2 "[Enq (node_ctor 1 1), Enq (node_ctor 2 2), Enq (node_ctor 9 9), Deq,
    Enq (node_ctor 3 3), Deq, Deq, Deq]"]
  by (auto simp del: run_ops.simps)

section \<open>Left and right hand\<close>

text \<open>
  The two rules are each other's inverse: at a cell entered through an open side, going by
  mode \<open>'l'\<close> to the next cell's side and coming back into the cell there, mode \<open>'r'\<close> leaves
  through the side by which the cell was first entered, and the other way round.
\<close>

theorem left_right_inverse:
  assumes "octal_map m" and "inside m r c" and "open_side m r c f"
  shows "\<exists>g h. turn_l m r c f = ret (go r c g) \<and> turn_r m r c g = ret (go r c f) \<and>
               turn_r m r c f = ret (go r c h) \<and> turn_l m r c h = ret (go r c f)"
proof -
  have side: "is_side r c f" using assms(3) by (rule open_is_side)
  let ?g = "exit_by CHR ''l'' m r c f" and ?h = "exit_by CHR ''r'' m r c f"
  have g: "open_side m r c ?g" and h: "open_side m r c ?h"
    and gf: "exit_by CHR ''r'' m r c ?g = f" and hf: "exit_by CHR ''l'' m r c ?h = f"
    using assms(3) by (cases f; auto simp: exit_by_def order_of_def Let_def)+
  show ?thesis
    using turn_l_rule [OF assms(1,2) side] turn_r_rule [OF assms(1,2) side]
      turn_l_rule [OF assms(1,2) open_is_side [OF h]] turn_r_rule [OF assms(1,2) open_is_side [OF g]] gf hf
    by (intro exI [of _ ?g] exI [of _ ?h]) (simp add: walk_step_def)
qed

theorem left_right_inverse_witness:
  "\<exists>g. turn_l sample_map 0 0 LEFT = ret (go 0 0 g) \<and> turn_r sample_map 0 0 g = ret (go 0 0 LEFT)"
proof -
  have "inside sample_map 0 0" "open_side sample_map 0 0 LEFT" by code_simp+
  from left_right_inverse [OF sample_octal this] show ?thesis by blast
qed

section \<open>Where the code goes wrong\<close>

text \<open>
  \<open>start_border\<close> does not look at the orientation of the cell: a cell of the first row that
  has no top side is taken to be entered from above when its bottom side is open, since both
  sides share a bit.
\<close>

theorem start_border_no_top_side:
  assumes "octal_map m" and "inside m 0 (c - 1)" and "\<not> has_top_wall 0 (c - 1)"
    and "open_side m 0 (c - 1) BOTTOM"
  shows "start_border m 1 c = ret (Some TOP) \<and> \<not> is_side 0 (c - 1) TOP"
  using assms(3,4) isborder_walls [OF assms(1,2)]
  by (simp add: start_border_def is_side_def BOTTOM_WALL_def)

theorem start_border_no_top_side_witness:
  "start_border sample_map 1 2 = ret (Some TOP) \<and> \<not> is_side 0 (2 - 1) TOP"
  by (rule start_border_no_top_side [OF sample_octal]) code_simp+

text \<open>
  The digits 8 and 9 pass \<open>Map_loader\<close>; when a search enters such a cell, \<open>Map_solve\<close>
  prints the cell and a message and then compares the null pointer with \<open>111\<close>.
\<close>

theorem Map_solve_bad_digit:
  assumes "wf_map m" and "inside m r c" and "cell m r c \<in> {56, 57}" and "lrs \<noteq> CHR ''s''"
  shows "Map_solve (Suc fuel) m r c from lrs =
    Some (Inl (Fault NullPointer), [Coord (r + 1) (c + 1), Err ''Something unexpected happened 1''])"
proof -
  have bad: "dec_to_bin (cell m r c) = None"
    using assms(3) by (auto simp: dec_to_bin_def)
  have "\<not> (r < 0 \<or> r \<ge> rows m \<or> c < 0 \<or> c \<ge> cols m)"
    using assms(2) by (auto simp: inside_def)
  then show ?thesis
    by (simp add: Map_solve_call_def assms(4) wf_get_cell [OF assms(1,2)] bad io_simps stop_def
        bind_fuel_def)
qed

theorem Map_solve_bad_digit_witness:
  "Map_solve 1 \<lparr>rows = 1, cols = 1, cells = [Some 57]\<rparr> 0 0 (Some TOP) CHR ''l'' =
     Some (Inl (Fault NullPointer), [Coord (0 + 1) (0 + 1), Err ''Something unexpected happened 1''])"
  unfolding One_nat_def
  by (rule Map_solve_bad_digit)
    (simp_all add: wf_map_def inside_def cell_def in_int_def INT_MIN_def INT_MAX_def)

section \<open>Applications\<close>

theorem Map_valid_maze_correct_witness:
  "Map_valid_maze sample_map = (Inr (), [Valid_msg])"
  using Map_valid_maze_correct [OF sample_octal] sample_consistent by simp

theorem Map_loader_wf_witness: "wf_map sample_map"
  using Map_loader_wf [of sample_file sample_map "[]"] sample_file_loads by (simp add: ret_def)

theorem Map_loader_tokens_witness:
  "Map_loader (file_text [(1, 10, []), (1, 10, []), (4, 10, []), (4, 10, [])]) =
     stop (Fault OutOfBounds)"
  using Map_loader_tokens [of 1 10 "[]" 1 10 "[]" "[(4, 10, []), (4, 10, [])]"]
  by (simp add: tok_ok_def isdigit_def INT_MAX_def)

theorem Map_print_load_witness:
  "fst (Map_print sample_map) = Inr () \<and> Map_loader (print_file sample_map) = ret sample_map"
  by (rule Map_print_load)
    (simp_all add: digit_map_def sample_map_def wf_map_def in_int_def INT_MIN_def INT_MAX_def isdigit_def)

theorem Map_solve_escapes_witness:
  "\<exists>path. Map_solve 19 sample_map 0 0 (Some LEFT) CHR ''l'' =
      Some (Inr (), map (\<lambda>(r, c). Coord (r + 1) (c + 1)) path) \<and> path \<noteq> []"
proof -
  have "inside sample_map 0 0" "open_side sample_map 0 0 LEFT" "\<not> inside sample_map 0 (0 - 1)"
      "nat (3 * (rows sample_map * cols sample_map)) < 19"
    by code_simp+
  from Map_solve_escapes [OF sample_octal sample_consistent _ this(1,2) _ this(3,4), of "CHR ''l''" RIGHT]
  show ?thesis by auto
qed

end
