(* ===== verification/Keyfilter.thy ===== *)
theory Keyfilter
  imports Stdlib
begin

text \<open>
  \<open>izp/projekt_1/keyfilter.c\<close>: a virtual keyboard. The program reads addresses from the
  standard input and says which letters can follow the prefix given as its argument. The
  buffers have the sizes of the code; the input is the list of its bytes.
\<close>

datatype key_event = Out string | Err string

type_synonym 'a key_io = "(key_event, 'a) io"

definition MAX_ADRESS_LENGTH :: int where "MAX_ADRESS_LENGTH = 101"
definition ERROR_TOO_LONG_LINE :: int where "ERROR_TOO_LONG_LINE = 1"
definition ERROR_TOO_LONG_SEARCH :: int where "ERROR_TOO_LONG_SEARCH = 2"

definition text_of :: "u8 list \<Rightarrow> string" where
  "text_of bs = map (\<lambda>b. char_of (unat b)) bs"

section \<open>Strings\<close>

text \<open>The comparison loop of \<open>is_substring\<close>, over the list of its indices.\<close>

primrec same_chars :: "u8 option list \<Rightarrow> u8 option list \<Rightarrow> int list \<Rightarrow> bool key_io" where
  "same_chars str1 str2 [] = ret True"
| "same_chars str1 str2 (i # is) =
     bind_io (arr_get str1 i) (\<lambda>a. bind_io (arr_get str2 i) (\<lambda>b.
       if a \<noteq> b then ret False else same_chars str1 str2 is))"

definition is_substring :: "u8 option list \<Rightarrow> u8 option list \<Rightarrow> bool key_io" where
  "is_substring str1 str2 =
     bind_io (strlen str1) (\<lambda>str1_length. bind_io (strlen str2) (\<lambda>str2_length.
       if str1_length > str2_length then ret False
       else if_io (if str1_length = 0 then ret True else bind_io (arr_get str1 0) (\<lambda>b. ret (b = 0)))
         (ret True)
         (same_chars str1 str2 [0..str1_length - 1])))"

function to_upper_from :: "u8 option list \<Rightarrow> int \<Rightarrow> u8 option list key_io" where
  "to_upper_from str i =
     bind_io (arr_get str i) (\<lambda>b.
       if b \<noteq> 0
       then bind_io (arr_set str i (toupper b)) (\<lambda>str'. to_upper_from str' (i + 1))
       else ret str)"
  by pat_completeness auto
termination
  by (relation "measure (\<lambda>(str, i). nat (int (length str) - i))")
    (auto simp: arr_get_def arr_set_def split: if_splits option.splits)

declare to_upper_from.simps [simp del]

definition to_upper :: "u8 option list \<Rightarrow> u8 option list key_io" where
  "to_upper str = to_upper_from str 0"

section \<open>Reading\<close>

text \<open>
  \<open>char c = getchar()\<close>: at the end of the input \<open>c\<close> is \<open>EOF\<close>, which is also what the byte
  0xFF gives.
\<close>

definition EOF :: u8 where "EOF = 255"

fun getchar :: "u8 list \<Rightarrow> u8 \<times> u8 list" where
  "getchar [] = (EOF, [])"
| "getchar (b # bs) = (b, bs)"

definition too_long_line :: string where
  "too_long_line = ''Error: Line from stdin is too long. Max length is 101.'' @ [CHR 0x0A]"

definition too_long_search :: string where
  "too_long_search = ''Error: Your search argument is too long. Max length is 101.'' @ [CHR 0x0A]"

function load_line_from ::
  "u8 option list \<Rightarrow> int \<Rightarrow> u8 \<Rightarrow> u8 list \<Rightarrow> (u8 option list \<times> u8 list) key_io" where
  "load_line_from store i c inp =
     (if c \<noteq> 10 \<and> c \<noteq> EOF \<and> c \<noteq> 0
      then if i > MAX_ADRESS_LENGTH
           then bind_io (emit (Err too_long_line)) (\<lambda>_. stop (Exit ERROR_TOO_LONG_LINE))
           else bind_io (arr_set store i (toupper c)) (\<lambda>store'.
                  load_line_from store' (i + 1) (fst (getchar inp)) (snd (getchar inp)))
      else bind_io (arr_set store i 0) (\<lambda>store'. ret (store', inp)))"
  by pat_completeness auto
termination
  by (relation "measure (\<lambda>(store, i, c, inp). nat (int (length store) - i))")
    (auto simp: arr_set_def split: if_splits)

declare load_line_from.simps [simp del]

definition load_line :: "u8 option list \<Rightarrow> u8 \<Rightarrow> u8 list \<Rightarrow> (u8 option list \<times> u8 list) key_io" where
  "load_line store c inp = load_line_from store 0 c inp"

section \<open>The letters\<close>

function remove_from :: "u8 option list \<Rightarrow> int \<Rightarrow> int \<Rightarrow> int \<Rightarrow> (u8 option list \<times> int) key_io" where
  "remove_from arr n i j =
     (if j < n
      then bind_io (arr_get arr i) (\<lambda>a. bind_io (arr_get arr j) (\<lambda>b.
             if a = b
             then bind_io (arr_get arr (n - 1)) (\<lambda>z. bind_io (arr_set arr j z) (\<lambda>arr'.
                    remove_from arr' (n - 1) i j))
             else remove_from arr n i (j + 1)))
      else ret (arr, n))"
  by pat_completeness auto
termination
  by (relation "measure (\<lambda>(arr, n, i, j). nat (n - j))") auto

declare remove_from.simps [simp del]

lemma remove_from_le: "remove_from arr n i j = (Inr (arr', n'), w) \<Longrightarrow> n' \<le> n"
proof (induction arr n i j arbitrary: w rule: remove_from.induct)
  case (1 arr n i j)
  note run = 1(3) [unfolded remove_from.simps [of arr n i j]]
  show ?case
  proof (cases "j < n")
    case True
    with run obtain a b where ab: "arr_get arr i = (Inr a, [] :: key_event list)" "arr_get arr j = (Inr b, [] :: key_event list)"
      by (auto simp: bind_ok_iff arr_get_ok_iff)
    show ?thesis
    proof (cases "a = b")
      case True
      with run ab \<open>j < n\<close> obtain z arr1 v where "arr_get arr (n - 1) = (Inr z, [] :: key_event list)"
          "arr_set arr j z = (Inr arr1, [] :: key_event list)" "remove_from arr1 (n - 1) i j = (Inr (arr', n'), v)"
        by (auto simp: bind_ok_iff arr_get_ok_iff arr_set_ok_iff)
      with 1(1) [of a b z arr1 v] True ab \<open>j < n\<close> show ?thesis by simp
    next
      case False
      with run ab \<open>j < n\<close> 1(2) [of a b w] show ?thesis by (simp add: bind_pair)
    qed
  next
    case False
    with run show ?thesis by simp
  qed
qed

function remove_all :: "u8 option list \<Rightarrow> int \<Rightarrow> int \<Rightarrow> (u8 option list \<times> int) key_io" where
  "remove_all arr n i =
     (if i < n
      then bind_io (remove_from arr n i (i + 1)) (\<lambda>(arr', n'). remove_all arr' n' (i + 1))
      else ret (arr, n))"
  by pat_completeness auto
termination
proof (relation "measure (\<lambda>(arr, n, i). nat (n - i))", goal_cases)
  case (2 arr n i x arr' n')
  then have "n' \<le> n"
    using remove_from_le by (metis prod.collapse)
  with 2 show ?case by simp
qed simp

declare remove_all.simps [simp del]

definition remove_duplicates :: "u8 option list \<Rightarrow> int \<Rightarrow> (u8 option list \<times> int) key_io" where
  "remove_duplicates arr n = remove_all arr n 0"

primrec sort_inner :: "int \<Rightarrow> int list \<Rightarrow> u8 option list \<Rightarrow> u8 option list key_io" where
  "sort_inner i [] chars = ret chars"
| "sort_inner i (j # js) chars =
     bind_io (arr_get chars i) (\<lambda>a. bind_io (arr_get chars j) (\<lambda>b.
       bind_io
         (if sint a > sint b
          then bind_io (arr_set chars j a) (\<lambda>chars'. arr_set chars' i b)
          else ret chars)
         (sort_inner i js)))"

primrec sort_outer :: "int \<Rightarrow> int list \<Rightarrow> u8 option list \<Rightarrow> u8 option list key_io" where
  "sort_outer len [] chars = ret chars"
| "sort_outer len (i # is) chars =
     bind_io (sort_inner i [i + 1..len - 1] chars) (sort_outer len is)"

definition sort_chars :: "u8 option list \<Rightarrow> int \<Rightarrow> u8 option list key_io" where
  "sort_chars chars len = sort_outer len [0..len - 1 - 1] chars"

section \<open>The answer\<close>

function str_bytes :: "u8 option list \<Rightarrow> int \<Rightarrow> u8 list key_io" where
  "str_bytes buf i =
     bind_io (arr_get buf i) (\<lambda>b.
       if b = 0 then ret [] else bind_io (str_bytes buf (i + 1)) (\<lambda>bs. ret (b # bs)))"
  by pat_completeness auto
termination
  by (relation "measure (\<lambda>(buf, i). nat (int (length buf) - i))")
    (auto simp: arr_get_def split: if_splits option.splits)

declare str_bytes.simps [simp del]

primrec putchars :: "u8 option list \<Rightarrow> int list \<Rightarrow> unit key_io" where
  "putchars arr [] = ret ()"
| "putchars arr (i # is) =
     bind_io (arr_get arr i) (\<lambda>b. bind_io (emit (Out (text_of [b]))) (\<lambda>_. putchars arr is))"

definition print_result :: "int \<Rightarrow> u8 option list \<Rightarrow> u8 option list \<Rightarrow> unit key_io" where
  "print_result n allowed found =
     (if n = 0 then emit (Out (''Not found'' @ [CHR 0x0A]))
      else if n = 1
      then bind_io (str_bytes found 0) (\<lambda>bs. emit (Out (''Found: '' @ text_of bs @ [CHR 0x0A])))
      else
        bind_io (emit (Out ''Enable: '')) (\<lambda>_.
        bind_io (remove_duplicates allowed n) (\<lambda>(allowed, n).
        bind_io (sort_chars allowed n) (\<lambda>allowed.
        bind_io (putchars allowed [0..n - 1]) (\<lambda>_. emit (Out [CHR 0x0A]))))))"

section \<open>The program\<close>

lemma getchar_length: "length (snd (getchar inp)) = length inp - 1"
  by (cases inp) auto

lemma load_line_from_length:
  "load_line_from store i c inp = (Inr (store', rest), w) \<Longrightarrow> length rest \<le> length inp"
proof (induction store i c inp arbitrary: w rule: load_line_from.induct)
  case (1 store i c inp)
  note run = 1(2) [unfolded load_line_from.simps [of store i c inp]]
  show ?case
  proof (cases "c \<noteq> 10 \<and> c \<noteq> EOF \<and> c \<noteq> 0")
    case True
    with run obtain store1 v where "\<not> i > MAX_ADRESS_LENGTH"
        "arr_set store i (toupper c) = (Inr store1, [] :: key_event list)"
        "load_line_from store1 (i + 1) (fst (getchar inp)) (snd (getchar inp)) = (Inr (store', rest), v)"
      by (auto simp: bind_ok_iff arr_set_ok_iff split: if_splits)
    with 1(1) [of store1 v] True show ?thesis by (simp add: getchar_length)
  next
    case False
    with run show ?thesis by (auto simp: bind_ok_iff)
  qed
qed

type_synonym key_state = "u8 option list \<times> int \<times> u8 option list"

text \<open>One iteration of the loop of \<open>main\<close>; \<open>temp_address\<close> is a new array each time.\<close>

definition address_step ::
  "u8 option list \<Rightarrow> u8 \<Rightarrow> u8 list \<Rightarrow> key_state \<Rightarrow> (key_state \<times> u8 list) key_io" where
  "address_step search c inp = (\<lambda>(allowed, n, found).
     bind_io (load_line (replicate (nat MAX_ADRESS_LENGTH) None) c inp) (\<lambda>(temp, rest).
     if_io (is_substring search temp)
       (bind_io (strlen search) (\<lambda>search_length.
        bind_io (arr_get temp search_length) (\<lambda>b.
        bind_io (arr_set allowed n b) (\<lambda>allowed'.
        bind_io (strcpy found temp) (\<lambda>found'. ret ((allowed', n + 1, found'), rest))))))
       (ret ((allowed, n, found), rest))))"

lemma address_step_length:
  "address_step search c inp st = (Inr (st', rest), w) \<Longrightarrow> length rest \<le> length inp"
  by (cases st)
    (auto simp: address_step_def load_line_def bind_ok_iff if_io_def split: if_splits
      dest!: load_line_from_length)

function read_addresses ::
  "u8 option list \<Rightarrow> u8 \<Rightarrow> u8 list \<Rightarrow> key_state \<Rightarrow> key_state key_io" where
  "read_addresses search c inp st =
     (if c \<noteq> EOF
      then bind_io (address_step search c inp st) (\<lambda>(st', rest).
             read_addresses search (fst (getchar rest)) (snd (getchar rest)) st')
      else ret st)"
  by pat_completeness auto
termination
proof (relation "measure (\<lambda>(search, c, inp, st). length inp + (if c = EOF then 0 else 1))", goal_cases)
  case (2 search c inp st x st' rest)
  then have "length rest \<le> length inp"
    using address_step_length by (metis prod.collapse)
  with 2 show ?case by (cases rest) auto
qed simp

declare read_addresses.simps [simp del]

definition keyfilter_main :: "u8 list list \<Rightarrow> u8 list \<Rightarrow> int key_io" where
  "keyfilter_main argv inp =
     (let run = (\<lambda>search.
        bind_io (to_upper search) (\<lambda>search.
        bind_io (read_addresses search (fst (getchar inp)) (snd (getchar inp))
                   (replicate 26 None, 0, replicate (nat MAX_ADRESS_LENGTH) None)) (\<lambda>(allowed, n, found).
        bind_io (print_result n allowed found) (\<lambda>_. ret 0))));
          empty = replicate (nat MAX_ADRESS_LENGTH) None
      in
        if length argv \<ge> 2
        then if int (length (argv ! 1)) > MAX_ADRESS_LENGTH
             then bind_io (emit (Err too_long_search)) (\<lambda>_. ret ERROR_TOO_LONG_SEARCH)
             else bind_io (strcpy empty (cstr (argv ! 1))) run
        else bind_io (strcpy empty (cstr [])) run)"

end
