(* ===== verification/Keyfilter_Letters.thy ===== *)
theory Keyfilter_Letters
  imports Keyfilter
begin

text \<open>
  The two in-place array algorithms of \<open>keyfilter.c\<close>, read as functions on the list of the
  first elements of the array: \<open>sort_chars\<close> permutes and sorts, \<open>remove_duplicates\<close> keeps
  the set of elements and leaves no two equal.
\<close>

section \<open>Arrays with a list in front\<close>

lemma front_get [simp]:
  "k < length xs \<Longrightarrow> arr_get (map Some xs @ rest) (int k) = ret (xs ! k)"
  by (auto simp: nth_append intro!: arr_get_ok)

lemma front_set [simp]:
  "k < length xs \<Longrightarrow> arr_set (map Some xs @ rest) (int k) x = ret (map Some (xs[k := x]) @ rest)"
  by (simp add: arr_set_def list_update_append map_update)

lemma upto_from: "[int i..int n - 1] = map int [i..<n]"
  by (rule nth_equalityI) (auto simp: nth_upto nth_append)

section \<open>Sorting\<close>

definition exchange :: "nat \<Rightarrow> nat \<Rightarrow> u8 list \<Rightarrow> u8 list" where
  "exchange i j xs = (if sint (xs ! i) > sint (xs ! j) then xs[j := xs ! i, i := xs ! j] else xs)"

lemma exchange_simps [simp]:
  assumes "i < length xs" and "j < length xs"
  shows "length (exchange i j xs) = length xs" and "mset (exchange i j xs) = mset xs"
  using assms by (simp_all add: exchange_def mset_swap)

lemma exchange_nth:
  assumes "i < j" and "j < length xs" and "k < length xs"
  shows "exchange i j xs ! k =
    (if k = i then (if sint (xs ! i) > sint (xs ! j) then xs ! j else xs ! i)
     else if k = j then (if sint (xs ! i) > sint (xs ! j) then xs ! i else xs ! j) else xs ! k)"
  using assms by (auto simp: exchange_def nth_list_update)

lemma exchange_step:
  assumes "i < length xs" and "j < length xs"
  shows "bind_io
      (if sint (xs ! i) > sint (xs ! j)
       then bind_io (arr_set (map Some xs @ rest) (int j) (xs ! i)) (\<lambda>chars'. arr_set chars' (int i) (xs ! j))
       else ret (map Some xs @ rest)) f = f (map Some (exchange i j xs) @ rest)"
  using assms by (simp add: exchange_def del: arr_set_ok)

lemma sort_inner_exchange:
  assumes "i < length xs" and "\<forall>j \<in> set js. j < length xs"
  shows "sort_inner (int i) (map int js) (map Some xs @ rest) =
    ret (map Some (fold (exchange i) js xs) @ rest)"
  using assms
proof (induction js arbitrary: xs)
  case (Cons j js)
  then have "sort_inner (int i) (map int js) (map Some (exchange i j xs) @ rest) =
      ret (map Some (fold (exchange i) js (exchange i j xs)) @ rest)"
    by (intro Cons.IH) simp_all
  with Cons.prems show ?case
    by (simp add: exchange_step del: arr_set_ok)
qed simp

text \<open>
  After the inner loop up to \<open>n\<close>, the elements before \<open>i\<close> are as they were, and none up to
  \<open>n\<close> is smaller than the one at \<open>i\<close>.
\<close>

lemma fold_exchange:
  assumes "i < length xs" and "n \<le> length xs"
  shows "length (fold (exchange i) [Suc i..<n] xs) = length xs \<and>
    mset (fold (exchange i) [Suc i..<n] xs) = mset xs \<and>
    (\<forall>k < i. fold (exchange i) [Suc i..<n] xs ! k = xs ! k) \<and>
    (\<forall>k. i < k \<and> k < n \<longrightarrow>
       sint (fold (exchange i) [Suc i..<n] xs ! i) \<le> sint (fold (exchange i) [Suc i..<n] xs ! k))"
  using assms(2)
proof (induction n)
  case (Suc n)
  show ?case
  proof (cases "Suc i \<le> n")
    case True
    let ?ys = "fold (exchange i) [Suc i..<n] xs"
    have IH: "length ?ys = length xs" "mset ?ys = mset xs" "\<forall>k < i. ?ys ! k = xs ! k"
        "\<forall>k. i < k \<and> k < n \<longrightarrow> sint (?ys ! i) \<le> sint (?ys ! k)"
      using Suc by simp_all
    have lt: "i < n" "n < length ?ys" using True IH(1) Suc.prems by simp_all
    have ex: "exchange i n ?ys ! k =
       (if k = i then (if sint (?ys ! i) > sint (?ys ! n) then ?ys ! n else ?ys ! i)
        else if k = n then (if sint (?ys ! i) > sint (?ys ! n) then ?ys ! i else ?ys ! n) else ?ys ! k)"
      if "k < length ?ys" for k
      using exchange_nth [OF lt that] .
    have "sint (exchange i n ?ys ! i) \<le> sint (exchange i n ?ys ! k)" if "i < k" "k < Suc n" for k
      using IH(4) that lt ex [of i] ex [of k] by (cases "k = n") fastforce+
    moreover have "exchange i n ?ys ! k = xs ! k" if "k < i" for k
      using IH(3) that lt ex [of k] by simp
    ultimately show ?thesis
      using True IH(1,2) lt by simp
  next
    case False
    then show ?thesis by simp
  qed
qed simp

definition low :: "nat \<Rightarrow> u8 list \<Rightarrow> bool" where
  "low i xs \<longleftrightarrow> (\<forall>a b. a < i \<and> a < b \<and> b < length xs \<longrightarrow> sint (xs ! a) \<le> sint (xs ! b))"

lemma low_next:
  assumes "low i xs" and "i < length xs"
  shows "low (Suc i) (fold (exchange i) [Suc i..<length xs] xs)"
    and "mset (fold (exchange i) [Suc i..<length xs] xs) = mset xs"
proof -
  let ?ys = "fold (exchange i) [Suc i..<length xs] xs"
  have ys: "length ?ys = length xs" "mset ?ys = mset xs" "\<forall>k < i. ?ys ! k = xs ! k"
      "\<forall>k. i < k \<and> k < length xs \<longrightarrow> sint (?ys ! i) \<le> sint (?ys ! k)"
    using fold_exchange [OF assms(2) order_refl] by simp_all
  then show "mset ?ys = mset xs" by simp
  have take: "take i ?ys = take i xs"
    using ys(1,3) assms(2) by (intro nth_equalityI) simp_all
  have "mset (take i ?ys) + mset (drop i ?ys) = mset (take i xs) + mset (drop i xs)"
    using ys(2) by (metis append_take_drop_id mset_append)
  then have set: "set (drop i ?ys) = set (drop i xs)"
    using take by (metis add_left_cancel mset_eq_setD)
  have old: "sint (?ys ! a) \<le> sint (?ys ! b)" if "a < i" "a < b" "b < length ?ys" for a b
  proof (cases "b < i")
    case True
    with that assms ys show ?thesis by (simp add: low_def)
  next
    case False
    then have "drop i ?ys ! (b - i) \<in> set (drop i ?ys)" using that by (intro nth_mem) simp
    then have "?ys ! b \<in> set (drop i xs)" using that False unfolding set by simp
    then obtain k where "k < length xs - i" "?ys ! b = xs ! (i + k)"
      by (auto simp: in_set_conv_nth)
    with that assms ys(3) show ?thesis by (simp add: low_def)
  qed
  with ys show "low (Suc i) ?ys" unfolding low_def by (metis less_Suc_eq)
qed

lemma sort_outer_low:
  assumes "low i xs" and "i \<le> length xs"
  shows "\<exists>ys. sort_outer (int (length xs)) (map int [i..<length xs - 1]) (map Some xs @ rest) =
           ret (map Some ys @ rest) \<and> mset ys = mset xs \<and> low (max i (length xs - 1)) ys"
  using assms
proof (induction "length xs - 1 - i" arbitrary: i xs)
  case 0
  then have "max i (length xs - 1) = i" by simp
  with 0 show ?case by (intro exI [of _ xs]) simp
next
  case (Suc n)
  let ?ys = "fold (exchange i) [Suc i..<length xs] xs"
  have i: "i < length xs" using Suc by simp
  have up: "[i..<length xs - 1] = i # [Suc i..<length xs - 1]" using Suc.hyps(2) by (simp add: upt_conv_Cons)
  have len: "length ?ys = length xs" using low_next(2) [OF Suc.prems(1) i] by (metis size_mset)
  have inner: "sort_inner (int i) [int i + 1..int (length xs) - 1] (map Some xs @ rest) =
      ret (map Some ?ys @ rest)"
    using sort_inner_exchange [OF i, of "[Suc i..<length xs]"] upto_from [of "Suc i" "length xs"]
    by (simp add: add.commute)
  from Suc.hyps(1) [OF _ low_next(1) [OF Suc.prems(1) i]] Suc.hyps(2) len i obtain zs where
    zs: "sort_outer (int (length xs)) (map int [Suc i..<length xs - 1]) (map Some ?ys @ rest) =
       ret (map Some zs @ rest)" "mset zs = mset ?ys" "low (max (Suc i) (length xs - 1)) zs"
    by force
  have "max (Suc i) (length xs - 1) = max i (length xs - 1)" using Suc.hyps(2) by simp
  with zs low_next(2) [OF Suc.prems(1) i] inner show ?case unfolding up by auto
qed

lemma sort_chars_list:
  "\<exists>ys. sort_chars (map Some xs @ rest) (int (length xs)) = ret (map Some ys @ rest) \<and>
        mset ys = mset xs \<and> sorted (map sint ys)"
proof (cases "xs = []")
  case True
  then show ?thesis by (simp add: sort_chars_def)
next
  case False
  have "low 0 xs" by (simp add: low_def)
  from sort_outer_low [OF this] obtain ys where
    ys: "sort_outer (int (length xs)) (map int [0..<length xs - 1]) (map Some xs @ rest) = ret (map Some ys @ rest)"
      "mset ys = mset xs" "low (length xs - 1) ys"
    by auto
  have "length ys = length xs" using ys(2) by (metis size_mset)
  with ys(3) have "sorted (map sint ys)"
    by (auto simp: low_def sorted_iff_nth_Suc)
  moreover have "[0..int (length xs) - 1 - 1] = map int [0..<length xs - 1]"
    using upto_from [of 0 "length xs - 1"] False by (simp add: of_nat_diff Suc_leI)
  ultimately show ?thesis using ys by (auto simp: sort_chars_def)
qed

section \<open>Removing duplicates\<close>

text \<open>
  An element equal to the one at \<open>i\<close> is overwritten with the last one, and the array is one
  element shorter.
\<close>

definition overwrite :: "nat \<Rightarrow> u8 list \<Rightarrow> u8 list" where
  "overwrite j xs = butlast (xs[j := List.last xs])"

lemma overwrite_simps:
  assumes "j < length xs"
  shows "length (overwrite j xs) = length xs - 1"
    and "k < j \<Longrightarrow> overwrite j xs ! k = xs ! k"
    and "k < length xs - 1 \<Longrightarrow> overwrite j xs ! k = (if k = j then List.last xs else xs ! k)"
  using assms by (auto simp: overwrite_def nth_butlast nth_list_update)

lemma overwrite_step:
  assumes "j < length xs"
  shows "\<exists>rest'. bind_io (arr_get (map Some xs @ rest) (int (length xs) - 1)) (\<lambda>z.
           bind_io (arr_set (map Some xs @ rest) (int j) z) f) = f (map Some (overwrite j xs) @ rest')"
proof -
  have ne: "xs \<noteq> []" using assms by auto
  have n: "int (length xs) - 1 = int (length xs - 1)" and lt: "length xs - 1 < length xs"
    using assms by simp_all
  have get: "arr_get (map Some xs @ rest) (int (length xs) - 1) = ret (List.last xs)"
    unfolding n front_get [OF lt] by (simp add: last_conv_nth ne)
  have "List.last (xs[j := List.last xs]) = List.last xs"
    using ne by (simp add: last_list_update)
  then have "xs[j := List.last xs] = overwrite j xs @ [List.last xs]"
    using ne append_butlast_last_id [of "xs[j := List.last xs]"] by (simp add: overwrite_def)
  then have eq: "map Some (xs[j := List.last xs]) @ rest = map Some (overwrite j xs) @ Some (List.last xs) # rest"
    by simp
  show ?thesis
    unfolding get bind_ret front_set [OF assms] eq by (rule exI) (rule refl)
qed

text \<open>One run of the inner loop at \<open>i\<close>, from \<open>j\<close> on.\<close>

lemma overwrite_set:
  assumes "i < j" and "j < length xs" and "xs ! j = xs ! i"
  shows "set (overwrite j xs) = set xs"
    and "set (drop (Suc i) (overwrite j xs)) \<subseteq> set (drop (Suc i) xs)"
proof -
  have in_drop: "xs ! k \<in> set (drop (Suc i) xs)" if "i < k" "k < length xs" for k
    using that by (auto simp: in_set_conv_nth intro!: exI [of _ "k - Suc i"])
  have last: "List.last xs = xs ! (length xs - 1)" using assms by (intro last_conv_nth) auto
  show "set (drop (Suc i) (overwrite j xs)) \<subseteq> set (drop (Suc i) xs)"
  proof
    fix x assume "x \<in> set (drop (Suc i) (overwrite j xs))"
    then obtain l where "l < length xs - 1 - Suc i" "x = overwrite j xs ! (Suc i + l)"
      using overwrite_simps(1) [OF assms(2)] by (auto simp: in_set_conv_nth)
    then obtain k where k: "k < length xs - 1" "i < k" "x = overwrite j xs ! k"
      by (intro that [of "Suc i + l"]) auto
    then show "x \<in> set (drop (Suc i) xs)"
      using overwrite_simps(3) [OF assms(2) k(1)] in_drop [of k] in_drop [of "length xs - 1"] assms last
      by auto
  qed
  show "set (overwrite j xs) = set xs"
  proof (intro equalityI subsetI)
    fix x assume "x \<in> set (overwrite j xs)"
    then obtain k where "k < length xs - 1" "x = overwrite j xs ! k"
      using overwrite_simps(1) [OF assms(2)] by (auto simp: in_set_conv_nth)
    then show "x \<in> set xs" using overwrite_simps(3) [OF assms(2)] last assms by auto
  next
    fix x assume "x \<in> set xs"
    then obtain k where k: "k < length xs" "x = xs ! k" by (auto simp: in_set_conv_nth)
    let ?n = "length xs - 1"
    obtain l where "l < ?n" "overwrite j xs ! l = x"
    proof (cases "k = j")
      case True
      then have "overwrite j xs ! i = x" "i < ?n"
        using k assms overwrite_simps(2) [OF assms(2,1)] by simp_all
      then show ?thesis using that by blast
    next
      case False
      show ?thesis
      proof (cases "k = ?n")
        case True
        then have "j < ?n" using False assms(2) by simp
        with True overwrite_simps(3) [OF assms(2) this] k last show ?thesis by (intro that [of j]) simp_all
      next
        case kn: False
        then have "k < ?n" using k by simp
        with False overwrite_simps(3) [OF assms(2) this] k show ?thesis by (intro that [of k]) simp_all
      qed
    qed
    then show "x \<in> set (overwrite j xs)"
      using overwrite_simps(1) [OF assms(2)] by (metis nth_mem)
  qed
qed

lemma remove_from_list:
  assumes "i < j" and "j \<le> length xs" and "i < length xs" and "\<forall>k. i < k \<and> k < j \<longrightarrow> xs ! k \<noteq> xs ! i"
  shows "\<exists>ys rest'. remove_from (map Some xs @ rest) (int (length xs)) (int i) (int j) =
           ret (map Some ys @ rest', int (length ys)) \<and>
           set ys = set xs \<and> take (Suc i) ys = take (Suc i) xs \<and> i < length ys \<and> length ys \<le> length xs \<and>
           set (drop (Suc i) ys) \<subseteq> set (drop (Suc i) xs) \<and> xs ! i \<notin> set (drop (Suc i) ys)"
  using assms
proof (induction "length xs - j" arbitrary: xs j rest)
  case 0
  then have "xs ! i \<notin> set (drop (Suc i) xs)"
    by (auto simp: in_set_conv_nth)
  with 0 show ?case
    by (intro exI [of _ xs] exI [of _ rest]) (simp add: remove_from.simps)
next
  case (Suc n)
  have j: "j < length xs" using Suc.hyps(2) by simp
  show ?case
  proof (cases "xs ! i = xs ! j")
    case False
    have "\<forall>k. i < k \<and> k < Suc j \<longrightarrow> xs ! k \<noteq> xs ! i"
      using Suc.prems(4) False by (auto simp: less_Suc_eq)
    moreover have "remove_from (map Some xs @ rest) (int (length xs)) (int i) (int j) =
        remove_from (map Some xs @ rest) (int (length xs)) (int i) (int (Suc j))"
      using j Suc.prems(3) False by (subst remove_from.simps) (simp add: add.commute)
    ultimately show ?thesis
      using Suc.hyps(1) [of xs "Suc j" rest] Suc.hyps(2) Suc.prems j by simp
  next
    case True
    let ?ys = "overwrite j xs"
    have len: "length ?ys = length xs - 1" and old: "\<forall>k < j. ?ys ! k = xs ! k"
      using overwrite_simps [OF j] by simp_all
    have "remove_from (map Some xs @ rest) (int (length xs)) (int i) (int j) =
        bind_io (arr_get (map Some xs @ rest) (int (length xs) - 1)) (\<lambda>z.
        bind_io (arr_set (map Some xs @ rest) (int j) z) (\<lambda>arr.
          remove_from arr (int (length xs) - 1) (int i) (int j)))"
      using j Suc.prems(3) True by (subst remove_from.simps) (simp del: arr_set_ok arr_get_ok)
    then obtain rest' where "remove_from (map Some xs @ rest) (int (length xs)) (int i) (int j) =
        remove_from (map Some ?ys @ rest') (int (length xs) - 1) (int i) (int j)"
      using overwrite_step [OF j, of rest "\<lambda>arr. remove_from arr (int (length xs) - 1) (int i) (int j)"]
      by auto
    moreover have "int (length xs) - 1 = int (length ?ys)" using len j by simp
    moreover have "take (Suc i) ?ys = take (Suc i) xs"
      using old len Suc.prems j by (intro nth_equalityI) auto
    moreover have "?ys ! i = xs ! i" "\<forall>k. i < k \<and> k < j \<longrightarrow> ?ys ! k \<noteq> ?ys ! i"
      using old Suc.prems by simp_all
    moreover have "n = length ?ys - j" "j \<le> length ?ys" "i < length ?ys"
      using Suc.hyps(2) len j Suc.prems by simp_all
    ultimately show ?thesis
      using Suc.hyps(1) [of ?ys j rest'] Suc.prems(1) overwrite_set [OF Suc.prems(1) j True [symmetric]] len
      by (smt (verit) diff_le_self order_trans subset_trans)
  qed
qed

lemma remove_all_list:
  assumes "distinct (take i xs)" and "set (take i xs) \<inter> set (drop i xs) = {}"
  shows "\<exists>ys rest'. remove_all (map Some xs @ rest) (int (length xs)) (int i) =
           ret (map Some ys @ rest', int (length ys)) \<and> set ys = set xs \<and> distinct ys"
  using assms
proof (induction "length xs - i" arbitrary: xs i rest rule: less_induct)
  case less
  show ?case
  proof (cases "i < length xs")
    case False
    with less.prems show ?thesis
      by (intro exI [of _ xs] exI [of _ rest]) (simp add: remove_all.simps)
  next
    case True
    from remove_from_list [of i "Suc i" xs rest] True obtain ys rest' where
      ys: "remove_from (map Some xs @ rest) (int (length xs)) (int i) (int (Suc i)) =
         ret (map Some ys @ rest', int (length ys))"
        "set ys = set xs" "take (Suc i) ys = take (Suc i) xs" "i < length ys" "length ys \<le> length xs"
        "set (drop (Suc i) ys) \<subseteq> set (drop (Suc i) xs)" "xs ! i \<notin> set (drop (Suc i) ys)"
      by force
    have up: "take (Suc i) xs = take i xs @ [xs ! i]" "drop i xs = xs ! i # drop (Suc i) xs"
      using True by (simp_all add: take_Suc_conv_app_nth Cons_nth_drop_Suc)
    have "distinct (take (Suc i) ys)" "set (take (Suc i) ys) \<inter> set (drop (Suc i) ys) = {}"
      using less.prems ys(3,6,7) unfolding up by auto
    from less.hyps [OF _ this] ys(4,5) obtain zs rest'' where
      "remove_all (map Some ys @ rest') (int (length ys)) (int (Suc i)) = ret (map Some zs @ rest'', int (length zs))"
      "set zs = set ys" "distinct zs"
      by (metis True Suc_diff_Suc diff_le_mono less_Suc_eq_le)
    with ys(1,2) True show ?thesis
      by (intro exI [of _ zs] exI [of _ rest'']) (subst remove_all.simps, simp add: add.commute)
  qed
qed

lemma remove_duplicates_list:
  "\<exists>ys rest'. remove_duplicates (map Some xs @ rest) (int (length xs)) =
     ret (map Some ys @ rest', int (length ys)) \<and> set ys = set xs \<and> distinct ys"
  using remove_all_list [of 0 xs rest] by (simp add: remove_duplicates_def)

end
