(* ===== verification/Keyfilter_Main.thy ===== *)
theory Keyfilter_Main
  imports Keyfilter_Letters "HOL-Library.Sublist"
begin

text \<open>
  What \<open>keyfilter.c\<close> answers: the input is read as a list of lines, the addresses that have the
  upper-cased argument as a prefix are the matches, and the letters behind the prefix are
  printed in order without repetition.
\<close>

section \<open>Strings\<close>

lemma same_chars_lists:
  assumes "holds str1 a" and "holds str2 b" and "\<forall>i \<in> set is. i < length a \<and> i < length b"
  shows "same_chars str1 str2 (map int is) = ret (\<forall>i \<in> set is. a ! i = b ! i)"
  using assms(3)
  by (induction "is") (auto simp: holds_get [OF assms(1)] holds_get [OF assms(2)])

lemma is_substring_holds:
  assumes "holds str1 a" and "holds str2 b"
  shows "is_substring str1 str2 = ret (prefix a b)"
proof (cases "length a \<le> length b")
  case True
  have "prefix a b \<longleftrightarrow> (\<forall>i \<in> set [0..<length a]. a ! i = b ! i)"
  proof -
    have "prefix a b \<longleftrightarrow> take (length a) b = a"
      by (metis append_eq_conv_conj prefix_def)
    also have "\<dots> \<longleftrightarrow> (\<forall>i \<in> set [0..<length a]. a ! i = b ! i)"
    proof
      assume t: "take (length a) b = a"
      show "\<forall>i \<in> set [0..<length a]. a ! i = b ! i"
        by (subst t [symmetric]) simp
    next
      assume "\<forall>i \<in> set [0..<length a]. a ! i = b ! i"
      then show "take (length a) b = a"
        using True by (intro nth_equalityI) simp_all
    qed
    finally show ?thesis .
  qed
  moreover have "same_chars str1 str2 [0..int (length a) - 1] = ret (\<forall>i \<in> set [0..<length a]. a ! i = b ! i)"
    unfolding upto_int by (rule same_chars_lists [OF assms]) (use True in simp)
  moreover have "(if int (length a) = 0 then ret True else bind_io (arr_get str1 0) (\<lambda>b. ret (b = 0))) =
      (ret (a = []) :: bool key_io)"
  proof (cases "a = []")
    case False
    then have "a ! 0 \<in> set a" by simp
    then have "a ! 0 \<noteq> 0" using assms(1) unfolding holds_def by metis
    moreover have "arr_get str1 0 = (ret (a ! 0) :: u8 key_io)"
      by (rule holds_get(1) [OF assms(1), of 0, simplified]) (use False in simp)
    ultimately show ?thesis using False by simp
  qed simp
  ultimately show ?thesis
    using True by (auto simp: is_substring_def strlen_holds [OF assms(1)] strlen_holds [OF assms(2)])
next
  case False
  then have "\<not> prefix a b" by (auto dest: prefix_length_le)
  with False show ?thesis
    by (simp add: is_substring_def strlen_holds [OF assms(1)] strlen_holds [OF assms(2)])
qed

lemma toupper_nonzero: "toupper b = 0 \<longleftrightarrow> b = 0"
proof
  assume z: "toupper b = 0"
  show "b = 0"
  proof (rule ccontr)
    assume "b \<noteq> 0"
    with z have "b = 32" "97 \<le> uint b" by (auto simp: toupper_def split: if_splits)
    then show False by simp
  qed
qed (simp add: toupper_def)

lemma upper_nonzero: "0 \<notin> set s \<Longrightarrow> 0 \<notin> set (map toupper s)"
  by (force simp: toupper_nonzero)

lemma to_upper_cstr:
  assumes "0 \<notin> set s"
  shows "to_upper (cstr s @ rest) = ret (cstr (map toupper s) @ rest)"
proof -
  have "to_upper_from (map Some t @ cstr s @ rest) (int (length t)) =
      ret (map Some t @ cstr (map toupper s) @ rest)" for t
    using assms
  proof (induction s arbitrary: t)
    case Nil
    then show ?case by (subst to_upper_from.simps) (simp add: cstr_def nth_append)
  next
    case (Cons b s)
    from Cons.IH [of "t @ [toupper b]"] Cons.prems show ?case
      by (subst to_upper_from.simps) (auto simp: cstr_def nth_append list_update_append add.commute)
  qed
  from this [of "[]"] show ?thesis by (simp add: to_upper_def)
qed

section \<open>Lines\<close>

definition line_ok :: "u8 list \<Rightarrow> bool" where
  "line_ok l \<longleftrightarrow> 0 \<notin> set l \<and> 10 \<notin> set l \<and> EOF \<notin> set l"

text \<open>One line: the first character is already read.\<close>

lemma load_line_text:
  assumes "line_ok l" and "length t = 101"
  shows "load_line t (fst (getchar (l @ 10 # inp))) (snd (getchar (l @ 10 # inp))) =
    (if length l \<le> 100
     then ret (cstr (map toupper l) @ drop (Suc (length l)) t, inp)
     else stop (Fault OutOfBounds))"
proof -
  have "length s \<le> length t \<Longrightarrow>
    load_line_from (map Some s @ drop (length s) t) (int (length s))
       (fst (getchar (l @ 10 # inp))) (snd (getchar (l @ 10 # inp))) =
    (if length s + length l < length t
     then ret (map Some s @ cstr (map toupper l) @ drop (Suc (length s + length l)) t, inp)
     else stop (Fault OutOfBounds))" for s
    using assms(1)
  proof (induction l arbitrary: s)
    case Nil
    show ?case
      by (subst load_line_from.simps)
        (auto simp: cstr_def EOF_def arr_set_def list_update_append Cons_nth_drop_Suc [symmetric])
  next
    case (Cons b l)
    then have b: "b \<noteq> 10" "b \<noteq> EOF" "b \<noteq> 0" "line_ok l" by (auto simp: line_ok_def)
    have small: "\<not> int (length s) > MAX_ADRESS_LENGTH"
      using Cons.prems assms(2) by (simp add: MAX_ADRESS_LENGTH_def)
    show ?case
    proof (cases "length s < length t")
      case True
      then have d: "drop (length s) t = t ! length s # drop (Suc (length s)) t"
        by (simp add: Cons_nth_drop_Suc)
      have "load_line_from (map Some s @ drop (length s) t) (int (length s)) b (l @ 10 # inp) =
          load_line_from (map Some (s @ [toupper b]) @ drop (length (s @ [toupper b])) t)
            (int (length (s @ [toupper b]))) (fst (getchar (l @ 10 # inp))) (snd (getchar (l @ 10 # inp)))"
        using b small True d by (subst load_line_from.simps) (simp add: arr_set_def list_update_append add.commute)
      with Cons.IH [of "s @ [toupper b]"] True b(4) show ?thesis
        by (simp add: cstr_def)
    next
      case False
      with Cons.prems have "length s = length t" by simp
      with b small show ?thesis
        by (subst load_line_from.simps) (simp add: arr_set_def)
    qed
  qed
  from this [of "[]"] show ?thesis by (simp add: load_line_def assms(2))
qed

text \<open>The message about a line that is too long is never printed: the write before it faults.\<close>

lemma load_line_no_exit:
  assumes "length t = 101"
  shows "fst (load_line t c inp) \<noteq> Inl (Exit n) \<and> snd (load_line t c inp) = []"
proof -
  have "fst (load_line_from t i c inp) \<noteq> Inl (Exit n) \<and> snd (load_line_from t i c inp) = []"
    if "length t = 101" "i \<le> 101" for i
    using that
  proof (induction t i c inp rule: load_line_from.induct)
    case (1 store i c inp)
    show ?case
    proof (cases "0 \<le> i \<and> i < 101")
      case True
      with 1 show ?thesis
        by (subst (1 2) load_line_from.simps) (simp add: MAX_ADRESS_LENGTH_def)
    next
      case False
      with 1(2) show ?thesis
        by (subst (1 2) load_line_from.simps) (use 1(3) in \<open>auto simp: MAX_ADRESS_LENGTH_def\<close>)
    qed
  qed
  from this [OF assms, of 0] show ?thesis by (simp add: load_line_def)
qed

section \<open>The loop over the addresses\<close>

definition text_lines :: "u8 list list \<Rightarrow> u8 list" where
  "text_lines ls = concat (map (\<lambda>l. l @ [10]) ls)"

definition matches :: "u8 list \<Rightarrow> u8 list list \<Rightarrow> u8 list list" where
  "matches s ls = filter (prefix s) (map (map toupper) ls)"

text \<open>The character behind the prefix, which is the terminating zero for the prefix itself.\<close>

definition next_letter :: "u8 list \<Rightarrow> u8 list \<Rightarrow> u8" where
  "next_letter s m = (if length s < length m then m ! length s else 0)"

lemma address_step_line:
  assumes "line_ok l" and "holds search s" and "length found = 101"
  shows "address_step search (fst (getchar (l @ 10 # inp))) (snd (getchar (l @ 10 # inp)))
      (map Some as @ rest, int (length as), found) =
    (if 100 < length l then stop (Fault OutOfBounds)
     else if \<not> prefix s (map toupper l) then ret ((map Some as @ rest, int (length as), found), inp)
     else if rest = [] then stop (Fault OutOfBounds)
     else ret ((map Some (as @ [next_letter s (map toupper l)]) @ tl rest, int (length as) + 1,
        cstr (map toupper l) @ drop (Suc (length l)) found), inp))"
proof (cases "length l \<le> 100")
  case True
  let ?u = "map toupper l"
  define temp where "temp = cstr ?u @ drop (Suc (length l)) (replicate 101 None)"
  have line: "load_line (replicate (nat MAX_ADRESS_LENGTH) None) (fst (getchar (l @ 10 # inp)))
      (snd (getchar (l @ 10 # inp))) = ret (temp, inp)"
    using load_line_text [OF assms(1), of "replicate 101 None" inp] True
    by (simp add: MAX_ADRESS_LENGTH_def temp_def)
  have temp: "holds temp ?u" using assms(1) upper_nonzero by (simp add: line_ok_def temp_def)
  have letter: "arr_get temp (int (length s)) = (ret (next_letter s ?u) :: u8 key_io)" if "prefix s ?u"
  proof (cases "length s < length ?u")
    case True
    then show ?thesis by (simp only: holds_get(1) [OF temp] next_letter_def if_True)
  next
    case False
    with prefix_length_le [OF that] have "length s = length ?u" by simp
    then show ?thesis by (simp only: holds_get(2) [OF temp] next_letter_def less_irrefl if_False)
  qed
  have put: "arr_set (map Some as @ rest) (int (length as)) b =
      (if rest = [] then stop (Fault OutOfBounds) else ret (map Some (as @ [b]) @ tl rest))" for b
    by (cases rest) (auto simp: arr_set_def list_update_append)
  have cpy: "strcpy found temp = (ret (cstr ?u @ drop (Suc (length l)) found) :: u8 option list key_io)"
    unfolding strcpy_holds [OF temp] using True assms(3) by simp
  show ?thesis
    using True
    by (simp add: address_step_def line is_substring_holds [OF assms(2) temp] strlen_holds [OF assms(2)]
        letter put cpy)
next
  case False
  then show ?thesis
    using load_line_text [OF assms(1), of "replicate 101 None" inp]
    by (simp add: address_step_def MAX_ADRESS_LENGTH_def)
qed

text \<open>
  What the loop leaves: the letters of the matches behind those that were there, and the last
  match; a long line, or a letter for which there is no room, is a fault.
\<close>

definition addresses_read ::
  "u8 list \<Rightarrow> u8 list list \<Rightarrow> u8 list \<Rightarrow> u8 option list \<Rightarrow> u8 option list \<Rightarrow> key_state key_io \<Rightarrow> bool"
where
  "addresses_read s ls as rest found out \<longleftrightarrow>
     (if (\<forall>l \<in> set ls. length l \<le> 100) \<and> length (matches s ls) \<le> length rest
      then \<exists>found'. length found' = 101 \<and>
             (found' = found \<or> matches s ls \<noteq> []) \<and>
             (matches s ls \<noteq> [] \<longrightarrow> holds found' (List.last (matches s ls))) \<and>
             out = ret (map Some (as @ map (next_letter s) (matches s ls)) @ drop (length (matches s ls)) rest,
                    int (length as + length (matches s ls)), found')
      else out = stop (Fault OutOfBounds))"

lemma addresses_read_skip:
  "length l \<le> 100 \<Longrightarrow> \<not> prefix s (map toupper l) \<Longrightarrow>
   addresses_read s (l # ls) as rest found out = addresses_read s ls as rest found out"
  by (simp add: addresses_read_def matches_def)

lemma addresses_read_take:
  assumes "length l \<le> 100" and "prefix s (map toupper l)" and "holds found' (map toupper l)"
    and "addresses_read s ls (as @ [next_letter s (map toupper l)]) rest found' out"
  shows "addresses_read s (l # ls) as (r # rest) found out"
proof -
  have ms: "matches s (l # ls) = map toupper l # matches s ls"
    using assms(2) by (simp add: matches_def)
  show ?thesis
  proof (cases "(\<forall>l \<in> set ls. length l \<le> 100) \<and> length (matches s ls) \<le> length rest")
    case True
    with assms(4) obtain found'' where f: "length found'' = 101" "found'' = found' \<or> matches s ls \<noteq> []"
      "matches s ls \<noteq> [] \<longrightarrow> holds found'' (List.last (matches s ls))"
      "out = ret (map Some ((as @ [next_letter s (map toupper l)]) @ map (next_letter s) (matches s ls)) @
          drop (length (matches s ls)) rest,
          int (length (as @ [next_letter s (map toupper l)]) + length (matches s ls)), found'')"
      unfolding addresses_read_def by auto
    then have "holds found'' (List.last (matches s (l # ls)))"
      using assms(3) unfolding ms by auto
    with f True assms(1) show ?thesis
      unfolding addresses_read_def ms by (auto intro!: exI [of _ found''])
  next
    case False
    with assms(1,4) show ?thesis unfolding addresses_read_def ms by auto
  qed
qed

lemma read_addresses_lines:
  assumes "\<forall>l \<in> set ls. line_ok l" and "holds search s" and "length found = 101"
  shows "addresses_read s ls as rest found
    (read_addresses search (fst (getchar (text_lines ls))) (snd (getchar (text_lines ls)))
       (map Some as @ rest, int (length as), found))"
  using assms(1,3)
proof (induction ls arbitrary: as rest found)
  case Nil
  then show ?case by (simp add: text_lines_def addresses_read_def matches_def read_addresses.simps)
next
  case (Cons l ls)
  have l: "line_ok l" using Cons.prems by simp
  let ?u = "map toupper l"
  have lines: "text_lines (l # ls) = l @ 10 # text_lines ls" by (simp add: text_lines_def)
  have c: "fst (getchar (l @ 10 # text_lines ls)) \<noteq> EOF"
    using l by (cases l) (auto simp: line_ok_def EOF_def)
  note step = address_step_line [OF l assms(2) Cons.prems(2), of "text_lines ls" as rest]
  note run = read_addresses.simps [of search "fst (getchar (text_lines (l # ls)))"]
  show ?case
  proof (cases "length l \<le> 100")
    case False
    then show ?thesis unfolding run unfolding lines using c step by (simp add: addresses_read_def)
  next
    case True
    show ?thesis
    proof (cases "prefix s ?u")
      case False
      have "read_addresses search (fst (getchar (text_lines (l # ls)))) (snd (getchar (text_lines (l # ls))))
          (map Some as @ rest, int (length as), found) =
        read_addresses search (fst (getchar (text_lines ls))) (snd (getchar (text_lines ls)))
          (map Some as @ rest, int (length as), found)"
        unfolding run unfolding lines using c step True False by simp
      then show ?thesis using Cons.IH [OF _ Cons.prems(2)] Cons.prems(1) True False
        by (simp add: addresses_read_skip)
    next
      case match: True
      show ?thesis
      proof (cases rest)
        case Nil
        then show ?thesis unfolding run unfolding lines using c step True match
          by (simp add: addresses_read_def matches_def)
      next
        case rs: (Cons r rest')
        let ?found = "cstr ?u @ drop (Suc (length l)) found"
        have len: "length ?found = 101" using True Cons.prems(2) by (simp add: cstr_def)
        have u: "holds ?found ?u" using l upper_nonzero by (simp add: line_ok_def)
        have step': "read_addresses search (fst (getchar (text_lines (l # ls)))) (snd (getchar (text_lines (l # ls))))
            (map Some as @ rest, int (length as), found) =
          read_addresses search (fst (getchar (text_lines ls))) (snd (getchar (text_lines ls)))
            (map Some (as @ [next_letter s ?u]) @ rest', int (length (as @ [next_letter s ?u])), ?found)"
          unfolding run unfolding lines using c step True match rs by (simp add: add.commute)
        have "addresses_read s ls (as @ [next_letter s ?u]) rest' ?found
          (read_addresses search (fst (getchar (text_lines ls))) (snd (getchar (text_lines ls)))
            (map Some (as @ [next_letter s ?u]) @ rest', int (length (as @ [next_letter s ?u])), ?found))"
          using Cons.prems by (intro Cons.IH len) simp
        from addresses_read_take [OF True match u this] show ?thesis unfolding step' unfolding rs .
      qed
    qed
  qed
qed

section \<open>The answer\<close>

lemma str_bytes_holds:
  assumes "holds buf s"
  shows "str_bytes buf 0 = ret s"
proof -
  have run: "i \<le> length s \<Longrightarrow> str_bytes buf (int i) = ret (drop i s)" for i
  proof (induction "length s - i" arbitrary: i)
    case 0
    then have i: "i = length s" by simp
    show ?case unfolding i by (simp add: str_bytes.simps holds_get [OF assms])
  next
    case (Suc n)
    then have i: "i < length s" by simp
    moreover have "s ! i \<noteq> 0" using assms i by (auto simp: holds_def dest: nth_mem)
    ultimately show ?case
      using Suc.hyps(1) [of "Suc i"] Suc.hyps(2)
      by (subst str_bytes.simps) (simp add: holds_get [OF assms] add.commute Cons_nth_drop_Suc)
  qed
  show ?thesis using run [of 0] by simp
qed

lemma putchars_list:
  assumes "\<forall>i \<in> set is. i < length xs"
  shows "putchars (map Some xs @ rest) (map int is) =
    (Inr (), map (\<lambda>i. Out (text_of [xs ! i])) is)"
  using assms by (induction "is") (auto simp: io_simps ret_def)

definition not_found :: "key_event list" where
  "not_found = [Out (''Not found'' @ [CHR 0x0A])]"

definition found_one :: "u8 list \<Rightarrow> key_event list" where
  "found_one m = [Out (''Found: '' @ text_of m @ [CHR 0x0A])]"

definition enabled :: "u8 list \<Rightarrow> key_event list" where
  "enabled zs = Out ''Enable: '' # map (\<lambda>b. Out (text_of [b])) zs @ [Out [CHR 0x0A]]"

lemma print_result_letters:
  assumes "2 \<le> length xs"
  shows "\<exists>zs. print_result (int (length xs)) (map Some xs @ rest) found = (Inr (), enabled zs) \<and>
           set zs = set xs \<and> distinct zs \<and> sorted (map sint zs)"
proof -
  obtain ys rest' where ys: "remove_duplicates (map Some xs @ rest) (int (length xs)) =
      ret (map Some ys @ rest', int (length ys))" "set ys = set xs" "distinct ys"
    using remove_duplicates_list by blast
  obtain zs where zs: "sort_chars (map Some ys @ rest') (int (length ys)) = ret (map Some zs @ rest')"
      "mset zs = mset ys" "sorted (map sint zs)"
    using sort_chars_list by blast
  have len: "length zs = length ys" using zs(2) by (metis size_mset)
  have put: "putchars (map Some zs @ rest') [0..int (length ys) - 1] =
      (Inr (), map (\<lambda>b. Out (text_of [b])) zs)"
    unfolding upto_int len [symmetric] by (subst putchars_list) (auto intro: nth_equalityI)
  have "print_result (int (length xs)) (map Some xs @ rest) found = (Inr (), enabled zs)"
    using assms by (auto simp add: print_result_def ys(1) zs(1) put io_simps emit_def enabled_def)
  moreover have "set zs = set xs" "distinct zs"
    using ys zs(2) by (metis mset_eq_setD) (use ys zs(2) mset_eq_imp_distinct_iff in blast)
  ultimately show ?thesis using zs(3) by blast
qed

text \<open>What the program prints for the matches \<open>ms\<close> of the prefix \<open>s\<close>.\<close>

definition answers :: "u8 list \<Rightarrow> u8 list list \<Rightarrow> key_event list \<Rightarrow> bool" where
  "answers s ms w \<longleftrightarrow>
     (if ms = [] then w = not_found
      else if length ms = 1 then w = found_one (hd ms)
      else \<exists>zs. w = enabled zs \<and> set zs = set (map (next_letter s) ms) \<and> distinct zs \<and> sorted (map sint zs))"

lemma keyfilter_run:
  assumes "0 \<notin> set arg" and "\<forall>l \<in> set ls. line_ok l"
  defines "s \<equiv> map toupper arg"
  shows "if length arg \<le> 100
         then if (\<forall>l \<in> set ls. length l \<le> 100) \<and> length (matches s ls) \<le> 26
              then \<exists>w. keyfilter_main [prog, arg] (text_lines ls) = (Inr 0, w) \<and> answers s (matches s ls) w
              else keyfilter_main [prog, arg] (text_lines ls) = stop (Fault OutOfBounds)
         else if length arg = 101
         then keyfilter_main [prog, arg] (text_lines ls) = stop (Fault OutOfBounds)
         else keyfilter_main [prog, arg] (text_lines ls) = (Inr ERROR_TOO_LONG_SEARCH, [Err too_long_search])"
proof (cases "length arg \<le> 100")
  case False
  have arg: "holds (cstr arg) arg" using assms(1) by simp
  show ?thesis
    using False by (auto simp: keyfilter_main_def Let_def MAX_ADRESS_LENGTH_def strcpy_holds [OF arg]
        io_simps emit_def ret_def)
next
  case True
  let ?found = "replicate 101 None :: u8 option list"
  define search where "search = cstr s @ drop (Suc (length arg)) ?found"
  have arg: "holds (cstr arg) arg" using assms(1) by simp
  have search: "holds search s" using upper_nonzero [OF assms(1)] by (simp add: search_def s_def)
  have start: "keyfilter_main [prog, arg] (text_lines ls) =
      bind_io (read_addresses search (fst (getchar (text_lines ls))) (snd (getchar (text_lines ls)))
        (replicate 26 None, 0, ?found)) (\<lambda>(allowed, n, found). bind_io (print_result n allowed found) (\<lambda>_. ret 0))"
    using True unfolding keyfilter_main_def Let_def strcpy_holds [OF arg]
    by (simp add: MAX_ADRESS_LENGTH_def to_upper_cstr [OF assms(1)] search_def s_def strcpy_holds [OF arg])
  from read_addresses_lines [OF assms(2) search, where found = ?found and rest = "replicate 26 None" and as = "[]"]
  have run: "addresses_read s ls [] (replicate 26 None) ?found
      (read_addresses search (fst (getchar (text_lines ls))) (snd (getchar (text_lines ls)))
        (replicate 26 None, 0, ?found))"
    by simp
  show ?thesis
  proof (cases "(\<forall>l \<in> set ls. length l \<le> 100) \<and> length (matches s ls) \<le> 26")
    case False
    then show ?thesis using run True start by (simp add: addresses_read_def)
  next
    case ok: True
    with run obtain found' where f: "matches s ls \<noteq> [] \<longrightarrow> holds found' (List.last (matches s ls))"
      "read_addresses search (fst (getchar (text_lines ls))) (snd (getchar (text_lines ls)))
        (replicate 26 None, 0, ?found) =
       ret (map Some (map (next_letter s) (matches s ls)) @ drop (length (matches s ls)) (replicate 26 None),
         int (length (matches s ls)), found')"
      by (auto simp: addresses_read_def)
    let ?xs = "map (next_letter s) (matches s ls)" and ?rest = "drop (length (matches s ls)) (replicate 26 None)"
    have "\<exists>w. print_result (int (length (matches s ls))) (map Some ?xs @ ?rest) found' = (Inr (), w) \<and>
        answers s (matches s ls) w"
    proof (cases "2 \<le> length (matches s ls)")
      case True
      with print_result_letters [of ?xs ?rest found'] show ?thesis
        by (auto simp: answers_def simp del: drop_replicate)
    next
      case False
      then consider "matches s ls = []" | m where "matches s ls = [m]"
        by (cases "matches s ls") (auto simp: Suc_le_eq)
      then show ?thesis
      proof cases
        case 1
        then show ?thesis by (simp add: print_result_def answers_def not_found_def emit_def)
      next
        case 2
        with f(1) have "holds found' m" by simp
        with 2 show ?thesis
          by (simp add: print_result_def answers_def found_one_def emit_def str_bytes_holds)
      qed
    qed
    with ok True start f(2) show ?thesis by (auto simp: io_simps ret_def)
  qed
qed

end
