(* ===== verification/Keyfilter_Claims.thy ===== *)
theory Keyfilter_Claims
  imports Keyfilter_Main
begin

text \<open>The properties of \<open>keyfilter.c\<close> and their applications to small inputs.\<close>

text \<open>
  C9. The whole program. For a search argument and an input of lines without zero or EOF bytes:
  if the argument and the lines have at most 100 characters and at most 26 addresses match, the
  program returns 0 and prints \<open>Not found\<close> where no address has the upper-cased argument as a
  prefix, the address where exactly one does, and otherwise the letters behind the prefix,
  sorted and each once (a zero byte for an address that is the prefix itself). A longer line, a
  27th match, or an argument of exactly 101 characters is an access outside of an array; an
  argument of more is refused with a message.
\<close>

theorem keyfilter_answer:
  assumes "0 \<notin> set arg" and "\<forall>l \<in> set ls. line_ok l" and "s = map toupper arg"
  shows "if length arg \<le> 100
         then if (\<forall>l \<in> set ls. length l \<le> 100) \<and> length (matches s ls) \<le> 26
              then \<exists>w. keyfilter_main [prog, arg] (text_lines ls) = (Inr 0, w) \<and> answers s (matches s ls) w
              else keyfilter_main [prog, arg] (text_lines ls) = stop (Fault OutOfBounds)
         else if length arg = 101
         then keyfilter_main [prog, arg] (text_lines ls) = stop (Fault OutOfBounds)
         else keyfilter_main [prog, arg] (text_lines ls) = (Inr ERROR_TOO_LONG_SEARCH, [Err too_long_search])"
  unfolding assms(3) using assms(1,2) by (rule keyfilter_run)

text \<open>Search for \<open>a\<close> among \<open>ab\<close>, \<open>b\<close> and \<open>Ac\<close>.\<close>

theorem keyfilter_answer_witness:
  "\<exists>w. keyfilter_main [[120], [97]] (text_lines [[97, 98], [98], [65, 99]]) = (Inr 0, w) \<and>
       answers [65] [[65, 66], [65, 67]] w"
proof -
  have "\<forall>l \<in> set [[97, 98], [98], [65, 99]]. line_ok l" "0 \<notin> set [97 :: u8]"
    by (simp_all add: line_ok_def EOF_def)
  moreover have "map toupper [97] = [65]" "matches [65] [[97, 98], [98], [65, 99]] = [[65, 66], [65, 67]]"
    by (simp_all add: toupper_def matches_def)
  ultimately show ?thesis
    using keyfilter_answer [of "[97]" "[[97, 98], [98], [65, 99]]" "[65]" "[120]"] by simp
qed

text \<open>
  \<open>sort_chars\<close> sorts: on an array that begins with \<open>len\<close> characters it accesses no other
  element, leaves the rest of the array alone, and orders the first \<open>len\<close> by their signed
  value, keeping each as often as it was there.
\<close>

theorem sort_chars_sorts:
  "\<exists>ys. sort_chars (map Some xs @ rest) (int (length xs)) = ret (map Some ys @ rest) \<and>
        mset ys = mset xs \<and> sorted (map sint ys)"
  by (rule sort_chars_list)

text \<open>
  \<open>remove_duplicates\<close> returns the number of different characters, and the array begins with
  exactly those, each once.
\<close>

theorem remove_duplicates_removes:
  "\<exists>ys rest'. remove_duplicates (map Some xs @ rest) (int (length xs)) =
     ret (map Some ys @ rest', int (card (set xs))) \<and> set ys = set xs \<and> distinct ys"
  using remove_duplicates_list [of xs rest] by (metis distinct_card)

text \<open>
  \<open>is_substring\<close>, whose comment says that it looks for a substring, decides whether the first
  string is a prefix of the second one, which is what the program needs.
\<close>

theorem is_substring_prefix:
  assumes "holds str1 a" and "holds str2 b"
  shows "is_substring str1 str2 = ret (prefix a b)"
  using assms by (rule is_substring_holds)

theorem is_substring_prefix_witness:
  "is_substring (cstr [98]) (cstr [97, 98]) = ret False"
  using is_substring_prefix [of "cstr [98]" "[98]" "cstr [97, 98]" "[97, 98]"] by simp

text \<open>
  The check for a line that is too long never fires on the buffers of \<open>main\<close>: whatever the
  input, \<open>load_line\<close> neither prints its message nor exits, since the character before the one
  that would be refused has already been written behind the buffer.
\<close>

theorem load_line_never_refuses:
  assumes "length store = nat MAX_ADRESS_LENGTH"
  shows "snd (load_line store c inp) = [] \<and> fst (load_line store c inp) \<noteq> Inl (Exit n)"
  using load_line_no_exit [of store c inp n] assms by (simp add: MAX_ADRESS_LENGTH_def)

theorem load_line_never_refuses_witness:
  "snd (load_line (replicate 101 None) 65 (replicate 200 65)) = []"
  using load_line_never_refuses [of "replicate 101 None"] by (simp add: MAX_ADRESS_LENGTH_def)

end
