(* ===== verification/Skibus.thy ===== *)
theory Skibus
  imports Stdlib
begin

text \<open>
  \<open>ios/skibus\<close>: one process for the bus and one for every skier, with shared counters and
  semaphores. A step is one access to the shared memory, one operation on a semaphore, or one
  line of output, so an increment \<open>++(*x)\<close> is a read and a write, and the steps of the
  processes interleave in any order. Names of constructors: \<open>B...\<close> are the places in
  \<open>skibus_process\<close>, \<open>S...\<close> those in \<open>skier_process\<close>, both in \<open>actors.c\<close>.
\<close>

section \<open>Arguments\<close>

datatype cli_event = Err string

type_synonym 'a cli_io = "(cli_event, 'a) io"

record CLIArguments =
  num_skiers :: int
  num_stops :: int
  capacity :: int
  tl :: int
  tb :: int

definition usage_msg :: "string \<Rightarrow> string" where
  "usage_msg prog =
     ''Usage: '' @ prog @ '' <num_skiers> <num_stops> <capacity> <tl> <tb>'' @ [CHR 0x0A]"

definition range_msg :: "string \<Rightarrow> string \<Rightarrow> string \<Rightarrow> string" where
  "range_msg which what bounds =
     ''Error: ('' @ which @ '' argument) '' @ what @ '' must be in range '' @ bounds @ [CHR 0x0A]"

definition reject :: "string \<Rightarrow> 'a cli_io" where
  "reject text = bind_io (emit (Err text)) (\<lambda>_. stop (Exit 1))"

definition parse_arguments :: "string list \<Rightarrow> CLIArguments cli_io" where
  "parse_arguments argv =
     (if length argv \<noteq> 6 then bind_io (arg_get argv 0) (\<lambda>prog. reject (usage_msg prog))
      else if \<not> list_all (list_all is_digit) (drop 1 argv)
      then reject (''All arguments must be integers'' @ [CHR 0x0A])
      else
        bind_io (atoi (argv ! 1)) (\<lambda>n.
        if n < 0 \<or> n \<ge> 20000
        then reject (range_msg ''1st'' ''Number of skiers'' ''0 < num_skiers < 20000'')
        else bind_io (atoi (argv ! 2)) (\<lambda>z.
        if z \<le> 0 \<or> z > 10
        then reject (range_msg ''2nd'' ''Number of stops'' ''0 < num_stops <= 10'')
        else bind_io (atoi (argv ! 3)) (\<lambda>k.
        if k < 10 \<or> k > 100
        then reject (range_msg ''3rd'' ''Capacity of the bus'' ''10 <= capacity <= 100'')
        else bind_io (atoi (argv ! 4)) (\<lambda>l.
        if l < 0 \<or> l > 10000
        then reject (range_msg ''4th'' ''Max time that skier waits for bus'' ''0 < tl <= 10000'')
        else bind_io (atoi (argv ! 5)) (\<lambda>b.
        if b < 0 \<or> b > 1000
        then reject (range_msg ''5th'' ''Max time of bus ride between stops'' ''0 <= tb <= 1000'')
        else ret \<lparr>num_skiers = n, num_stops = z, capacity = k, tl = l, tb = b\<rparr>))))))"

section \<open>The shared state\<close>

datatype msg =
    SKIER_STARTED nat | SKIER_ARRIVED nat nat | SKIER_BOARDING nat | SKIER_GOING_TO_SKI nat
  | BUS_STARTED | BUS_ARRIVED nat | BUS_LEAVING nat | BUS_FINAL | BUS_LEAVE_FINAL | BUS_FINISH

text \<open>
  The places in \<open>lock(write_sync); fprintf(..., ++A, ...); unlock(write_sync)\<close>: before the
  lock, before the read of \<open>A\<close>, before its write, before the output, before the unlock.
\<close>

datatype wr = WLock | WLoad | WStore int | WPrint int | WPost

datatype bus_pc =
    BStarted wr | BRide nat | BArrived nat wr | BMutex nat | BTest nat | BPostSome nat
  | BPostNone nat | BCheck nat | BLetIn nat | BAllAboard nat | BLeaving nat wr | BRideFinal
  | BFinal wr | BLetOff | BWaitOff | BLeaveFinal wr | BLoop | BFinish wr | BDone | BCrash

datatype skier_pc =
    SStarted wr | SChoose | SWalk nat | SArrived nat wr | SMutex nat | SIncLoad nat
  | SIncStore nat int | SIncPost nat | SWait nat | SOnLoad nat | SOnStore nat int | SSkiLoad nat
  | SSkiStore nat int | SBoarding nat wr | SDecLoad nat | SDecStore nat int | STest nat int
  | SPostAll | SPostStop nat | SWaitOff | SOffLoad | SOffStore int | SGoing wr | SLast
  | SPostLast | SPostNext | SDone | SCrash

record sk_state =
  A :: int
  num_skiers_onboard :: int
  num_skiers_skiing :: int
  waiting :: "nat \<Rightarrow> int"
  write_sync :: nat
  mutex :: nat
  all_aboard :: nat
  let_skiers_leave :: nat
  bus_stops :: "nat \<Rightarrow> nat"
  bus :: bus_pc
  skiers :: "nat \<Rightarrow> skier_pc"
  outp :: "(int \<times> msg) list"

text \<open>What \<open>main\<close> sets up before it forks; the mapped memory is zero.\<close>

definition sk_init :: sk_state where
  "sk_init =
     \<lparr>A = 0, num_skiers_onboard = 0, num_skiers_skiing = 0, waiting = (\<lambda>_. 0),
      write_sync = 1, mutex = 1, all_aboard = 0, let_skiers_leave = 0, bus_stops = (\<lambda>_. 0),
      bus = BStarted WLock, skiers = (\<lambda>_. SStarted WLock), outp = []\<rparr>"

section \<open>One step\<close>

text \<open>
  \<open>None\<close> is a process that waits at a semaphore. A line of output is complete when its
  \<open>unlock\<close> is done, and the process then is at \<open>next\<close>.
\<close>

definition write_line :: "msg \<Rightarrow> wr \<Rightarrow> (wr \<Rightarrow> 'pc) \<Rightarrow> 'pc \<Rightarrow> sk_state \<Rightarrow> ('pc \<times> sk_state) option" where
  "write_line text w here next s =
     (case w of
        WLock \<Rightarrow> if write_sync s = 0 then None
                 else Some (here WLoad, s\<lparr>write_sync := write_sync s - 1\<rparr>)
      | WLoad \<Rightarrow> Some (here (WStore (A s)), s)
      | WStore r \<Rightarrow> Some (here (WPrint (r + 1)), s\<lparr>A := r + 1\<rparr>)
      | WPrint v \<Rightarrow> Some (here WPost, s\<lparr>outp := outp s @ [(v, text)]\<rparr>)
      | WPost \<Rightarrow> Some (next, s\<lparr>write_sync := write_sync s + 1\<rparr>))"

text \<open>The place of the bus after it is done with stop \<open>k\<close>.\<close>

definition next_stop :: "CLIArguments \<Rightarrow> nat \<Rightarrow> bus_pc" where
  "next_stop a k = (if int (k + 1) \<le> num_stops a then BRide (k + 1) else BRideFinal)"

fun bus_run :: "CLIArguments \<Rightarrow> bus_pc \<Rightarrow> sk_state \<Rightarrow> (bus_pc \<times> sk_state) option" where
  "bus_run a (BStarted w) s = write_line BUS_STARTED w BStarted (next_stop a 0) s"
| "bus_run a (BRide k) s = Some (if tb a = 0 then BCrash else BArrived k WLock, s)"
| "bus_run a (BArrived k w) s = write_line (BUS_ARRIVED k) w (BArrived k) (BMutex k) s"
| "bus_run a (BMutex k) s =
     (if mutex s = 0 then None else Some (BTest k, s\<lparr>mutex := mutex s - 1\<rparr>))"
| "bus_run a (BTest k) s = Some (if waiting s k > 0 then BPostSome k else BPostNone k, s)"
| "bus_run a (BPostSome k) s = Some (BCheck k, s\<lparr>mutex := mutex s + 1\<rparr>)"
| "bus_run a (BPostNone k) s = Some (BLeaving k WLock, s\<lparr>mutex := mutex s + 1\<rparr>)"
| "bus_run a (BCheck k) s =
     Some (if num_skiers_onboard s < capacity a then BLetIn k else BLeaving k WLock, s)"
| "bus_run a (BLetIn k) s =
     Some (BAllAboard k, s\<lparr>bus_stops := (bus_stops s)(k := bus_stops s k + 1)\<rparr>)"
| "bus_run a (BAllAboard k) s =
     (if all_aboard s = 0 then None
      else Some (BLeaving k WLock, s\<lparr>all_aboard := all_aboard s - 1\<rparr>))"
| "bus_run a (BLeaving k w) s = write_line (BUS_LEAVING k) w (BLeaving k) (next_stop a k) s"
| "bus_run a BRideFinal s = Some (if tb a = 0 then BCrash else BFinal WLock, s)"
| "bus_run a (BFinal w) s = write_line BUS_FINAL w BFinal BLetOff s"
| "bus_run a BLetOff s = Some (BWaitOff, s\<lparr>let_skiers_leave := let_skiers_leave s + 1\<rparr>)"
| "bus_run a BWaitOff s =
     (if all_aboard s = 0 then None
      else Some (BLeaveFinal WLock, s\<lparr>all_aboard := all_aboard s - 1\<rparr>))"
| "bus_run a (BLeaveFinal w) s = write_line BUS_LEAVE_FINAL w BLeaveFinal BLoop s"
| "bus_run a BLoop s =
     Some (if num_skiers_skiing s \<ge> num_skiers a then BFinish WLock else next_stop a 0, s)"
| "bus_run a (BFinish w) s = write_line BUS_FINISH w BFinish BDone s"
| "bus_run a BDone s = None"
| "bus_run a BCrash s = None"

text \<open>\<open>rand()\<close> is the parameter \<open>r\<close>; \<open>rand() % 0\<close> kills the process.\<close>

fun skier_run ::
  "CLIArguments \<Rightarrow> nat \<Rightarrow> nat \<Rightarrow> skier_pc \<Rightarrow> sk_state \<Rightarrow> (skier_pc \<times> sk_state) option" where
  "skier_run a r i (SStarted w) s = write_line (SKIER_STARTED i) w SStarted SChoose s"
| "skier_run a r i SChoose s =
     Some (if num_stops a = 0 then SCrash else SWalk (nat (int r mod num_stops a + 1)), s)"
| "skier_run a r i (SWalk k) s = Some (if tl a = 0 then SCrash else SArrived k WLock, s)"
| "skier_run a r i (SArrived k w) s = write_line (SKIER_ARRIVED i k) w (SArrived k) (SMutex k) s"
| "skier_run a r i (SMutex k) s =
     (if mutex s = 0 then None else Some (SIncLoad k, s\<lparr>mutex := mutex s - 1\<rparr>))"
| "skier_run a r i (SIncLoad k) s = Some (SIncStore k (waiting s k), s)"
| "skier_run a r i (SIncStore k x) s =
     Some (SIncPost k, s\<lparr>waiting := (waiting s)(k := x + 1)\<rparr>)"
| "skier_run a r i (SIncPost k) s = Some (SWait k, s\<lparr>mutex := mutex s + 1\<rparr>)"
| "skier_run a r i (SWait k) s =
     (if bus_stops s k = 0 then None
      else Some (SOnLoad k, s\<lparr>bus_stops := (bus_stops s)(k := bus_stops s k - 1)\<rparr>))"
| "skier_run a r i (SOnLoad k) s = Some (SOnStore k (num_skiers_onboard s), s)"
| "skier_run a r i (SOnStore k x) s = Some (SSkiLoad k, s\<lparr>num_skiers_onboard := x + 1\<rparr>)"
| "skier_run a r i (SSkiLoad k) s = Some (SSkiStore k (num_skiers_skiing s), s)"
| "skier_run a r i (SSkiStore k x) s =
     Some (SBoarding k WLock, s\<lparr>num_skiers_skiing := x + 1\<rparr>)"
| "skier_run a r i (SBoarding k w) s = write_line (SKIER_BOARDING i) w (SBoarding k) (SDecLoad k) s"
| "skier_run a r i (SDecLoad k) s = Some (SDecStore k (waiting s k), s)"
| "skier_run a r i (SDecStore k x) s =
     Some (STest k (x - 1), s\<lparr>waiting := (waiting s)(k := x - 1)\<rparr>)"
| "skier_run a r i (STest k x) s =
     Some (if x = 0 \<or> num_skiers_onboard s \<ge> capacity a then SPostAll else SPostStop k, s)"
| "skier_run a r i SPostAll s = Some (SWaitOff, s\<lparr>all_aboard := all_aboard s + 1\<rparr>)"
| "skier_run a r i (SPostStop k) s =
     Some (SWaitOff, s\<lparr>bus_stops := (bus_stops s)(k := bus_stops s k + 1)\<rparr>)"
| "skier_run a r i SWaitOff s =
     (if let_skiers_leave s = 0 then None
      else Some (SOffLoad, s\<lparr>let_skiers_leave := let_skiers_leave s - 1\<rparr>))"
| "skier_run a r i SOffLoad s = Some (SOffStore (num_skiers_onboard s), s)"
| "skier_run a r i (SOffStore x) s = Some (SGoing WLock, s\<lparr>num_skiers_onboard := x - 1\<rparr>)"
| "skier_run a r i (SGoing w) s = write_line (SKIER_GOING_TO_SKI i) w SGoing SLast s"
| "skier_run a r i SLast s =
     Some (if num_skiers_onboard s = 0 then SPostLast else SPostNext, s)"
| "skier_run a r i SPostLast s = Some (SDone, s\<lparr>all_aboard := all_aboard s + 1\<rparr>)"
| "skier_run a r i SPostNext s = Some (SDone, s\<lparr>let_skiers_leave := let_skiers_leave s + 1\<rparr>)"
| "skier_run a r i SDone s = None"
| "skier_run a r i SCrash s = None"

definition bus_step :: "CLIArguments \<Rightarrow> sk_state \<Rightarrow> sk_state option" where
  "bus_step a s = map_option (\<lambda>(pc, s'). s'\<lparr>bus := pc\<rparr>) (bus_run a (bus s) s)"

definition skier_step :: "CLIArguments \<Rightarrow> nat \<Rightarrow> nat \<Rightarrow> sk_state \<Rightarrow> sk_state option" where
  "skier_step a r i s =
     map_option (\<lambda>(pc, s'). s'\<lparr>skiers := (skiers s)(i := pc)\<rparr>) (skier_run a r i (skiers s i) s)"

text \<open>The processes that exist are the bus and the skiers \<open>1..num_skiers\<close>.\<close>

inductive sk_step :: "CLIArguments \<Rightarrow> sk_state \<Rightarrow> sk_state \<Rightarrow> bool" for a where
  by_bus: "bus_step a s = Some s' \<Longrightarrow> sk_step a s s'"
| by_skier: "1 \<le> i \<Longrightarrow> int i \<le> num_skiers a \<Longrightarrow> skier_step a r i s = Some s' \<Longrightarrow> sk_step a s s'"

inductive_cases sk_stepE: "sk_step a s s'"

definition reachable :: "CLIArguments \<Rightarrow> sk_state \<Rightarrow> bool" where
  "reachable a s \<longleftrightarrow> (sk_step a)\<^sup>*\<^sup>* sk_init s"

lemma reachable_induct [consumes 1, case_names init step]:
  assumes "reachable a s" and "P sk_init"
    and "\<And>s s'. reachable a s \<Longrightarrow> P s \<Longrightarrow> sk_step a s s' \<Longrightarrow> P s'"
  shows "P s"
  using assms(1) unfolding reachable_def
  by (induction rule: rtranclp_induct) (auto simp: reachable_def intro: assms(2,3))

end
