(* ===== verification/Skibus_Locks.thy ===== *)
theory Skibus_Locks
  imports Skibus
begin

text \<open>
  The semaphores of \<open>ios/skibus\<close> that are used as locks, and the one turn that the bus hands to
  the skiers and gets back: in each of the three cases the units in the semaphores plus those
  held by processes never change (\<open>conserved\<close>), so at most one process is inside.
\<close>

section \<open>Stops in range\<close>

definition stop_ok :: "CLIArguments \<Rightarrow> nat \<Rightarrow> bool" where
  "stop_ok a k \<longleftrightarrow> 1 \<le> k \<and> int k \<le> num_stops a"

fun bus_ok :: "CLIArguments \<Rightarrow> bus_pc \<Rightarrow> bool" where
  "bus_ok a (BRide k) = stop_ok a k"
| "bus_ok a (BArrived k w) = stop_ok a k"
| "bus_ok a (BMutex k) = stop_ok a k"
| "bus_ok a (BTest k) = stop_ok a k"
| "bus_ok a (BPostSome k) = stop_ok a k"
| "bus_ok a (BPostNone k) = stop_ok a k"
| "bus_ok a (BCheck k) = stop_ok a k"
| "bus_ok a (BLetIn k) = stop_ok a k"
| "bus_ok a (BAllAboard k) = stop_ok a k"
| "bus_ok a (BLeaving k w) = stop_ok a k"
| "bus_ok a _ = True"

fun skier_ok :: "CLIArguments \<Rightarrow> skier_pc \<Rightarrow> bool" where
  "skier_ok a (SWalk k) = stop_ok a k"
| "skier_ok a (SArrived k w) = stop_ok a k"
| "skier_ok a (SMutex k) = stop_ok a k"
| "skier_ok a (SIncLoad k) = stop_ok a k"
| "skier_ok a (SIncStore k x) = stop_ok a k"
| "skier_ok a (SIncPost k) = stop_ok a k"
| "skier_ok a (SWait k) = stop_ok a k"
| "skier_ok a (SOnLoad k) = stop_ok a k"
| "skier_ok a (SOnStore k x) = stop_ok a k"
| "skier_ok a (SSkiLoad k) = stop_ok a k"
| "skier_ok a (SSkiStore k x) = stop_ok a k"
| "skier_ok a (SBoarding k w) = stop_ok a k"
| "skier_ok a (SDecLoad k) = stop_ok a k"
| "skier_ok a (SDecStore k x) = stop_ok a k"
| "skier_ok a (STest k x) = stop_ok a k"
| "skier_ok a (SPostStop k) = stop_ok a k"
| "skier_ok a _ = True"

lemma write_line_cases:
  assumes "write_line text w here nxt s = Some (pc, s')"
  obtains "w = WLock" "0 < write_sync s" "pc = here WLoad" "s' = s\<lparr>write_sync := write_sync s - 1\<rparr>"
    | "w = WLoad" "pc = here (WStore (A s))" "s' = s"
    | r where "w = WStore r" "pc = here (WPrint (r + 1))" "s' = s\<lparr>A := r + 1\<rparr>"
    | v where "w = WPrint v" "pc = here WPost" "s' = s\<lparr>outp := outp s @ [(v, text)]\<rparr>"
    | "w = WPost" "pc = nxt" "s' = s\<lparr>write_sync := write_sync s + 1\<rparr>"
proof (cases w)
  case WLock
  then show ?thesis using assms by (intro that(1)) (auto simp: write_line_def split: if_splits)
next
  case WLoad
  then show ?thesis using assms by (intro that(2)) (auto simp: write_line_def)
next
  case (WStore r)
  then show ?thesis using assms by (intro that(3)) (auto simp: write_line_def)
next
  case (WPrint v)
  then show ?thesis using assms by (intro that(4)) (auto simp: write_line_def)
next
  case WPost
  then show ?thesis using assms by (intro that(5)) (auto simp: write_line_def)
qed

lemma next_stop_ok: "num_stops a \<ge> 1 \<Longrightarrow> bus_ok a (next_stop a k)"
  by (auto simp: next_stop_def stop_ok_def)

lemma bus_run_ok:
  assumes "bus_run a pc s = Some (pc', s')" and "bus_ok a pc" and "num_stops a \<ge> 1"
  shows "bus_ok a pc'"
  using assms next_stop_ok [OF assms(3)]
  by (cases pc) (auto elim!: write_line_cases split: if_splits)

lemma skier_run_ok:
  assumes "skier_run a r i pc s = Some (pc', s')" and "skier_ok a pc" and "num_stops a \<ge> 1"
  shows "skier_ok a pc'"
proof -
  have "stop_ok a (nat (int r mod num_stops a + 1))"
  proof -
    have "0 \<le> int r mod num_stops a" "int r mod num_stops a < num_stops a"
      using assms(3) by simp_all
    then show ?thesis unfolding stop_ok_def by linarith
  qed
  then show ?thesis
    using assms by (cases pc) (auto elim!: write_line_cases split: if_splits)
qed

definition stops_ok :: "CLIArguments \<Rightarrow> sk_state \<Rightarrow> bool" where
  "stops_ok a s \<longleftrightarrow> bus_ok a (bus s) \<and> (\<forall>i. skier_ok a (skiers s i))"

lemma bus_step_parts:
  assumes "bus_step a s = Some s'"
  obtains pc t where "bus_run a (bus s) s = Some (pc, t)" "s' = t\<lparr>bus := pc\<rparr>"
  using assms by (auto simp: bus_step_def)

lemma skier_step_parts:
  assumes "skier_step a r i s = Some s'"
  obtains pc t where "skier_run a r i (skiers s i) s = Some (pc, t)" "s' = t\<lparr>skiers := (skiers s)(i := pc)\<rparr>"
  using assms by (auto simp: skier_step_def)

text \<open>A process changes its own place only.\<close>

lemma bus_run_frame: "bus_run a pc s = Some (pc', s') \<Longrightarrow> skiers s' = skiers s \<and> bus s' = bus s"
  by (cases pc) (auto elim!: write_line_cases split: if_splits)

lemma skier_run_frame: "skier_run a r i pc s = Some (pc', s') \<Longrightarrow> skiers s' = skiers s \<and> bus s' = bus s"
  by (cases pc) (auto elim!: write_line_cases split: if_splits)

lemma stops_ok_step:
  assumes "sk_step a s s'" and "stops_ok a s" and "num_stops a \<ge> 1"
  shows "stops_ok a s'"
  using assms(1)
proof (cases rule: sk_step.cases)
  case by_bus
  then show ?thesis
    using assms(2,3) bus_run_ok by (elim bus_step_parts) (auto simp: stops_ok_def dest: bus_run_frame)
next
  case by_skier
  then show ?thesis
    using assms(2,3) skier_run_ok
    by (elim skier_step_parts) (auto simp: stops_ok_def dest: skier_run_frame)
qed

lemma stops_ok_reachable:
  assumes "reachable a s" and "num_stops a \<ge> 1"
  shows "stops_ok a s"
  using assms(1)
proof (induction rule: reachable_induct)
  case init
  show ?case by (simp add: stops_ok_def sk_init_def)
next
  case (step s s')
  then show ?case using stops_ok_step assms(2) by blast
qed

section \<open>Conserved units\<close>

definition riders :: "CLIArguments \<Rightarrow> nat set" where
  "riders a = {1..nat (num_skiers a)}"

lemma finite_riders [simp]: "finite (riders a)"
  by (simp add: riders_def)

lemma rider_iff: "i \<in> riders a \<longleftrightarrow> 1 \<le> i \<and> int i \<le> num_skiers a"
  by (auto simp: riders_def)

definition held :: "CLIArguments \<Rightarrow> (skier_pc \<Rightarrow> nat) \<Rightarrow> (nat \<Rightarrow> skier_pc) \<Rightarrow> nat" where
  "held a g f = (\<Sum>i \<in> riders a. g (f i))"

lemma held_update:
  assumes "i \<in> riders a"
  shows "held a g (f(i := pc)) + g (f i) = held a g f + g pc"
proof -
  have "held a g h = g (h i) + (\<Sum>j \<in> riders a - {i}. g (h j))" for h
    using assms by (simp add: held_def sum.remove)
  moreover have "(\<Sum>j \<in> riders a - {i}. g ((f(i := pc)) j)) = (\<Sum>j \<in> riders a - {i}. g (f j))"
    by (intro sum.cong) auto
  ultimately show ?thesis by simp
qed

lemma held_two:
  assumes "i \<in> riders a" and "j \<in> riders a" and "i \<noteq> j"
  shows "g (f i) + g (f j) \<le> held a g f"
proof -
  have "(\<Sum>k \<in> {i, j}. g (f k)) \<le> held a g f"
    unfolding held_def using assms by (intro sum_mono2) auto
  then show ?thesis using assms(3) by simp
qed

lemma held_one: "i \<in> riders a \<Longrightarrow> g (f i) \<le> held a g f"
  unfolding held_def by (rule member_le_sum) auto

lemma held_zero: "held a g f = 0 \<longleftrightarrow> (\<forall>i \<in> riders a. g (f i) = 0)"
  by (simp add: held_def)

text \<open>
  What a semaphore used as a lock promises: a step moves units between the pool and the process
  that makes it.
\<close>

locale conserved =
  fixes a :: CLIArguments
    and pool :: "sk_state \<Rightarrow> nat"
    and by_bus_pc :: "bus_pc \<Rightarrow> nat"
    and by_skier_pc :: "skier_pc \<Rightarrow> nat"
  assumes frame: "pool (s\<lparr>bus := b\<rparr>) = pool s" "pool (s\<lparr>skiers := f\<rparr>) = pool s"
    and bus_law: "bus_run a pc s = Some (pc', s') \<Longrightarrow> bus_ok a pc \<Longrightarrow>
        pool s' + by_bus_pc pc' = pool s + by_bus_pc pc"
    and skier_law: "skier_run a r i q s = Some (q', s') \<Longrightarrow> skier_ok a q \<Longrightarrow>
        pool s' + by_skier_pc q' = pool s + by_skier_pc q"
begin

definition total :: "sk_state \<Rightarrow> nat" where
  "total s = pool s + by_bus_pc (bus s) + held a by_skier_pc (skiers s)"

lemma total_step:
  assumes "sk_step a s s'" and "stops_ok a s"
  shows "total s' = total s"
  using assms(1)
proof (cases rule: sk_step.cases)
  case by_bus
  then obtain pc t where run: "bus_run a (bus s) s = Some (pc, t)" "s' = t\<lparr>bus := pc\<rparr>"
    by (elim bus_step_parts)
  with bus_law [OF run(1)] bus_run_frame [OF run(1)] assms(2) show ?thesis
    by (simp add: total_def frame stops_ok_def)
next
  case (by_skier i r)
  then obtain pc t where run: "skier_run a r i (skiers s i) s = Some (pc, t)"
      "s' = t\<lparr>skiers := (skiers s)(i := pc)\<rparr>"
    by (elim skier_step_parts)
  have "i \<in> riders a" using by_skier by (simp add: rider_iff)
  from held_update [OF this, of by_skier_pc "skiers s" pc] run(2)
    skier_law [OF run(1)] skier_run_frame [OF run(1)] assms(2)
  show ?thesis by (simp add: total_def frame stops_ok_def)
qed

lemma total_reachable:
  assumes "reachable a s" and "num_stops a \<ge> 1"
  shows "total s = total sk_init"
  using assms(1)
proof (induction rule: reachable_induct)
  case (step s s')
  with total_step stops_ok_reachable [OF step(1) assms(2)] show ?case by simp
qed simp

end

section \<open>The three interpretations\<close>

definition bus_wr :: "bus_pc \<Rightarrow> wr option" where
  "bus_wr pc =
     (case pc of BStarted w \<Rightarrow> Some w | BArrived k w \<Rightarrow> Some w | BLeaving k w \<Rightarrow> Some w
      | BFinal w \<Rightarrow> Some w | BLeaveFinal w \<Rightarrow> Some w | BFinish w \<Rightarrow> Some w | _ \<Rightarrow> None)"

definition skier_wr :: "skier_pc \<Rightarrow> wr option" where
  "skier_wr pc =
     (case pc of SStarted w \<Rightarrow> Some w | SArrived k w \<Rightarrow> Some w | SBoarding k w \<Rightarrow> Some w
      | SGoing w \<Rightarrow> Some w | _ \<Rightarrow> None)"

definition writes :: "wr option \<Rightarrow> nat" where
  "writes w = (if w = None \<or> w = Some WLock then 0 else 1)"

definition bus_mutex :: "bus_pc \<Rightarrow> nat" where
  "bus_mutex pc = (case pc of BTest k \<Rightarrow> 1 | BPostSome k \<Rightarrow> 1 | BPostNone k \<Rightarrow> 1 | _ \<Rightarrow> 0)"

definition skier_mutex :: "skier_pc \<Rightarrow> nat" where
  "skier_mutex pc = (case pc of SIncLoad k \<Rightarrow> 1 | SIncStore k x \<Rightarrow> 1 | SIncPost k \<Rightarrow> 1 | _ \<Rightarrow> 0)"

text \<open>Boarding, and getting off: the places where a skier has the turn.\<close>

definition boarding :: "skier_pc \<Rightarrow> bool" where
  "boarding pc =
     (case pc of SOnLoad k \<Rightarrow> True | SOnStore k x \<Rightarrow> True | SSkiLoad k \<Rightarrow> True | SSkiStore k x \<Rightarrow> True
      | SBoarding k w \<Rightarrow> True | SDecLoad k \<Rightarrow> True | SDecStore k x \<Rightarrow> True | STest k x \<Rightarrow> True
      | SPostAll \<Rightarrow> True | SPostStop k \<Rightarrow> True | _ \<Rightarrow> False)"

definition alighting :: "skier_pc \<Rightarrow> bool" where
  "alighting pc =
     (case pc of SOffLoad \<Rightarrow> True | SOffStore x \<Rightarrow> True | SGoing w \<Rightarrow> True | SLast \<Rightarrow> True
      | SPostLast \<Rightarrow> True | SPostNext \<Rightarrow> True | _ \<Rightarrow> False)"

definition skier_turn :: "skier_pc \<Rightarrow> nat" where
  "skier_turn pc = (if boarding pc \<or> alighting pc then 1 else 0)"

definition bus_turn :: "bus_pc \<Rightarrow> nat" where
  "bus_turn pc = (case pc of BAllAboard k \<Rightarrow> 0 | BWaitOff \<Rightarrow> 0 | _ \<Rightarrow> 1)"

definition stop_units :: "CLIArguments \<Rightarrow> (nat \<Rightarrow> nat) \<Rightarrow> nat" where
  "stop_units a f = (\<Sum>k \<in> {1..nat (num_stops a)}. f k)"

definition turn_pool :: "CLIArguments \<Rightarrow> sk_state \<Rightarrow> nat" where
  "turn_pool a s = all_aboard s + let_skiers_leave s + stop_units a (bus_stops s)"

lemma stop_units_update:
  assumes "stop_ok a k"
  shows "stop_units a (f(k := x)) + f k = stop_units a f + x"
proof -
  have "k \<in> {1..nat (num_stops a)}" using assms by (auto simp: stop_ok_def)
  then have "stop_units a h = h k + (\<Sum>j \<in> {1..nat (num_stops a)} - {k}. h j)" for h
    by (simp add: stop_units_def sum.remove)
  moreover have "(\<Sum>j \<in> {1..nat (num_stops a)} - {k}. (f(k := x)) j) =
      (\<Sum>j \<in> {1..nat (num_stops a)} - {k}. f j)"
    by (intro sum.cong) auto
  ultimately show ?thesis by simp
qed

lemma stop_units_ge: "stop_ok a k \<Longrightarrow> f k \<le> stop_units a f"
  unfolding stop_units_def by (rule member_le_sum) (auto simp: stop_ok_def)

lemma next_stop_simps [simp]:
  "bus_wr (next_stop a k) = None" "bus_mutex (next_stop a k) = 0" "bus_turn (next_stop a k) = 1"
  by (simp_all add: next_stop_def bus_wr_def bus_mutex_def bus_turn_def)

lemmas place_defs = bus_wr_def skier_wr_def bus_mutex_def skier_mutex_def bus_turn_def
  skier_turn_def boarding_def alighting_def

lemma write_lock_bus:
  "bus_run a pc s = Some (pc', s') \<Longrightarrow>
   write_sync s' + writes (bus_wr pc') = write_sync s + writes (bus_wr pc)"
  by (cases pc) (auto elim!: write_line_cases split: if_splits simp: bus_wr_def writes_def next_stop_def)

lemma write_lock_skier:
  "skier_run a r i pc s = Some (pc', s') \<Longrightarrow>
   write_sync s' + writes (skier_wr pc') = write_sync s + writes (skier_wr pc)"
  by (cases pc) (auto elim!: write_line_cases split: if_splits simp: skier_wr_def writes_def)

lemma mutex_bus:
  "bus_run a pc s = Some (pc', s') \<Longrightarrow> mutex s' + bus_mutex pc' = mutex s + bus_mutex pc"
  by (cases pc) (auto elim!: write_line_cases split: if_splits simp: bus_mutex_def next_stop_def)

lemma mutex_skier:
  "skier_run a r i pc s = Some (pc', s') \<Longrightarrow> mutex s' + skier_mutex pc' = mutex s + skier_mutex pc"
  by (cases pc) (auto elim!: write_line_cases split: if_splits simp: skier_mutex_def)

lemma turn_bus:
  assumes "bus_run a pc s = Some (pc', s')" and "bus_ok a pc"
  shows "turn_pool a s' + bus_turn pc' = turn_pool a s + bus_turn pc"
proof (cases pc)
  case (BLetIn k)
  then show ?thesis
    using assms stop_units_update [of a k "bus_stops s" "bus_stops s k + 1"]
    by (auto simp: turn_pool_def bus_turn_def)
qed (use assms in \<open>auto elim!: write_line_cases split: if_splits
      simp: turn_pool_def bus_turn_def next_stop_def\<close>)

lemma turn_skier:
  assumes "skier_run a r i pc s = Some (pc', s')" and "skier_ok a pc"
  shows "turn_pool a s' + skier_turn pc' = turn_pool a s + skier_turn pc"
proof (cases pc)
  case (SWait k)
  then show ?thesis
    using assms stop_units_update [of a k "bus_stops s" "bus_stops s k - 1"] stop_units_ge [of a k "bus_stops s"]
    by (auto split: if_splits simp: turn_pool_def skier_turn_def boarding_def alighting_def)
next
  case (SPostStop k)
  then show ?thesis
    using assms stop_units_update [of a k "bus_stops s" "bus_stops s k + 1"]
    by (auto simp: turn_pool_def skier_turn_def boarding_def alighting_def)
qed (use assms in \<open>auto elim!: write_line_cases split: if_splits
      simp: turn_pool_def skier_turn_def boarding_def alighting_def\<close>)

interpretation write_lock: conserved a write_sync "\<lambda>pc. writes (bus_wr pc)" "\<lambda>pc. writes (skier_wr pc)"
  for a
  by unfold_locales (use write_lock_bus write_lock_skier in auto)

interpretation mutex_lock: conserved a mutex bus_mutex skier_mutex for a
  by unfold_locales (use mutex_bus mutex_skier in auto)

interpretation turn: conserved a "turn_pool a" bus_turn skier_turn for a
  by unfold_locales (use turn_bus turn_skier in \<open>auto simp: turn_pool_def\<close>)

end
