(* ===== verification/Skibus_Turn.thy ===== *)
theory Skibus_Turn
  imports Skibus_Locks
begin

text \<open>
  The turn that the bus of \<open>ios/skibus\<close> passes to the skiers: who has it decides who may change
  the counters \<open>num_skiers_onboard\<close> and \<open>num_skiers_skiing\<close>, so these count the skiers in the
  bus and those who have boarded, the capacity is kept, and when the bus finishes every skier has
  gone to ski.
\<close>

definition aboard :: "skier_pc \<Rightarrow> nat" where
  "aboard pc =
     (case pc of SSkiLoad k \<Rightarrow> 1 | SSkiStore k x \<Rightarrow> 1 | SBoarding k w \<Rightarrow> 1 | SDecLoad k \<Rightarrow> 1
      | SDecStore k x \<Rightarrow> 1 | STest k x \<Rightarrow> 1 | SPostAll \<Rightarrow> 1 | SPostStop k \<Rightarrow> 1 | SWaitOff \<Rightarrow> 1
      | SOffLoad \<Rightarrow> 1 | SOffStore x \<Rightarrow> 1 | _ \<Rightarrow> 0)"

definition boarded :: "skier_pc \<Rightarrow> nat" where
  "boarded pc =
     (case pc of SBoarding k w \<Rightarrow> 1 | SDecLoad k \<Rightarrow> 1 | SDecStore k x \<Rightarrow> 1 | STest k x \<Rightarrow> 1
      | SPostAll \<Rightarrow> 1 | SPostStop k \<Rightarrow> 1 | SWaitOff \<Rightarrow> 1 | SOffLoad \<Rightarrow> 1 | SOffStore x \<Rightarrow> 1
      | SGoing w \<Rightarrow> 1 | SLast \<Rightarrow> 1 | SPostLast \<Rightarrow> 1 | SPostNext \<Rightarrow> 1 | SDone \<Rightarrow> 1 | _ \<Rightarrow> 0)"

section \<open>What the holder of the turn knows\<close>

definition skier_knows :: "CLIArguments \<Rightarrow> sk_state \<Rightarrow> skier_pc \<Rightarrow> bool" where
  "skier_knows a s pc \<longleftrightarrow>
     (boarding pc \<longrightarrow> (\<exists>k. bus s = BAllAboard k)) \<and> (alighting pc \<longrightarrow> bus s = BWaitOff) \<and>
     (case pc of
        SOnLoad k \<Rightarrow> num_skiers_onboard s < capacity a
      | SOnStore k x \<Rightarrow> x = num_skiers_onboard s \<and> num_skiers_onboard s < capacity a
      | SSkiStore k x \<Rightarrow> x = num_skiers_skiing s
      | SPostStop k \<Rightarrow> num_skiers_onboard s < capacity a
      | SOffStore x \<Rightarrow> x = num_skiers_onboard s
      | SPostLast \<Rightarrow> num_skiers_onboard s = 0
      | _ \<Rightarrow> True)"

definition bus_knows :: "CLIArguments \<Rightarrow> sk_state \<Rightarrow> bool" where
  "bus_knows a s \<longleftrightarrow>
     (case bus s of
        BLetIn k \<Rightarrow> num_skiers_onboard s < capacity a
      | BLeaveFinal w \<Rightarrow> num_skiers_onboard s = 0
      | BLoop \<Rightarrow> num_skiers_onboard s = 0
      | BFinish w \<Rightarrow> num_skiers_onboard s = 0 \<and> num_skiers a \<le> num_skiers_skiing s
      | BDone \<Rightarrow> num_skiers_onboard s = 0 \<and> num_skiers a \<le> num_skiers_skiing s
      | _ \<Rightarrow> True)"

definition pool_knows :: "CLIArguments \<Rightarrow> sk_state \<Rightarrow> bool" where
  "pool_knows a s \<longleftrightarrow>
     (0 < stop_units a (bus_stops s) \<longrightarrow>
        num_skiers_onboard s < capacity a \<and> (\<exists>k. bus s = BAllAboard k)) \<and>
     (0 < let_skiers_leave s \<longrightarrow> bus s = BWaitOff) \<and>
     (0 < all_aboard s \<longrightarrow> (\<exists>k. bus s = BAllAboard k) \<or> bus s = BWaitOff \<and> num_skiers_onboard s = 0)"

definition turn_inv :: "CLIArguments \<Rightarrow> sk_state \<Rightarrow> bool" where
  "turn_inv a s \<longleftrightarrow>
     num_skiers_onboard s = int (held a aboard (skiers s)) \<and>
     num_skiers_skiing s = int (held a boarded (skiers s)) \<and>
     num_skiers_onboard s \<le> capacity a \<and>
     (\<forall>i \<in> riders a. skier_knows a s (skiers s i)) \<and> bus_knows a s \<and> pool_knows a s"

section \<open>Exclusion\<close>

lemma turn_total:
  assumes "reachable a s" and "num_stops a \<ge> 1"
  shows "turn_pool a s + bus_turn (bus s) + held a skier_turn (skiers s) = 1"
proof -
  have "turn.total a s = turn.total a sk_init" using turn.total_reachable [OF assms] .
  moreover have "turn.total a sk_init = 1"
    unfolding turn.total_def
    by (simp add: sk_init_def held_def turn_pool_def stop_units_def place_defs)
  ultimately show ?thesis unfolding turn.total_def by simp
qed

lemma turn_exclusive:
  assumes "turn_pool a s + bus_turn (bus s) + held a skier_turn (skiers s) = 1"
  shows "bus_turn (bus s) = 1 \<Longrightarrow> turn_pool a s = 0 \<and> (\<forall>i \<in> riders a. skier_turn (skiers s i) = 0)"
    and "0 < turn_pool a s \<Longrightarrow> turn_pool a s = 1 \<and> bus_turn (bus s) = 0 \<and>
           (\<forall>i \<in> riders a. skier_turn (skiers s i) = 0)"
    and "i \<in> riders a \<Longrightarrow> skier_turn (skiers s i) = 1 \<Longrightarrow> turn_pool a s = 0 \<and> bus_turn (bus s) = 0 \<and>
           (\<forall>j \<in> riders a. j \<noteq> i \<longrightarrow> skier_turn (skiers s j) = 0)"
proof -
  show "bus_turn (bus s) = 1 \<Longrightarrow> turn_pool a s = 0 \<and> (\<forall>i \<in> riders a. skier_turn (skiers s i) = 0)"
    and "0 < turn_pool a s \<Longrightarrow> turn_pool a s = 1 \<and> bus_turn (bus s) = 0 \<and>
           (\<forall>i \<in> riders a. skier_turn (skiers s i) = 0)"
    using assms held_zero [of a skier_turn "skiers s"] by auto
  assume i: "i \<in> riders a" "skier_turn (skiers s i) = 1"
  have "skier_turn (skiers s j) = 0" if "j \<in> riders a" "j \<noteq> i" for j
    using held_two [OF i(1) that(1), of skier_turn "skiers s"] that(2) i(2) assms by auto
  then show "turn_pool a s = 0 \<and> bus_turn (bus s) = 0 \<and>
           (\<forall>j \<in> riders a. j \<noteq> i \<longrightarrow> skier_turn (skiers s j) = 0)"
    using held_one [OF i(1), of skier_turn "skiers s"] i(2) assms by auto
qed

lemma knows_without_turn: "skier_turn pc = 0 \<Longrightarrow> skier_knows a s pc"
  by (cases pc) (auto simp: skier_knows_def place_defs)

lemma knows_cong:
  "bus t = bus s \<Longrightarrow> num_skiers_onboard t = num_skiers_onboard s \<Longrightarrow>
   num_skiers_skiing t = num_skiers_skiing s \<Longrightarrow> skier_knows a t pc = skier_knows a s pc"
  by (cases pc) (simp_all add: skier_knows_def)

lemma bus_knows_cong:
  "bus t = bus s \<Longrightarrow> num_skiers_onboard t = num_skiers_onboard s \<Longrightarrow>
   num_skiers_skiing t = num_skiers_skiing s \<Longrightarrow> bus_knows a t = bus_knows a s"
  by (cases "bus s") (simp_all add: bus_knows_def)

section \<open>A step of a skier\<close>

lemma skier_quiet:
  "skier_run a r i pc s = Some (pc', t) \<Longrightarrow> skier_turn pc = 0 \<Longrightarrow>
   num_skiers_onboard t = num_skiers_onboard s \<and> num_skiers_skiing t = num_skiers_skiing s"
  by (cases pc) (auto elim!: write_line_cases split: if_splits simp: place_defs)

lemma skier_counts:
  assumes "skier_run a r i pc s = Some (pc', t)" and "skier_knows a s pc"
  shows "num_skiers_onboard t + int (aboard pc) = num_skiers_onboard s + int (aboard pc')"
    and "num_skiers_skiing t + int (boarded pc) = num_skiers_skiing s + int (boarded pc')"
  using assms
  by (cases pc; auto elim!: write_line_cases split: if_splits simp: aboard_def boarded_def skier_knows_def)+

lemma skier_learns:
  assumes "skier_run a r i pc s = Some (pc', t)" and "skier_knows a s pc" and "pool_knows a s"
    and "skier_ok a pc"
  shows "skier_knows a t pc'"
proof (cases pc)
  case (SWait k)
  then have "0 < stop_units a (bus_stops s)"
    using assms(1,4) stop_units_ge [of a k "bus_stops s"] by (auto split: if_splits)
  with SWait assms(1,3) show ?thesis
    by (auto simp: pool_knows_def skier_knows_def boarding_def alighting_def split: if_splits)
next
  case SWaitOff
  with assms(1,3) show ?thesis
    by (auto simp: pool_knows_def skier_knows_def boarding_def alighting_def split: if_splits)
qed (use assms in \<open>auto elim!: write_line_cases split: if_splits
      simp: skier_knows_def boarding_def alighting_def\<close>)

lemma turn_pool_zero:
  "turn_pool a s = 0 \<longleftrightarrow> all_aboard s = 0 \<and> let_skiers_leave s = 0 \<and> stop_units a (bus_stops s) = 0"
  by (auto simp: turn_pool_def)

lemma pool_learns_turn:
  assumes "skier_run a r i pc s = Some (pc', t)" and "skier_knows a s pc"
    and "skier_turn pc = 1" and "turn_pool a s = 0"
  shows "pool_knows a t"
  using assms
  by (cases pc) (auto elim!: write_line_cases split: if_splits
      simp: pool_knows_def skier_knows_def turn_pool_zero place_defs)

lemma pool_learns_quiet:
  assumes "skier_run a r i pc s = Some (pc', t)" and "pool_knows a s" and "skier_turn pc = 0"
    and "skier_ok a pc"
  shows "pool_knows a t"
proof (cases pc)
  case (SWait k)
  with assms stop_units_update [of a k "bus_stops s" "bus_stops s k - 1"] show ?thesis
    by (auto simp: pool_knows_def split: if_splits)
next
  case SWaitOff
  with assms show ?thesis by (auto simp: pool_knows_def split: if_splits)
qed (use assms in \<open>auto elim!: write_line_cases split: if_splits simp: pool_knows_def place_defs\<close>)

lemma skier_capacity:
  assumes "skier_run a r i pc s = Some (pc', t)" and "skier_knows a s pc"
    and "num_skiers_onboard s \<le> capacity a"
  shows "num_skiers_onboard t \<le> capacity a"
  using assms
  by (cases pc) (auto elim!: write_line_cases split: if_splits simp: skier_knows_def)

lemma turn_inv_skier:
  assumes "turn_inv a s" and "stops_ok a s" and "i \<in> riders a"
    and "turn_pool a s + bus_turn (bus s) + held a skier_turn (skiers s) = 1"
    and "skier_run a r i (skiers s i) s = Some (pc', t)"
  shows "turn_inv a (t\<lparr>skiers := (skiers s)(i := pc')\<rparr>)"
proof -
  let ?s' = "t\<lparr>skiers := (skiers s)(i := pc')\<rparr>" and ?pc = "skiers s i"
  note run = assms(5)
  have inv: "num_skiers_onboard s = int (held a aboard (skiers s))"
      "num_skiers_skiing s = int (held a boarded (skiers s))" "num_skiers_onboard s \<le> capacity a"
      "\<forall>i \<in> riders a. skier_knows a s (skiers s i)" "bus_knows a s" "pool_knows a s"
    using assms(1) by (simp_all add: turn_inv_def)
  have pc: "skier_knows a s ?pc" "skier_ok a ?pc"
    using inv(4) assms(2,3) by (auto simp: stops_ok_def)
  have frame: "skiers t = skiers s" "bus t = bus s" using skier_run_frame [OF run] by simp_all
  have knows_eq: "skier_knows a ?s' q = skier_knows a t q" "bus_knows a ?s' = bus_knows a t"
      "pool_knows a ?s' = pool_knows a t" for q
    by (rule knows_cong bus_knows_cong; simp)+ (simp add: pool_knows_def)
  have "num_skiers_onboard t = int (held a aboard ((skiers s)(i := pc')))"
    using skier_counts(1) [OF run pc(1)] held_update [OF assms(3), of aboard "skiers s" pc'] inv(1)
    by simp
  moreover have "num_skiers_skiing t = int (held a boarded ((skiers s)(i := pc')))"
    using skier_counts(2) [OF run pc(1)] held_update [OF assms(3), of boarded "skiers s" pc'] inv(2)
    by simp
  moreover have "num_skiers_onboard t \<le> capacity a" using skier_capacity [OF run pc(1) inv(3)] .
  moreover have "skier_knows a t pc'" using skier_learns [OF run pc(1) inv(6) pc(2)] .
  moreover have "(\<forall>j \<in> riders a. j \<noteq> i \<longrightarrow> skier_knows a t (skiers s j)) \<and> bus_knows a t \<and> pool_knows a t"
  proof (cases "skier_turn ?pc = 0")
    case True
    with skier_quiet [OF run True] frame inv(4-6) pool_learns_quiet [OF run inv(6) True pc(2)]
    show ?thesis by (simp add: knows_cong [of t s] bus_knows_cong [of t s])
  next
    case False
    then have turn: "skier_turn ?pc = 1" by (simp add: skier_turn_def split: if_splits)
    from turn_exclusive(3) [OF assms(4,3) turn] have ex: "turn_pool a s = 0" "bus_turn (bus s) = 0"
        "\<forall>j \<in> riders a. j \<noteq> i \<longrightarrow> skier_turn (skiers s j) = 0"
      by simp_all
    have "bus_knows a t"
      using ex(2) frame by (auto simp: bus_knows_def bus_turn_def split: bus_pc.splits)
    with ex pool_learns_turn [OF run pc(1) turn ex(1)] show ?thesis
      by (simp add: knows_without_turn)
  qed
  ultimately show ?thesis unfolding turn_inv_def knows_eq by simp
qed

section \<open>A step of the bus\<close>

lemma bus_counts:
  "bus_run a pc s = Some (pc', t) \<Longrightarrow>
   num_skiers_onboard t = num_skiers_onboard s \<and> num_skiers_skiing t = num_skiers_skiing s"
  by (cases pc) (auto elim!: write_line_cases split: if_splits)

lemma bus_learns:
  assumes "bus_run a (bus s) s = Some (pc', t)" and "bus_knows a s" and "pool_knows a s"
  shows "bus_knows a (t\<lparr>bus := pc'\<rparr>)"
  using assms
  by (cases "bus s") (auto elim!: write_line_cases split: if_splits
      simp: bus_knows_def pool_knows_def next_stop_def)

lemma bus_fills_pool:
  assumes "bus_run a (bus s) s = Some (pc', t)" and "bus_knows a s" and "bus_ok a (bus s)"
    and "turn_pool a s + bus_turn (bus s) = 1"
  shows "pool_knows a (t\<lparr>bus := pc'\<rparr>)"
proof (cases "bus s")
  case (BAllAboard k)
  with assms show ?thesis
    by (auto simp: pool_knows_def turn_pool_def bus_turn_def split: if_splits)
next
  case BWaitOff
  with assms show ?thesis
    by (auto simp: pool_knows_def turn_pool_def bus_turn_def split: if_splits)
qed (use assms in \<open>auto elim!: write_line_cases split: if_splits
      simp: pool_knows_def bus_knows_def turn_pool_def bus_turn_def next_stop_def\<close>)

lemma bus_step_turn:
  assumes "bus_run a (bus s) s = Some (pc', t)"
    and "turn_pool a s + bus_turn (bus s) + held a skier_turn (skiers s) = 1"
  shows "turn_pool a s + bus_turn (bus s) = 1" and "\<forall>i \<in> riders a. skier_turn (skiers s i) = 0"
proof -
  have "bus_turn (bus s) = 1 \<or> 0 < turn_pool a s"
    using assms(1) by (cases "bus s") (auto simp: bus_turn_def turn_pool_def split: if_splits)
  then show "\<forall>i \<in> riders a. skier_turn (skiers s i) = 0"
    using turn_exclusive(1,2) [OF assms(2)] by blast
  with assms(2) held_zero [of a skier_turn "skiers s"] show "turn_pool a s + bus_turn (bus s) = 1" by simp
qed

lemma turn_inv_bus:
  assumes "turn_inv a s" and "stops_ok a s"
    and "turn_pool a s + bus_turn (bus s) + held a skier_turn (skiers s) = 1"
    and "bus_run a (bus s) s = Some (pc', t)"
  shows "turn_inv a (t\<lparr>bus := pc'\<rparr>)"
proof -
  note run = assms(4)
  have inv: "num_skiers_onboard s = int (held a aboard (skiers s))"
      "num_skiers_skiing s = int (held a boarded (skiers s))" "num_skiers_onboard s \<le> capacity a"
      "bus_knows a s" "pool_knows a s"
    using assms(1) by (simp_all add: turn_inv_def)
  have ok: "bus_ok a (bus s)" using assms(2) by (simp add: stops_ok_def)
  from bus_learns [OF run inv(4,5)] bus_fills_pool [OF run inv(4) ok bus_step_turn(1) [OF run assms(3)]]
    bus_counts [OF run] bus_run_frame [OF run] inv(1-3) bus_step_turn(2) [OF run assms(3)]
  show ?thesis by (simp add: turn_inv_def knows_without_turn)
qed

section \<open>Reachable states\<close>

lemma turn_inv_reachable:
  assumes "reachable a s" and "num_stops a \<ge> 1" and "0 \<le> capacity a"
  shows "turn_inv a s"
  using assms(1)
proof (induction rule: reachable_induct)
  case init
  show ?case
    using assms(3) by (simp add: turn_inv_def sk_init_def held_def skier_knows_def bus_knows_def
        pool_knows_def stop_units_def aboard_def boarded_def place_defs)
next
  case (step s s')
  note ok = stops_ok_reachable [OF step.hyps(1) assms(2)]
  note total = turn_total [OF step.hyps(1) assms(2)]
  from step.hyps(2) show ?case
  proof (cases rule: sk_step.cases)
    case by_bus
    then show ?thesis using turn_inv_bus [OF step.IH ok total] by (elim bus_step_parts) simp
  next
    case (by_skier i r)
    then have "i \<in> riders a" by (simp add: rider_iff)
    with by_skier show ?thesis
      using turn_inv_skier [OF step.IH ok _ total] by (elim skier_step_parts) simp
  qed
qed

text \<open>Skiers who have boarded, are not in the bus, and do not have the turn are done.\<close>

lemma skier_done: "boarded pc = 1 \<Longrightarrow> aboard pc = 0 \<Longrightarrow> skier_turn pc = 0 \<Longrightarrow> pc = SDone"
  by (cases pc) (auto simp: boarded_def aboard_def place_defs)

lemma boarded_le: "boarded pc \<le> 1" by (cases pc) (auto simp: boarded_def)

lemma finish_all_done:
  assumes "reachable a s" and "num_stops a \<ge> 1" and "0 \<le> capacity a" and "0 \<le> num_skiers a"
    and "bus s = BDone \<or> bus s = BFinish w" and "i \<in> riders a"
  shows "skiers s i = SDone"
proof -
  have inv: "turn_inv a s" using turn_inv_reachable [OF assms(1-3)] .
  have zero: "held a aboard (skiers s) = 0" and all: "num_skiers a \<le> int (held a boarded (skiers s))"
    using inv assms(5) by (auto simp: turn_inv_def bus_knows_def)
  have "bus_turn (bus s) = 1" using assms(5) by (auto simp: bus_turn_def)
  from turn_exclusive(1) [OF turn_total [OF assms(1,2)] this] assms(6)
  have turn: "skier_turn (skiers s i) = 0" by simp
  have "boarded (skiers s i) = 1"
  proof (rule ccontr)
    assume "boarded (skiers s i) \<noteq> 1"
    then have "boarded (skiers s i) = 0" using boarded_le [of "skiers s i"] by simp
    then have "held a boarded (skiers s) = (\<Sum>j \<in> riders a - {i}. boarded (skiers s j))"
      using assms(6) by (simp add: held_def sum.remove)
    also have "\<dots> \<le> card (riders a - {i}) * 1"
      using sum_bounded_above [of "riders a - {i}" "\<lambda>j. boarded (skiers s j)" 1] boarded_le by simp
    also have "\<dots> < card (riders a)" using card_Diff1_less [OF finite_riders assms(6)] by simp
    also have "\<dots> = nat (num_skiers a)" by (simp add: riders_def)
    finally show False using all assms(4) by simp
  qed
  moreover have "aboard (skiers s i) = 0" using zero assms(6) by (simp add: held_zero)
  ultimately show ?thesis using turn skier_done by blast
qed

end
