(* ===== verification/Skibus_Output.thy ===== *)
theory Skibus_Output
  imports Skibus_Locks
begin

text \<open>
  The output of \<open>ios/skibus\<close>: whatever the interleaving, the lines are numbered 1, 2, 3, \<open>...\<close>
  in the order in which they are written, because the increment of \<open>A\<close> and the print happen
  between the lock and the unlock of \<open>write_sync\<close>.
\<close>

definition writers :: "CLIArguments \<Rightarrow> nat set" where
  "writers a = insert 0 (riders a)"

text \<open>The bus is process 0.\<close>

definition wr_of :: "sk_state \<Rightarrow> nat \<Rightarrow> wr option" where
  "wr_of s i = (if i = 0 then bus_wr (bus s) else skier_wr (skiers s i))"

lemma writers_exclusive:
  assumes "reachable a s" and "num_stops a \<ge> 1" and "i \<in> writers a" and "j \<in> writers a" and "i \<noteq> j"
    and "writes (wr_of s i) = 1"
  shows "writes (wr_of s j) = 0"
proof -
  let ?h = "held a (\<lambda>pc. writes (skier_wr pc)) (skiers s)"
  have "write_lock.total a s = write_lock.total a sk_init"
    using write_lock.total_reachable [OF assms(1,2)] .
  moreover have "write_lock.total a sk_init = 1"
    unfolding write_lock.total_def
    by (simp add: sk_init_def held_def writes_def bus_wr_def skier_wr_def)
  ultimately have total: "writes (bus_wr (bus s)) + ?h \<le> 1"
    by (simp add: write_lock.total_def)
  have zero: "0 \<notin> riders a" by (simp add: rider_iff)
  show ?thesis
  proof (cases "i = 0 \<or> j = 0")
    case True
    then obtain k where "k \<in> riders a" "{i, j} = {0, k}" using assms(3-5) by (auto simp: writers_def)
    moreover have "k \<noteq> 0" using calculation(1) zero by metis
    ultimately show ?thesis
      using held_one [of k a "\<lambda>pc. writes (skier_wr pc)" "skiers s"] total assms(6)
      by (auto simp: wr_of_def doubleton_eq_iff)
  next
    case False
    then have "i \<in> riders a" "j \<in> riders a" using assms(3,4) by (auto simp: writers_def)
    from held_two [OF this assms(5), of "\<lambda>pc. writes (skier_wr pc)" "skiers s"] total assms(6) False
    show ?thesis by (simp add: wr_of_def)
  qed
qed

definition numbers :: "(int \<times> msg) list \<Rightarrow> bool" where
  "numbers out \<longleftrightarrow> map fst out = map int [1..<Suc (length out)]"

lemma numbers_snoc: "numbers out \<Longrightarrow> numbers (out @ [(int (length out) + 1, t)])"
  by (simp add: numbers_def)

text \<open>What a step may do to the place in a line of output, to \<open>A\<close>, and to the output.\<close>

definition wr_rel :: "wr option \<Rightarrow> int \<Rightarrow> (int \<times> msg) list \<Rightarrow> wr option \<Rightarrow> int \<Rightarrow> (int \<times> msg) list \<Rightarrow> bool"
where
  "wr_rel w x out w' x' out' \<longleftrightarrow>
     (case w of
        Some WLoad \<Rightarrow> w' = Some (WStore x) \<and> x' = x \<and> out' = out
      | Some (WStore r) \<Rightarrow> w' = Some (WPrint (r + 1)) \<and> x' = r + 1 \<and> out' = out
      | Some (WPrint v) \<Rightarrow> w' = Some WPost \<and> x' = x \<and> (\<exists>t. out' = out @ [(v, t)])
      | _ \<Rightarrow> (w' = None \<or> w' = Some WLock \<or> w' = Some WLoad) \<and> x' = x \<and> out' = out)"

lemma write_line_rel:
  "write_line text w here nxt s = Some (pc, s') \<Longrightarrow> (\<And>w. f (here w) = Some w) \<Longrightarrow> f nxt = None \<Longrightarrow>
   wr_rel (Some w) (A s) (outp s) (f pc) (A s') (outp s')"
  by (elim write_line_cases) (auto simp: wr_rel_def)

lemma bus_run_rel:
  assumes "bus_run a pc s = Some (pc', s')"
  shows "wr_rel (bus_wr pc) (A s) (outp s) (bus_wr pc') (A s') (outp s')"
  using assms
  by (cases pc)
    (auto split: if_splits dest!: write_line_rel [where f = bus_wr] simp: bus_wr_def next_stop_def,
      auto simp: wr_rel_def bus_wr_def)

lemma skier_run_rel:
  assumes "skier_run a r i pc s = Some (pc', s')"
  shows "wr_rel (skier_wr pc) (A s) (outp s) (skier_wr pc') (A s') (outp s')"
  using assms
  by (cases pc)
    (auto split: if_splits dest!: write_line_rel [where f = skier_wr] simp: skier_wr_def,
      auto simp: wr_rel_def skier_wr_def)

definition num_inv :: "CLIArguments \<Rightarrow> sk_state \<Rightarrow> bool" where
  "num_inv a s \<longleftrightarrow> numbers (outp s) \<and>
     (\<forall>i \<in> writers a. \<forall>r. wr_of s i = Some (WStore r) \<longrightarrow> r = A s \<and> A s = int (length (outp s))) \<and>
     (\<forall>i \<in> writers a. \<forall>v. wr_of s i = Some (WPrint v) \<longrightarrow> v = A s \<and> A s = int (length (outp s)) + 1) \<and>
     ((\<forall>i \<in> writers a. \<forall>v. wr_of s i \<noteq> Some (WPrint v)) \<longrightarrow> A s = int (length (outp s)))"

lemma num_inv_move:
  assumes "num_inv a s" and "p \<in> writers a" and "\<forall>i \<in> writers a. i \<noteq> p \<longrightarrow> wr_of s' i = wr_of s i"
    and "wr_rel (wr_of s p) (A s) (outp s) (wr_of s' p) (A s') (outp s')"
    and "\<forall>i \<in> writers a. i \<noteq> p \<longrightarrow> writes (wr_of s p) = 1 \<longrightarrow> writes (wr_of s i) = 0"
  shows "num_inv a s'"
proof -
  have only: "i = p" if "i \<in> writers a" "writes (wr_of s p) = 1"
      "wr_of s' i = Some (WStore x) \<or> wr_of s' i = Some (WPrint x) \<or> wr_of s i = Some (WPrint x)" for i x
  proof (rule ccontr)
    assume ne: "i \<noteq> p"
    with assms(3,5) that(1,2) have "wr_of s' i = wr_of s i" "writes (wr_of s i) = 0" by auto
    with that(3) show False by (auto simp: writes_def)
  qed
  note only1 = only [OF _ _ disjI1] and only2 = only [OF _ _ disjI2 [OF disjI1]]
  note inv = assms(1) [unfolded num_inv_def]
  consider "wr_of s p = Some WLoad" | r where "wr_of s p = Some (WStore r)"
    | v where "wr_of s p = Some (WPrint v)"
    | "wr_of s p = None \<or> wr_of s p = Some WLock \<or> wr_of s p = Some WPost"
    by (metis option.exhaust wr.exhaust)
  then show ?thesis
  proof cases
    case 1
    then have w: "writes (wr_of s p) = 1" by (simp add: writes_def)
    have new: "wr_of s' p = Some (WStore (A s))" "A s' = A s" "outp s' = outp s"
      using assms(4) 1 by (simp_all add: wr_rel_def)
    have "\<forall>i \<in> writers a. \<forall>v. wr_of s i \<noteq> Some (WPrint v)"
    proof (intro ballI allI notI)
      fix i v assume "i \<in> writers a" "wr_of s i = Some (WPrint v)"
      with only [OF this(1) w disjI2 [OF disjI2]] 1 show False by simp
    qed
    with inv have "A s = int (length (outp s))" by blast
    with new inv show ?thesis
      unfolding num_inv_def by (auto dest: only1 [OF _ w] only2 [OF _ w])
  next
    case (2 r)
    then have w: "writes (wr_of s p) = 1" by (simp add: writes_def)
    have new: "wr_of s' p = Some (WPrint (r + 1))" "A s' = r + 1" "outp s' = outp s"
      using assms(4) 2 by (simp_all add: wr_rel_def)
    have "r = int (length (outp s))" "numbers (outp s)"
      using inv assms(2) 2 by auto
    with new assms(2) show ?thesis
      unfolding num_inv_def by (auto dest: only1 [OF _ w] only2 [OF _ w])
  next
    case (3 v)
    then have w: "writes (wr_of s p) = 1" by (simp add: writes_def)
    obtain t where new: "wr_of s' p = Some WPost" "A s' = A s" "outp s' = outp s @ [(v, t)]"
      using assms(4) 3 by (auto simp: wr_rel_def)
    have v: "v = int (length (outp s)) + 1" "A s = v" "numbers (outp s)"
      using inv assms(2) 3 by auto
    then have "numbers (outp s')" using new numbers_snoc by simp
    with new v show ?thesis
      unfolding num_inv_def by (auto dest: only1 [OF _ w] only2 [OF _ w])
  next
    case 4
    then have new: "wr_of s' p = None \<or> wr_of s' p = Some WLock \<or> wr_of s' p = Some WLoad"
        "A s' = A s" "outp s' = outp s"
      using assms(4) by (auto simp: wr_rel_def)
    have same: "wr_of s' i = wr_of s i \<or> i = p" if "i \<in> writers a" for i
      using assms(3) that by blast
    have eqs: "wr_of s' i = Some (WStore x) \<longleftrightarrow> wr_of s i = Some (WStore x)"
      "wr_of s' i = Some (WPrint x) \<longleftrightarrow> wr_of s i = Some (WPrint x)" if "i \<in> writers a" for i x
      using same [OF that] new(1) 4 by auto
    have "num_inv a s' = num_inv a s"
      unfolding num_inv_def new(2,3) by (simp only: eqs cong: ball_cong)
    with assms(1) show ?thesis by simp
  qed
qed

lemma step_moves:
  assumes "sk_step a s s'"
  obtains p where "p \<in> writers a" "\<forall>i. i \<noteq> p \<longrightarrow> wr_of s' i = wr_of s i"
    "wr_rel (wr_of s p) (A s) (outp s) (wr_of s' p) (A s') (outp s')"
  using assms
proof (cases rule: sk_step.cases)
  case by_bus
  then obtain pc t where run: "bus_run a (bus s) s = Some (pc, t)" "s' = t\<lparr>bus := pc\<rparr>"
    by (elim bus_step_parts)
  with bus_run_rel [OF run(1)] bus_run_frame [OF run(1)] show ?thesis
    by (intro that [of 0]) (auto simp: writers_def wr_of_def)
next
  case (by_skier i r)
  then obtain pc t where run: "skier_run a r i (skiers s i) s = Some (pc, t)"
      "s' = t\<lparr>skiers := (skiers s)(i := pc)\<rparr>"
    by (elim skier_step_parts)
  with by_skier skier_run_rel [OF run(1)] skier_run_frame [OF run(1)] show ?thesis
    by (intro that [of i]) (auto simp: writers_def wr_of_def rider_iff)
qed

lemma num_inv_reachable:
  assumes "reachable a s" and "num_stops a \<ge> 1"
  shows "num_inv a s"
  using assms(1)
proof (induction rule: reachable_induct)
  case init
  show ?case by (simp add: num_inv_def numbers_def sk_init_def wr_of_def bus_wr_def skier_wr_def)
next
  case (step s s')
  from step_moves [OF step.hyps(2)] obtain p where p: "p \<in> writers a"
    "\<forall>i. i \<noteq> p \<longrightarrow> wr_of s' i = wr_of s i"
    "wr_rel (wr_of s p) (A s) (outp s) (wr_of s' p) (A s') (outp s')" .
  show ?case
    using p writers_exclusive [OF step.hyps(1) assms(2) p(1)]
    by (intro num_inv_move [OF step.IH p(1) _ p(3)]) auto
qed

end
