(* ===== verification/Skibus_Runs.thy ===== *)
theory Skibus_Runs
  imports Skibus_Turn Skibus_Output
begin

text \<open>
  Runs of \<open>ios/skibus\<close>: the order of the lines of one skier; the run in which the bus arrives at
  the final stop without passengers and waits for ever; and runs along a given schedule, by which
  concrete states are shown to be reachable.
\<close>

section \<open>The lines of one skier\<close>

text \<open>The skier a line is about and its place among the four lines of a skier.\<close>

fun line_kind :: "nat \<Rightarrow> msg \<Rightarrow> nat option" where
  "line_kind i (SKIER_STARTED j) = (if i = j then Some 1 else None)"
| "line_kind i (SKIER_ARRIVED j k) = (if i = j then Some 2 else None)"
| "line_kind i (SKIER_BOARDING j) = (if i = j then Some 3 else None)"
| "line_kind i (SKIER_GOING_TO_SKI j) = (if i = j then Some 4 else None)"
| "line_kind i _ = None"

definition kinds :: "nat \<Rightarrow> (int \<times> msg) list \<Rightarrow> nat list" where
  "kinds i out = List.map_filter (\<lambda>l. line_kind i (snd l)) out"

lemma kinds_snoc: "kinds i (out @ [l]) =
    kinds i out @ (case line_kind i (snd l) of None \<Rightarrow> [] | Some k \<Rightarrow> [k])"
  by (simp add: kinds_def map_filter_def split: option.split)

text \<open>How many lines a skier has written.\<close>

definition written :: "wr \<Rightarrow> nat" where
  "written w = (if w = WPost then 1 else 0)"

definition lines_done :: "skier_pc \<Rightarrow> nat" where
  "lines_done pc =
     (case pc of
        SStarted w \<Rightarrow> written w | SChoose \<Rightarrow> 1 | SWalk k \<Rightarrow> 1 | SArrived k w \<Rightarrow> 1 + written w
      | SMutex k \<Rightarrow> 2 | SIncLoad k \<Rightarrow> 2 | SIncStore k x \<Rightarrow> 2 | SIncPost k \<Rightarrow> 2 | SWait k \<Rightarrow> 2
      | SOnLoad k \<Rightarrow> 2 | SOnStore k x \<Rightarrow> 2 | SSkiLoad k \<Rightarrow> 2 | SSkiStore k x \<Rightarrow> 2
      | SBoarding k w \<Rightarrow> 2 + written w | SDecLoad k \<Rightarrow> 3 | SDecStore k x \<Rightarrow> 3 | STest k x \<Rightarrow> 3
      | SPostAll \<Rightarrow> 3 | SPostStop k \<Rightarrow> 3 | SWaitOff \<Rightarrow> 3 | SOffLoad \<Rightarrow> 3 | SOffStore x \<Rightarrow> 3
      | SGoing w \<Rightarrow> 3 + written w | SLast \<Rightarrow> 4 | SPostLast \<Rightarrow> 4 | SPostNext \<Rightarrow> 4 | SDone \<Rightarrow> 4
      | SCrash \<Rightarrow> 1)"

lemma skier_run_lines:
  assumes "skier_run a r i pc s = Some (pc', t)"
  shows "outp t = outp s \<and> lines_done pc' = lines_done pc \<or>
    (\<exists>v m. outp t = outp s @ [(v, m)] \<and> line_kind i m = Some (lines_done pc') \<and>
           lines_done pc' = Suc (lines_done pc) \<and> (\<forall>j. j \<noteq> i \<longrightarrow> line_kind j m = None))"
  using assms
  by (cases pc) (auto elim!: write_line_cases split: if_splits simp: lines_done_def written_def)

lemma bus_run_lines:
  assumes "bus_run a pc s = Some (pc', t)"
  shows "kinds i (outp t) = kinds i (outp s)"
  using assms
  by (cases pc) (auto elim!: write_line_cases split: if_splits simp: kinds_snoc)

lemma kinds_reachable:
  assumes "reachable a s"
  shows "kinds i (outp s) = [1..<Suc (lines_done (skiers s i))]"
  using assms
proof (induction rule: reachable_induct)
  case init
  show ?case by (simp add: kinds_def sk_init_def lines_done_def written_def map_filter_def)
next
  case (step s s')
  from step.hyps(2) show ?case
  proof (cases rule: sk_step.cases)
    case by_bus
    then show ?thesis
      using step.IH bus_run_frame by (elim bus_step_parts) (simp add: bus_run_lines)
  next
    case (by_skier j r)
    then obtain pc t where run: "skier_run a r j (skiers s j) s = Some (pc, t)"
        "s' = t\<lparr>skiers := (skiers s)(j := pc)\<rparr>"
      by (elim skier_step_parts)
    with skier_run_lines [OF run(1)] skier_run_frame [OF run(1)] step.IH show ?thesis
      by (cases "i = j") (auto simp: kinds_snoc)
  qed
qed

section \<open>The empty bus at the final stop\<close>

text \<open>A skier before the bus has let it in.\<close>

definition outside_bus :: "skier_pc \<Rightarrow> bool" where
  "outside_bus pc \<longleftrightarrow> boarded pc = 0 \<and> aboard pc = 0 \<and> skier_turn pc = 0 \<and> pc \<noteq> SWaitOff"

definition stuck :: "sk_state \<Rightarrow> bool" where
  "stuck s \<longleftrightarrow> bus s = BWaitOff \<and> all_aboard s = 0 \<and> (\<forall>k. bus_stops s k = 0) \<and>
     (\<forall>i. outside_bus (skiers s i))"

lemma outside_run:
  assumes "skier_run a r i pc s = Some (pc', t)" and "outside_bus pc" and "\<forall>k. bus_stops s k = 0"
  shows "outside_bus pc' \<and> all_aboard t = all_aboard s \<and> bus_stops t = bus_stops s"
  using assms
  by (cases pc) (auto elim!: write_line_cases split: if_splits
      simp: outside_bus_def boarded_def aboard_def place_defs)

lemma stuck_step:
  assumes "sk_step a s s'" and "stuck s"
  shows "stuck s'"
  using assms(1)
proof (cases rule: sk_step.cases)
  case by_bus
  with assms(2) show ?thesis by (simp add: bus_step_def stuck_def)
next
  case (by_skier i r)
  then obtain pc t where run: "skier_run a r i (skiers s i) s = Some (pc, t)"
      "s' = t\<lparr>skiers := (skiers s)(i := pc)\<rparr>"
    by (elim skier_step_parts)
  with outside_run [OF run(1)] skier_run_frame [OF run(1)] assms(2) show ?thesis
    by (simp add: stuck_def)
qed

lemma stuck_for_ever:
  assumes "(sk_step a)\<^sup>*\<^sup>* s s'" and "stuck s"
  shows "stuck s'"
  using assms by (induction rule: rtranclp_induct) (auto intro: stuck_step)

text \<open>The bus runs alone: no skier has moved.\<close>

definition alone :: "nat \<Rightarrow> nat \<Rightarrow> bus_pc \<Rightarrow> int \<Rightarrow> (int \<times> msg) list \<Rightarrow> sk_state" where
  "alone ws mx pc x out = sk_init\<lparr>write_sync := ws, mutex := mx, bus := pc, A := x, outp := out\<rparr>"

lemma alone_step:
  assumes "bus_run a pc (alone ws mx pc x out) = Some (pc', alone ws' mx' pc x' out')"
  shows "sk_step a (alone ws mx pc x out) (alone ws' mx' pc' x' out')"
proof (rule by_bus)
  show "bus_step a (alone ws mx pc x out) = Some (alone ws' mx' pc' x' out')"
    using assms by (simp add: bus_step_def alone_def)
qed

lemma alone_writes:
  assumes "\<And>w s. bus_run a (here w) s = write_line text w here nxt s"
  shows "(sk_step a)\<^sup>*\<^sup>* (alone 1 1 (here WLock) x out) (alone 1 1 nxt (x + 1) (out @ [(x + 1, text)]))"
proof -
  have s1: "sk_step a (alone 1 1 (here WLock) x out) (alone 0 1 (here WLoad) x out)"
    by (rule alone_step) (simp add: assms write_line_def alone_def)
  have s2: "sk_step a (alone 0 1 (here WLoad) x out) (alone 0 1 (here (WStore x)) x out)"
    by (rule alone_step) (simp add: assms write_line_def alone_def)
  have s3: "sk_step a (alone 0 1 (here (WStore x)) x out) (alone 0 1 (here (WPrint (x + 1))) (x + 1) out)"
    by (rule alone_step) (simp add: assms write_line_def alone_def)
  have s4: "sk_step a (alone 0 1 (here (WPrint (x + 1))) (x + 1) out)
      (alone 0 1 (here WPost) (x + 1) (out @ [(x + 1, text)]))"
    by (rule alone_step) (simp add: assms write_line_def alone_def)
  have s5: "sk_step a (alone 0 1 (here WPost) (x + 1) (out @ [(x + 1, text)]))
      (alone 1 1 nxt (x + 1) (out @ [(x + 1, text)]))"
    by (rule alone_step) (simp add: assms write_line_def alone_def)
  show ?thesis
    using s1 s2 s3 s4 s5 by (meson r_into_rtranclp rtranclp_trans)
qed

lemma alone_stop:
  assumes "tb a \<noteq> 0"
  shows "\<exists>x' out'. (sk_step a)\<^sup>*\<^sup>* (alone 1 1 (BRide k) x out) (alone 1 1 (next_stop a k) x' out')"
proof -
  have s1: "sk_step a (alone 1 1 (BRide k) x out) (alone 1 1 (BArrived k WLock) x out)"
    by (rule alone_step) (simp add: assms)
  have s2: "(sk_step a)\<^sup>*\<^sup>* (alone 1 1 (BArrived k WLock) x out)
      (alone 1 1 (BMutex k) (x + 1) (out @ [(x + 1, BUS_ARRIVED k)]))"
    by (rule alone_writes) simp
  let ?o = "out @ [(x + 1, BUS_ARRIVED k)]"
  have s3: "sk_step a (alone 1 1 (BMutex k) (x + 1) ?o) (alone 1 0 (BTest k) (x + 1) ?o)"
    by (rule alone_step) (simp add: alone_def)
  have s4: "sk_step a (alone 1 0 (BTest k) (x + 1) ?o) (alone 1 0 (BPostNone k) (x + 1) ?o)"
    by (rule alone_step) (simp add: alone_def sk_init_def)
  have s5: "sk_step a (alone 1 0 (BPostNone k) (x + 1) ?o) (alone 1 1 (BLeaving k WLock) (x + 1) ?o)"
    by (rule alone_step) (simp add: alone_def)
  have s6: "(sk_step a)\<^sup>*\<^sup>* (alone 1 1 (BLeaving k WLock) (x + 1) ?o)
      (alone 1 1 (next_stop a k) (x + 1 + 1) (?o @ [(x + 1 + 1, BUS_LEAVING k)]))"
    by (rule alone_writes) simp
  show ?thesis
    using s1 s2 s3 s4 s5 s6 by (meson r_into_rtranclp rtranclp_trans)
qed

lemma alone_round:
  assumes "tb a \<noteq> 0"
  shows "\<exists>x' out'. (sk_step a)\<^sup>*\<^sup>* (alone 1 1 (next_stop a k) x out) (alone 1 1 BRideFinal x' out')"
proof (induction "nat (num_stops a - int k)" arbitrary: k x out rule: less_induct)
  case less
  show ?case
  proof (cases "int (k + 1) \<le> num_stops a")
    case True
    from alone_stop [OF assms, of "k + 1" x out] obtain x1 out1 where
      1: "(sk_step a)\<^sup>*\<^sup>* (alone 1 1 (BRide (k + 1)) x out) (alone 1 1 (next_stop a (k + 1)) x1 out1)"
      by blast
    have "nat (num_stops a - int (k + 1)) < nat (num_stops a - int k)" using True by simp
    from less [OF this, of x1 out1] obtain x2 out2 where
      "(sk_step a)\<^sup>*\<^sup>* (alone 1 1 (next_stop a (k + 1)) x1 out1) (alone 1 1 BRideFinal x2 out2)"
      by blast
    with 1 have "(sk_step a)\<^sup>*\<^sup>* (alone 1 1 (BRide (k + 1)) x out) (alone 1 1 BRideFinal x2 out2)"
      by (rule rtranclp_trans)
    with True show ?thesis unfolding next_stop_def by auto
  next
    case False
    then show ?thesis by (auto simp: next_stop_def)
  qed
qed

lemma stuck_reachable:
  assumes "tb a \<noteq> 0"
  shows "\<exists>s. reachable a s \<and> stuck s"
proof -
  have init: "sk_init = alone 1 1 (BStarted WLock) 0 []" by (simp add: alone_def sk_init_def)
  have s1: "(sk_step a)\<^sup>*\<^sup>* (alone 1 1 (BStarted WLock) 0 []) (alone 1 1 (next_stop a 0) (0 + 1) ([] @ [(0 + 1, BUS_STARTED)]))"
    by (rule alone_writes) simp
  from alone_round [OF assms, of 0 "0 + 1" "[] @ [(0 + 1, BUS_STARTED)]"] obtain x out where
    s2: "(sk_step a)\<^sup>*\<^sup>* (alone 1 1 (next_stop a 0) (0 + 1) ([] @ [(0 + 1, BUS_STARTED)])) (alone 1 1 BRideFinal x out)"
    by blast
  have s3: "sk_step a (alone 1 1 BRideFinal x out) (alone 1 1 (BFinal WLock) x out)"
    by (rule alone_step) (simp add: assms)
  have s4: "(sk_step a)\<^sup>*\<^sup>* (alone 1 1 (BFinal WLock) x out) (alone 1 1 BLetOff (x + 1) (out @ [(x + 1, BUS_FINAL)]))"
    by (rule alone_writes) simp
  let ?s = "(alone 1 1 BWaitOff (x + 1) (out @ [(x + 1, BUS_FINAL)]))\<lparr>let_skiers_leave := 1\<rparr>"
  have s5: "sk_step a (alone 1 1 BLetOff (x + 1) (out @ [(x + 1, BUS_FINAL)])) ?s"
    by (rule by_bus) (simp add: bus_step_def alone_def sk_init_def)
  have "reachable a ?s"
    unfolding reachable_def init using s1 s2 s3 s4 s5 by (meson r_into_rtranclp rtranclp_trans)
  moreover have "stuck ?s"
    by (simp add: stuck_def alone_def sk_init_def outside_bus_def boarded_def aboard_def place_defs)
  ultimately show ?thesis by blast
qed

section \<open>Runs along a schedule\<close>

text \<open>A schedule names the process of each step, 0 for the bus; \<open>rand()\<close> is 0.\<close>

fun run_schedule :: "CLIArguments \<Rightarrow> nat list \<Rightarrow> sk_state \<Rightarrow> sk_state option" where
  "run_schedule a [] s = Some s"
| "run_schedule a (p # ps) s =
     (case (if p = 0 then bus_step a s
            else if int p \<le> num_skiers a then skier_step a 0 p s else None) of
        None \<Rightarrow> None
      | Some s' \<Rightarrow> run_schedule a ps s')"

lemma run_schedule_steps:
  "run_schedule a ps s = Some s' \<Longrightarrow> (sk_step a)\<^sup>*\<^sup>* s s'"
proof (induction ps arbitrary: s)
  case (Cons p ps)
  then obtain t where t: "(if p = 0 then bus_step a s
      else if int p \<le> num_skiers a then skier_step a 0 p s else None) = Some t"
      "run_schedule a ps t = Some s'"
    by (auto split: option.splits)
  have "sk_step a s t"
  proof (cases "p = 0")
    case True
    with t(1) show ?thesis by (simp add: sk_step.by_bus)
  next
    case False
    with t(1) show ?thesis by (auto intro: sk_step.by_skier [of p _ 0] split: if_splits)
  qed
  with Cons.IH [OF t(2)] show ?case by (simp add: converse_rtranclp_into_rtranclp)
qed simp

lemma run_schedule_reachable: "run_schedule a ps sk_init = Some s \<Longrightarrow> reachable a s"
  unfolding reachable_def by (rule run_schedule_steps)

end
