(* ===== verification/Skibus_Claims.thy ===== *)
theory Skibus_Claims
  imports Skibus_Runs
begin

text \<open>The properties of \<open>ios/skibus\<close>, for the arguments that \<open>parse_arguments\<close> accepts.\<close>

section \<open>Arguments\<close>

lemma parsed_ranges:
  assumes "parse_arguments argv = (Inr a, w)"
  shows "w = [] \<and> 0 \<le> num_skiers a \<and> num_skiers a < 20000 \<and> 1 \<le> num_stops a \<and> num_stops a \<le> 10 \<and>
         10 \<le> capacity a \<and> capacity a \<le> 100 \<and> 0 \<le> tl a \<and> tl a \<le> 10000 \<and> 0 \<le> tb a \<and> tb a \<le> 1000"
proof -
  have no: "bind_io (emit e) (\<lambda>_. stop h) \<noteq> (Inr a, v)" for e :: cli_event and h v
    by (simp add: bind_ok_iff)
  have at: "v = []" if "atoi x = (Inr n, v)" for x n and v :: "cli_event list"
    using that by (auto simp: atoi_def split: list.splits if_splits)
  from assms show ?thesis
    by (auto simp: parse_arguments_def reject_def bind_ok_iff no dest!: at split: if_splits)
qed

text \<open>
  C29. What \<open>parse_arguments\<close> lets through: it prints nothing and the numbers are in the ranges of
  its checks. These are not the ranges of its messages: no skiers and a time of 0 are accepted,
  although the messages for the first and the fourth argument ask for more than 0.
\<close>

theorem parse_arguments_ranges:
  assumes "parse_arguments argv = (Inr a, w)"
  shows "w = [] \<and> 0 \<le> num_skiers a \<and> num_skiers a < 20000 \<and> 1 \<le> num_stops a \<and> num_stops a \<le> 10 \<and>
         10 \<le> capacity a \<and> capacity a \<le> 100 \<and> 0 \<le> tl a \<and> tl a \<le> 10000 \<and> 0 \<le> tb a \<and> tb a \<le> 1000"
  using assms by (rule parsed_ranges)

definition sample_argv :: "string list" where
  "sample_argv = [''skibus'', ''1'', ''1'', ''10'', ''1'', ''1'']"

definition sample_args :: CLIArguments where
  "sample_args = \<lparr>num_skiers = 1, num_stops = 1, capacity = 10, tl = 1, tb = 1\<rparr>"

lemma sample_parses: "parse_arguments sample_argv = (Inr sample_args, [])"
  by code_simp

theorem parse_arguments_ranges_witness:
  "10 \<le> capacity sample_args \<and> 1 \<le> num_stops sample_args"
  using parse_arguments_ranges [OF sample_parses] by simp

section \<open>Safety\<close>

text \<open>
  C20. Numbered output: in every state that the processes can reach, in any interleaving of their
  steps, the lines written so far are numbered 1, 2, 3, and so on, in the order of the file.
\<close>

theorem output_numbered:
  assumes "parse_arguments argv = (Inr a, w)" and "reachable a s"
  shows "map fst (outp s) = map int [1..<Suc (length (outp s))]"
  using num_inv_reachable [OF assms(2)] parsed_ranges [OF assms(1)] by (simp add: num_inv_def numbers_def)

text \<open>One skier comes to the stop, takes the bus, and goes to ski.\<close>

definition full_run :: "nat list" where
  "full_run = replicate 16 1 @ replicate 16 0 @ replicate 14 1 @ replicate 13 0 @ replicate 10 1 @ replicate 12 0"

lemma full_run_ends: "map_option bus (run_schedule sample_args full_run sk_init) = Some BDone"
  by code_simp

lemma full_run_reachable: "\<exists>s :: sk_state. reachable sample_args s \<and> bus s = BDone"
  using full_run_ends run_schedule_reachable by (auto simp: map_option_case split: option.splits)

theorem output_numbered_witness:
  "\<exists>s :: sk_state. bus s = BDone \<and> map fst (outp s) = map int [1..<Suc (length (outp s))]"
  using full_run_reachable output_numbered [OF sample_parses] by blast

text \<open>
  C6. The capacity: in every reachable state \<open>num_skiers_onboard\<close> is the number of skiers between
  boarding and getting off, although its increments are not atomic and no lock protects them,
  and it is never more than the capacity of the bus.
\<close>

theorem capacity_kept:
  assumes "parse_arguments argv = (Inr a, w)" and "reachable a s"
  shows "num_skiers_onboard s = int (card {i \<in> riders a. aboard (skiers s i) = 1}) \<and>
         num_skiers_onboard s \<le> capacity a"
proof -
  have "turn_inv a s"
    using turn_inv_reachable [OF assms(2)] parsed_ranges [OF assms(1)] by simp
  moreover have "held a aboard (skiers s) = card {i \<in> riders a. aboard (skiers s i) = 1}"
  proof -
    have "held a aboard (skiers s) = (\<Sum>i \<in> riders a. if aboard (skiers s i) = 1 then 1 else 0)"
      unfolding held_def by (intro sum.cong refl) (auto simp: aboard_def split: skier_pc.splits)
    then show ?thesis by (simp add: sum.If_cases Int_def conj_commute)
  qed
  ultimately show ?thesis by (simp add: turn_inv_def)
qed

theorem capacity_kept_witness:
  "\<exists>s :: sk_state. bus s = BDone \<and> num_skiers_onboard s \<le> capacity sample_args"
  using full_run_reachable capacity_kept [OF sample_parses] by blast

text \<open>
  C5. No skier is left behind: when the bus writes its last line, every skier has got off the bus
  and finished, and has written its four lines.
\<close>

theorem finish_means_all_skied:
  assumes "parse_arguments argv = (Inr a, w)" and "reachable a s"
    and "bus s = BDone \<or> bus s = BFinish x" and "1 \<le> i" and "int i \<le> num_skiers a"
  shows "skiers s i = SDone \<and> kinds i (outp s) = [1, 2, 3, 4]"
proof -
  have "skiers s i = SDone"
    using finish_all_done [OF assms(2) _ _ _ assms(3)] parsed_ranges [OF assms(1)] assms(4,5)
    by (simp add: rider_iff)
  then show ?thesis
    using kinds_reachable [OF assms(2), of i] by (simp add: lines_done_def upt_rec)
qed

theorem finish_means_all_skied_witness:
  "\<exists>s :: sk_state. bus s = BDone \<and> skiers s 1 = SDone \<and> kinds 1 (outp s) = [1, 2, 3, 4]"
proof -
  obtain s where s: "reachable sample_args s" "bus s = BDone" using full_run_reachable by blast
  have "int 1 \<le> num_skiers sample_args" by (simp add: sample_args_def)
  with s finish_means_all_skied [OF sample_parses s(1), of WLock 1] show ?thesis by auto
qed

text \<open>
  C26. The lines of one skier come in order: in every reachable state they are the first ones of
  started, arrived, boarding, going to ski, each once.
\<close>

theorem skier_lines_in_order:
  assumes "parse_arguments argv = (Inr a, w)" and "reachable a s"
  shows "\<exists>n \<le> 4. kinds i (outp s) = take n [1, 2, 3, 4]"
proof -
  have "lines_done pc \<le> 4" for pc by (cases pc) (auto simp: lines_done_def written_def)
  moreover have "[1..<Suc n] = take n [1, 2, 3, 4]" if "n \<le> 4" for n :: nat
  proof -
    have "n = 0 \<or> n = 1 \<or> n = 2 \<or> n = 3 \<or> n = 4" using that by auto
    then show ?thesis by (elim disjE) (simp_all add: upt_rec numeral_3_eq_3)
  qed
  ultimately show ?thesis using kinds_reachable [OF assms(2), of i] by metis
qed

theorem skier_lines_in_order_witness:
  "\<exists>(s :: sk_state) n. bus s = BDone \<and> kinds 1 (outp s) = take n [1, 2, 3, 4]"
  using full_run_reachable skier_lines_in_order [OF sample_parses] by blast

section \<open>Where it goes wrong\<close>

text \<open>
  C22. The bus can wait for ever: for all accepted arguments with a riding time above 0, a state
  can be reached in which the bus is at the final stop with nobody in it and waits for a skier to
  tell it that all are off; from there it never goes on, and no skier ever boards.
\<close>

theorem empty_bus_waits_for_ever:
  assumes "parse_arguments argv = (Inr a, w)" and "tb a \<noteq> 0"
  shows "\<exists>s :: sk_state. reachable a s \<and> (\<forall>s'. (sk_step a)\<^sup>*\<^sup>* s s' \<longrightarrow>
           bus s' = BWaitOff \<and> (\<forall>i. skiers s' i \<noteq> SDone \<and> boarded (skiers s' i) = 0))"
proof -
  from stuck_reachable [OF assms(2)] obtain s where s: "reachable a s" "stuck s" by blast
  have "bus s' = BWaitOff \<and> (\<forall>i. skiers s' i \<noteq> SDone \<and> boarded (skiers s' i) = 0)"
    if "(sk_step a)\<^sup>*\<^sup>* s s'" for s'
  proof -
    have "stuck s'" using stuck_for_ever [OF that s(2)] .
    then show ?thesis by (auto simp: stuck_def outside_bus_def boarded_def split: skier_pc.splits)
  qed
  with s(1) show ?thesis by blast
qed

theorem empty_bus_waits_for_ever_witness:
  "\<exists>s :: sk_state. reachable sample_args s \<and> bus s = BWaitOff \<and>
     (\<forall>s'. (sk_step sample_args)\<^sup>*\<^sup>* s s' \<longrightarrow> bus s' \<noteq> BDone)"
proof -
  have "tb sample_args \<noteq> 0" by (simp add: sample_args_def)
  from empty_bus_waits_for_ever [OF sample_parses this] show ?thesis by fastforce
qed

text \<open>
  C28. A lost update: \<open>--(*waiting)\<close> in \<open>skier_process\<close> is outside of the mutex, and a skier that
  arrives between its read and its write is forgotten: the counter of the stop is 0 while a
  skier waits there, and the one in the bus tells it that all are aboard.
\<close>

theorem waiting_skier_forgotten:
  "\<exists>s :: sk_state. reachable \<lparr>num_skiers = 2, num_stops = 1, capacity = 10, tl = 1, tb = 1\<rparr> s \<and>
       skiers s 2 = SWait 1 \<and> waiting s 1 = 0 \<and> skiers s 1 = SPostAll"
proof -
  let ?a = "\<lparr>num_skiers = 2, num_stops = 1, capacity = 10, tl = 1, tb = 1\<rparr>"
  let ?ps = "replicate 16 1 @ replicate 16 0 @ replicate 11 1 @ replicate 16 2 @ replicate 2 1"
  have "map_option (\<lambda>s. (skiers s 2, waiting s 1, skiers s 1)) (run_schedule ?a ?ps sk_init) =
      Some (SWait 1, 0, SPostAll)"
    by code_simp
  then show ?thesis using run_schedule_reachable by (auto simp: map_option_case split: option.splits)
qed

text \<open>
  A riding time of 0, which the program accepts, makes \<open>rand() % args.tb\<close> a division by zero:
  the bus never arrives at any stop.
\<close>

theorem no_riding_time:
  assumes "parse_arguments argv = (Inr a, w)" and "tb a = 0" and "reachable a s"
  shows "(\<exists>x. bus s = BStarted x) \<or> bus s = BRide 1 \<or> bus s = BCrash"
  using assms(3)
proof (induction rule: reachable_induct)
  case init
  show ?case by (simp add: sk_init_def)
next
  case (step s s')
  have stops: "1 \<le> num_stops a" using parsed_ranges [OF assms(1)] by simp
  from step.hyps(2) show ?case
  proof (cases rule: sk_step.cases)
    case by_bus
    with step.IH assms(2) stops show ?thesis
      by (elim bus_step_parts disjE exE) (auto simp: next_stop_def elim!: write_line_cases)
  next
    case by_skier
    with step.IH show ?thesis by (elim skier_step_parts) (auto dest!: skier_run_frame)
  qed
qed

theorem no_riding_time_witness:
  "(\<exists>x. bus sk_init = BStarted x) \<or> bus sk_init = BRide 1 \<or> bus sk_init = BCrash"
proof -
  have p: "parse_arguments [''skibus'', ''1'', ''1'', ''10'', ''1'', ''0''] =
      (Inr \<lparr>num_skiers = 1, num_stops = 1, capacity = 10, tl = 1, tb = 0\<rparr>, [])"
    by code_simp
  show ?thesis by (rule no_riding_time [OF p]) (simp_all add: reachable_def)
qed

end
