(* ===== verification/Skibus_Setup.thy ===== *)
theory Skibus_Setup
  imports Skibus Format
begin

text \<open>
  \<open>ios/skibus\<close> before it forks and after its processes have ended: \<open>shared.c\<close>, \<open>semaphors.c\<close> and the
  parts of \<open>main\<close> that call them. Pointers are kept: \<open>SharedVars\<close> has references to mapped blocks and
  handles of named semaphores, so that the counters of \<open>Skibus\<close> are a view of what they point to.
  The semaphores of POSIX are modelled as far as the code uses them. Allocation and mapping
  succeed; \<open>sem_open\<close> fails when the name exists, as \<open>O_EXCL\<close> asks for.
\<close>

section \<open>Pointers and the state of the system\<close>

datatype sem_ref = Mapped nat | Handle nat

text \<open>\<open>None\<close> is the null pointer, which is also \<open>SEM_FAILED\<close>.\<close>

type_synonym sem_ptr = "sem_ref option"

text \<open>A block is zeroed memory that nothing reads, an \<open>int\<close>, or an array of pointers.\<close>

datatype block = Zeros | IntCell int | Ptrs "sem_ptr option list"

record SharedVars =
  mutex_p :: sem_ptr
  write_sync_p :: sem_ptr
  bus_capacity_p :: sem_ptr
  all_aboard_p :: sem_ptr
  let_skiers_leave_p :: sem_ptr
  bus_stops_p :: "nat option"
  A_p :: "nat option"
  num_skiers_onboard_p :: "nat option"
  num_skiers_skiing_p :: "nat option"
  waiting_p :: "nat option option list"
  output_p :: "nat option"

record sys =
  shared :: SharedVars
  blocks :: "nat \<Rightarrow> block option"
  next_block :: nat
  named :: "string \<Rightarrow> nat option"
  opened :: "nat set"
  sem_value :: "nat \<Rightarrow> nat"
  next_sem :: nat

datatype setup_event = Perror string

type_synonym 'a setup_io = "(setup_event, 'a) io"

text \<open>The global variable \<open>shared\<close> is zero when the program starts.\<close>

definition shared_zero :: SharedVars where
  "shared_zero =
     \<lparr>mutex_p = None, write_sync_p = None, bus_capacity_p = None, all_aboard_p = None,
      let_skiers_leave_p = None, bus_stops_p = None, A_p = None, num_skiers_onboard_p = None,
      num_skiers_skiing_p = None, waiting_p = replicate 11 (Some None), output_p = None\<rparr>"

text \<open>\<open>for (int i = 0; i < n; i++)\<close> over a state.\<close>

fun each :: "('a \<Rightarrow> 's \<Rightarrow> ('ev, 's) io) \<Rightarrow> 'a list \<Rightarrow> 's \<Rightarrow> ('ev, 's) io" where
  "each f [] s = ret s"
| "each f (x # xs) s = bind_io (f x s) (each f xs)"

section \<open>Calls of the system\<close>

definition mmap :: "block \<Rightarrow> sys \<Rightarrow> nat \<times> sys" where
  "mmap b s = (next_block s, s\<lparr>blocks := (blocks s)(next_block s \<mapsto> b), next_block := Suc (next_block s)\<rparr>)"

text \<open>
  Unmapping or freeing takes the block away. An address where nothing is mapped, the null
  pointer and the address of a closed semaphore change nothing.
\<close>

definition munmap :: "nat option \<Rightarrow> sys \<Rightarrow> sys" where
  "munmap p s = (case p of None \<Rightarrow> s | Some b \<Rightarrow> s\<lparr>blocks := (blocks s)(b := None)\<rparr>)"

definition munmap_sem :: "sem_ptr \<Rightarrow> sys \<Rightarrow> sys" where
  "munmap_sem p s = (case p of Some (Mapped b) \<Rightarrow> munmap (Some b) s | _ \<Rightarrow> s)"

definition sem_open :: "string \<Rightarrow> int \<Rightarrow> sys \<Rightarrow> sem_ptr \<times> sys" where
  "sem_open name v s =
     (if named s name \<noteq> None \<or> v < 0 \<or> v > INT_MAX then (None, s)
      else (Some (Handle (next_sem s)),
            s\<lparr>named := (named s)(name \<mapsto> next_sem s), opened := insert (next_sem s) (opened s),
              sem_value := (sem_value s)(next_sem s := nat v), next_sem := Suc (next_sem s)\<rparr>))"

definition sem_close :: "sem_ptr \<Rightarrow> sys \<Rightarrow> sys" where
  "sem_close p s = (case p of Some (Handle n) \<Rightarrow> s\<lparr>opened := opened s - {n}\<rparr> | _ \<Rightarrow> s)"

definition sem_unlink :: "string \<Rightarrow> sys \<Rightarrow> sys" where
  "sem_unlink name s = s\<lparr>named := (named s)(name := None)\<rparr>"

text \<open>\<open>p[i]\<close> for an array of semaphores, read and written.\<close>

definition get_ptrs :: "nat option \<Rightarrow> sys \<Rightarrow> sem_ptr option list setup_io" where
  "get_ptrs p s =
     (case p of
        None \<Rightarrow> stop (Fault NullPointer)
      | Some b \<Rightarrow> (case blocks s b of Some (Ptrs ps) \<Rightarrow> ret ps | _ \<Rightarrow> stop (Fault OutOfBounds)))"

definition get_stop :: "int \<Rightarrow> sys \<Rightarrow> sem_ptr setup_io" where
  "get_stop i s = bind_io (get_ptrs (bus_stops_p (shared s)) s) (\<lambda>ps. arr_get ps i)"

definition set_stop :: "int \<Rightarrow> sem_ptr \<Rightarrow> sys \<Rightarrow> sys setup_io" where
  "set_stop i x s =
     bind_io (get_ptrs (bus_stops_p (shared s)) s) (\<lambda>ps.
     bind_io (arr_set ps i x) (\<lambda>ps'.
       ret (s\<lparr>blocks := (blocks s)(the (bus_stops_p (shared s)) \<mapsto> Ptrs ps')\<rparr>)))"

text \<open>\<open>*p = x\<close> for a pointer to \<open>int\<close>.\<close>

definition set_int :: "nat option \<Rightarrow> int \<Rightarrow> sys \<Rightarrow> sys setup_io" where
  "set_int p x s =
     (case p of
        None \<Rightarrow> stop (Fault NullPointer)
      | Some b \<Rightarrow> (case blocks s b of Some (IntCell _) \<Rightarrow> ret (s\<lparr>blocks := (blocks s)(b \<mapsto> IntCell x)\<rparr>)
                 | _ \<Rightarrow> stop (Fault OutOfBounds)))"

section \<open>\<open>shared.c\<close>\<close>

definition map_sem :: "((sem_ptr \<Rightarrow> sem_ptr) \<Rightarrow> SharedVars \<Rightarrow> SharedVars) \<Rightarrow> sys \<Rightarrow> sys" where
  "map_sem upd s = (case mmap Zeros s of (b, s') \<Rightarrow> s'\<lparr>shared := upd (\<lambda>_. Some (Mapped b)) (shared s')\<rparr>)"

definition map_int :: "((nat option \<Rightarrow> nat option) \<Rightarrow> SharedVars \<Rightarrow> SharedVars) \<Rightarrow> block \<Rightarrow> sys \<Rightarrow> sys" where
  "map_int upd z s = (case mmap z s of (b, s') \<Rightarrow> s'\<lparr>shared := upd (\<lambda>_. Some b) (shared s')\<rparr>)"

definition map_stop :: "int \<Rightarrow> sys \<Rightarrow> sys setup_io" where
  "map_stop i s = (case mmap Zeros s of (b, s') \<Rightarrow> set_stop i (Some (Mapped b)) s')"

definition map_waiting :: "int \<Rightarrow> sys \<Rightarrow> sys setup_io" where
  "map_waiting i s =
     (case mmap (IntCell 0) s of (b, s') \<Rightarrow>
        bind_io (arr_set (waiting_p (shared s')) i (Some b)) (\<lambda>ws.
          ret (s'\<lparr>shared := (shared s')\<lparr>waiting_p := ws\<rparr>\<rparr>)))"

definition map_shared_memory :: "CLIArguments \<Rightarrow> sys \<Rightarrow> sys setup_io" where
  "map_shared_memory a s =
     (let s = map_sem write_sync_p_update s; s = map_sem mutex_p_update s;
          s = map_sem bus_capacity_p_update s; s = map_sem all_aboard_p_update s;
          s = map_int bus_stops_p_update (Ptrs (replicate (nat (num_stops a + 1)) (Some None))) s
      in bind_io (each map_stop [0..num_stops a] s) (\<lambda>s.
         let s = map_int A_p_update (IntCell 0) s;
             s = map_int num_skiers_onboard_p_update (IntCell 0) s;
             s = map_int num_skiers_skiing_p_update (IntCell 0) s
         in bind_io (each map_waiting [0..10] s) (\<lambda>s.
         ret (map_int output_p_update Zeros s))))"

text \<open>
  \<open>munmap(shared->waiting, ...)\<close> is given the address of the array inside of \<open>shared\<close>, where no
  mapping begins: nothing happens.
\<close>

definition unmap_stop :: "int \<Rightarrow> sys \<Rightarrow> sys setup_io" where
  "unmap_stop i s = bind_io (get_stop i s) (\<lambda>p. ret (munmap_sem p s))"

definition unmap_shared_memory :: "CLIArguments \<Rightarrow> sys \<Rightarrow> sys setup_io" where
  "unmap_shared_memory a s =
     (let v = shared s;
          s = munmap_sem (write_sync_p v) s; s = munmap_sem (mutex_p v) s;
          s = munmap_sem (bus_capacity_p v) s; s = munmap_sem (all_aboard_p v) s
      in bind_io (each unmap_stop [0..num_stops a] s) (\<lambda>s.
         let s = munmap (bus_stops_p v) s;
             s = munmap (A_p v) s; s = munmap (num_skiers_onboard_p v) s;
             s = munmap (num_skiers_skiing_p v) s
         in ret (munmap (output_p v) s)))"

section \<open>\<open>semaphors.c\<close>\<close>

definition sem_name :: "string \<Rightarrow> string" where
  "sem_name x = ''/xpavlim00.ios.proj2.'' @ x"

text \<open>\<open>sprintf\<close> into an array of 50 characters.\<close>

definition stop_name :: "int \<Rightarrow> string setup_io" where
  "stop_name i =
     (let n = sem_name (''bus_stop'' @ show_int i)
      in if length n < 50 then ret n else stop (Fault OutOfBounds))"

definition open_sem ::
  "((sem_ptr \<Rightarrow> sem_ptr) \<Rightarrow> SharedVars \<Rightarrow> SharedVars) \<Rightarrow> string \<Rightarrow> int \<Rightarrow> sys \<Rightarrow> sys" where
  "open_sem upd x v s = (case sem_open (sem_name x) v s of (p, s') \<Rightarrow> s'\<lparr>shared := upd (\<lambda>_. p) (shared s')\<rparr>)"

definition open_stop :: "int \<Rightarrow> sys \<Rightarrow> sys setup_io" where
  "open_stop i s =
     bind_io (stop_name i) (\<lambda>n. case sem_open n 0 s of (p, s') \<Rightarrow> set_stop i p s')"

definition create_semaphores :: "CLIArguments \<Rightarrow> sys \<Rightarrow> sys setup_io" where
  "create_semaphores a s =
     (let s = open_sem write_sync_p_update ''write_sync'' 1 s;
          s = open_sem mutex_p_update ''mutex'' 1 s;
          s = open_sem bus_capacity_p_update ''bus_capacity'' (capacity a) s;
          s = open_sem all_aboard_p_update ''all_aboard'' 0 s;
          s = open_sem let_skiers_leave_p_update ''let_skiers_leave'' 0 s;
          s = map_int bus_stops_p_update (Ptrs (replicate (nat (num_stops a + 1)) None)) s
      in each open_stop [0..num_stops a] s)"

definition close_stop :: "int \<Rightarrow> sys \<Rightarrow> sys setup_io" where
  "close_stop i s =
     bind_io (stop_name i) (\<lambda>n. bind_io (get_stop i s) (\<lambda>p. ret (sem_unlink n (sem_close p s))))"

definition destroy_semaphores :: "CLIArguments \<Rightarrow> sys \<Rightarrow> sys setup_io" where
  "destroy_semaphores a s =
     (let v = shared s;
          s = sem_close (write_sync_p v) s; s = sem_close (mutex_p v) s;
          s = sem_close (bus_capacity_p v) s; s = sem_close (all_aboard_p v) s;
          s = sem_close (let_skiers_leave_p v) s;
          s = sem_unlink (sem_name ''write_sync'') s; s = sem_unlink (sem_name ''mutex'') s;
          s = sem_unlink (sem_name ''bus_capacity'') s; s = sem_unlink (sem_name ''all_aboard'') s;
          s = sem_unlink (sem_name ''let_skiers_leave'') s
      in bind_io (each close_stop [0..num_stops a] s) (\<lambda>s. ret (munmap (bus_stops_p v) s)))"

text \<open>
  \<open>None\<close> is waiting. A signal ends a wait with an error (\<open>intr\<close>). A semaphore of the mapped
  memory was never initialised.
\<close>

definition lock_sem :: "bool \<Rightarrow> sem_ptr \<Rightarrow> sys \<Rightarrow> sys setup_io option" where
  "lock_sem intr p s =
     (case p of
        None \<Rightarrow> Some (stop (Fault NullPointer))
      | Some (Mapped b) \<Rightarrow> Some (stop (Fault Uninitialised))
      | Some (Handle n) \<Rightarrow>
          if n \<notin> opened s then Some (stop (Fault OutOfBounds))
          else if 0 < sem_value s n then Some (ret (s\<lparr>sem_value := (sem_value s)(n := sem_value s n - 1)\<rparr>))
          else if intr then Some (bind_io (emit (Perror ''sem_wait'')) (\<lambda>_. stop (Exit 1)))
          else None)"

definition unlock_sem :: "sem_ptr \<Rightarrow> sys \<Rightarrow> sys setup_io" where
  "unlock_sem p s =
     (case p of
        None \<Rightarrow> stop (Fault NullPointer)
      | Some (Mapped b) \<Rightarrow> stop (Fault Uninitialised)
      | Some (Handle n) \<Rightarrow>
          if n \<notin> opened s then stop (Fault OutOfBounds)
          else if int (sem_value s n) < INT_MAX
          then ret (s\<lparr>sem_value := (sem_value s)(n := sem_value s n + 1)\<rparr>)
          else bind_io (emit (Perror ''sem_post'')) (\<lambda>_. stop (Exit 1)))"

section \<open>\<open>main\<close> around the processes\<close>

text \<open>\<open>*shared.waiting = 0\<close> makes the first pointer of the array null.\<close>

definition main_setup :: "CLIArguments \<Rightarrow> sys \<Rightarrow> sys setup_io" where
  "main_setup a s =
     bind_io (map_shared_memory a s) (\<lambda>s.
     bind_io (create_semaphores a s) (\<lambda>s.
     bind_io (set_int (A_p (shared s)) 0 s) (\<lambda>s.
     bind_io (set_int (num_skiers_onboard_p (shared s)) 0 s) (\<lambda>s.
     bind_io (arr_set (waiting_p (shared s)) 0 None) (\<lambda>ws.
       ret (s\<lparr>shared := (shared s)\<lparr>waiting_p := ws\<rparr>\<rparr>))))))"

definition main_end :: "CLIArguments \<Rightarrow> sys \<Rightarrow> sys setup_io" where
  "main_end a s = bind_io (destroy_semaphores a s) (unmap_shared_memory a)"

text \<open>\<open>SIGINT\<close> is 2 and \<open>SIGKILL\<close> 9; \<open>fclose\<close> has no effect on what is modelled here.\<close>

definition signal_handler :: "int \<Rightarrow> CLIArguments \<Rightarrow> sys \<Rightarrow> sys setup_io" where
  "signal_handler signum a s =
     (if signum = 2 \<or> signum = 9
      then bind_io (destroy_semaphores a s) (\<lambda>s. bind_io (unmap_shared_memory a s) (\<lambda>s. stop (Exit 0)))
      else ret s)"

text \<open>The system and the program before the first line of \<open>main\<close>.\<close>

definition start_sys :: "(string \<Rightarrow> nat option) \<Rightarrow> sys" where
  "start_sys names =
     \<lparr>shared = shared_zero, blocks = (\<lambda>_. None), next_block = 0, named = names, opened = {},
      sem_value = (\<lambda>_. 0), next_sem = 0\<rparr>"

end
