(* ===== verification/Skibus_Shared.thy ===== *)
theory Skibus_Shared
  imports Skibus_Setup
begin

text \<open>
  What \<open>main\<close> of \<open>skibus\<close> has set up when it forks: the shared counters of \<open>Skibus\<close> are a view of the
  mapped memory and the named semaphores, \<open>lock_sem\<close> and \<open>unlock_sem\<close> are the steps on them, and what
  is left after the processes have ended.
\<close>

section \<open>The view\<close>

definition int_at :: "sys \<Rightarrow> nat option \<Rightarrow> int option" where
  "int_at s p =
     (case p of None \<Rightarrow> None
      | Some b \<Rightarrow> (case blocks s b of Some (IntCell x) \<Rightarrow> Some x | _ \<Rightarrow> None))"

definition sem_at :: "sys \<Rightarrow> sem_ptr \<Rightarrow> nat option" where
  "sem_at s p =
     (case p of Some (Handle n) \<Rightarrow> if n \<in> opened s then Some (sem_value s n) else None | _ \<Rightarrow> None)"

definition stop_ptrs :: "sys \<Rightarrow> sem_ptr option list" where
  "stop_ptrs s = (case fst (get_ptrs (bus_stops_p (shared s)) s) of Inr ps \<Rightarrow> ps | Inl _ \<Rightarrow> [])"

definition main_sems :: "SharedVars \<Rightarrow> sem_ptr list" where
  "main_sems v = [write_sync_p v, mutex_p v, bus_capacity_p v, all_aboard_p v, let_skiers_leave_p v]"

definition sem_ptrs :: "sys \<Rightarrow> sem_ptr list" where
  "sem_ptrs s = main_sems (shared s) @ map the (stop_ptrs s)"

definition int_ptrs :: "sys \<Rightarrow> nat option list" where
  "int_ptrs s =
     [A_p (shared s), num_skiers_onboard_p (shared s), num_skiers_skiing_p (shared s)]
     @ map the (drop 1 (waiting_p (shared s)))"

text \<open>All pointers that the processes use are valid, and no two are the same.\<close>

definition set_up :: "CLIArguments \<Rightarrow> sys \<Rightarrow> bool" where
  "set_up a s \<longleftrightarrow>
     length (stop_ptrs s) = nat (num_stops a + 1) \<and> list_all (\<lambda>p. p \<noteq> None) (stop_ptrs s)
     \<and> length (waiting_p (shared s)) = 11
     \<and> list_all (\<lambda>p. sem_at s p \<noteq> None) (sem_ptrs s) \<and> distinct (sem_ptrs s)
     \<and> list_all (\<lambda>p. int_at s p \<noteq> None) (int_ptrs s) \<and> distinct (int_ptrs s)"

definition view :: "CLIArguments \<Rightarrow> sys \<Rightarrow> sk_state" where
  "view a s =
     sk_init\<lparr>A := the (int_at s (A_p (shared s))),
       num_skiers_onboard := the (int_at s (num_skiers_onboard_p (shared s))),
       num_skiers_skiing := the (int_at s (num_skiers_skiing_p (shared s))),
       waiting := (\<lambda>k. if 1 \<le> k \<and> int k \<le> num_stops a
                       then the (int_at s (the (waiting_p (shared s) ! k))) else 0),
       write_sync := the (sem_at s (write_sync_p (shared s))),
       mutex := the (sem_at s (mutex_p (shared s))),
       all_aboard := the (sem_at s (all_aboard_p (shared s))),
       let_skiers_leave := the (sem_at s (let_skiers_leave_p (shared s))),
       bus_stops := (\<lambda>k. if int k \<le> num_stops a then the (sem_at s (the (stop_ptrs s ! k))) else 0)\<rparr>"

section \<open>Loops over states\<close>

lemma each_upto:
  fixes f :: "int \<Rightarrow> 's \<Rightarrow> ('ev, 's) io"
  assumes "\<And>i s. lo \<le> i \<Longrightarrow> i \<le> hi \<Longrightarrow> P i s \<Longrightarrow> \<exists>s'. f i s = ret s' \<and> P (i + 1) s'"
    and "P lo s" and "lo \<le> hi + 1"
  shows "\<exists>s'. each f [lo..hi] s = ret s' \<and> P (hi + 1) s'"
  using assms
proof (induction "nat (hi + 1 - lo)" arbitrary: lo s)
  case 0
  then show ?case by (simp add: ret_def)
next
  case (Suc n)
  then have le: "lo \<le> hi" by simp
  with Suc.prems(1) [of lo s] Suc.prems(2) obtain t where t: "f lo s = ret t" "P (lo + 1) t" by auto
  have "\<exists>s'. each f [lo + 1..hi] t = ret s' \<and> P (hi + 1) s'"
    by (rule Suc.hyps(1)) (use Suc.hyps(2) Suc.prems(1) t(2) le in auto)
  then show ?case using t(1) le by (simp add: upto_rec1)
qed

section \<open>The names\<close>

lemma show_int_length: "0 \<le> i \<Longrightarrow> i \<le> 10 \<Longrightarrow> length (show_int i) \<le> 2"
  by (simp add: show_int_def) (rule length_show_nat, auto)

lemma stop_name_ok:
  "0 \<le> i \<Longrightarrow> i \<le> 10 \<Longrightarrow> stop_name i = ret (sem_name (''bus_stop'' @ show_int i))"
  using show_int_length [of i] by (simp add: stop_name_def sem_name_def)

lemma show_int_inj: "0 \<le> i \<Longrightarrow> 0 \<le> j \<Longrightarrow> show_int i = show_int j \<longleftrightarrow> i = j"
  by (simp add: show_int_def show_nat_inj eq_nat_nat_iff)

lemma sem_name_inj [simp]: "sem_name x = sem_name y \<longleftrightarrow> x = y"
  by (simp add: sem_name_def)

definition main_names :: "string list" where
  "main_names = map sem_name [''write_sync'', ''mutex'', ''bus_capacity'', ''all_aboard'', ''let_skiers_leave'']"

definition stop_names :: "int \<Rightarrow> string list" where
  "stop_names n = map (\<lambda>i. sem_name (''bus_stop'' @ show_int i)) [0..n]"

definition used_names :: "CLIArguments \<Rightarrow> string list" where
  "used_names a = main_names @ stop_names (num_stops a)"

section \<open>Setting up\<close>

text \<open>What mapping leaves alone: the semaphores, and the blocks that were there.\<close>

definition sems_kept :: "sys \<Rightarrow> sys \<Rightarrow> bool" where
  "sems_kept s t \<longleftrightarrow>
     named t = named s \<and> opened t = opened s \<and> sem_value t = sem_value s \<and> next_sem t = next_sem s"

lemmas map_defs = map_sem_def map_int_def mmap_def

lemma get_ptrs_ok [simp]: "blocks s b = Some (Ptrs ps) \<Longrightarrow> get_ptrs (Some b) s = ret ps"
  by (simp add: get_ptrs_def)

lemma map_stops:
  assumes "bus_stops_p (shared s) = Some b" and "blocks s b = Some (Ptrs ps)" and "b < next_block s"
    and "length ps = nat (n + 1)" and "0 \<le> n"
  shows "\<exists>t. each map_stop [0..n] s = ret t \<and> shared t = shared s \<and> sems_kept s t \<and> next_block s \<le> next_block t"
proof -
  let ?P = "\<lambda>(i :: int) t. shared t = shared s \<and> sems_kept s t \<and> next_block s \<le> next_block t
      \<and> (\<exists>qs. blocks t b = Some (Ptrs qs) \<and> length qs = nat (n + 1))"
  have "\<exists>t. each map_stop [0..n] s = ret t \<and> ?P (n + 1) t"
  proof (rule each_upto [where P = ?P])
    fix i t
    assume "0 \<le> i" "i \<le> n" "?P i t"
    then show "\<exists>t'. map_stop i t = ret t' \<and> ?P (i + 1) t'"
      using assms by (auto simp: map_stop_def mmap_def set_stop_def sems_kept_def)
  qed (use assms in \<open>auto simp: sems_kept_def\<close>)
  then show ?thesis by blast
qed

lemma map_waits:
  assumes "length (waiting_p (shared s)) = 11"
  shows "\<exists>t. each map_waiting [0..10] s = ret t \<and> sems_kept s t
    \<and> shared t = (shared s)\<lparr>waiting_p := map (\<lambda>k. Some (Some (next_block s + k))) [0..<11]\<rparr>
    \<and> next_block t = next_block s + 11
    \<and> blocks t = (\<lambda>b. if next_block s \<le> b \<and> b < next_block s + 11 then Some (IntCell 0) else blocks s b)"
proof -
  let ?ws = "\<lambda>i. map (\<lambda>k. Some (Some (next_block s + k))) [0..<nat i] @ drop (nat i) (waiting_p (shared s))"
  let ?P = "\<lambda>(i :: int) t. sems_kept s t \<and> shared t = (shared s)\<lparr>waiting_p := ?ws i\<rparr>
    \<and> next_block t = next_block s + nat i
    \<and> blocks t = (\<lambda>b. if next_block s \<le> b \<and> b < next_block s + nat i then Some (IntCell 0) else blocks s b)"
  have "\<exists>t. each map_waiting [0..10] s = ret t \<and> ?P (10 + 1) t"
  proof (rule each_upto [where P = ?P])
    fix i :: int and t :: sys
    assume i: "0 \<le> i" "i \<le> 10" and P: "?P i t"
    have n: "nat (i + 1) = Suc (nat i)" using i by simp
    have "(?ws i)[nat i := Some (Some (next_block s + nat i))] = ?ws (i + 1)"
      using i assms unfolding n by (simp add: list_update_append flip: Cons_nth_drop_Suc)
    then show "\<exists>t'. map_waiting i t = ret t' \<and> ?P (i + 1) t'"
      using P i assms unfolding n by (auto simp: map_waiting_def mmap_def sems_kept_def fun_eq_iff)
  qed (auto simp: sems_kept_def intro!: ext)
  then show ?thesis using assms by auto
qed

text \<open>The pointers to the shared integers: fourteen blocks in a row, all of them 0.\<close>

definition zero_ints :: "nat \<Rightarrow> sys \<Rightarrow> bool" where
  "zero_ints b s \<longleftrightarrow>
     A_p (shared s) = Some b \<and> num_skiers_onboard_p (shared s) = Some (b + 1)
     \<and> num_skiers_skiing_p (shared s) = Some (b + 2)
     \<and> (\<exists>p. waiting_p (shared s) = Some p # map (\<lambda>k. Some (Some (b + 3 + k))) [1..<11])
     \<and> b + 14 \<le> next_block s \<and> (\<forall>c. b \<le> c \<and> c < b + 14 \<longrightarrow> blocks s c = Some (IntCell 0))"

lemma map_shared_memory_ok:
  assumes "0 \<le> num_stops a" and "length (waiting_p (shared s)) = 11"
  shows "\<exists>t b. map_shared_memory a s = ret t \<and> sems_kept s t \<and> zero_ints b t"
proof -
  define s1 where "s1 = map_sem all_aboard_p_update (map_sem bus_capacity_p_update
    (map_sem mutex_p_update (map_sem write_sync_p_update s)))"
  define s2 where "s2 = map_int bus_stops_p_update (Ptrs (replicate (nat (num_stops a + 1)) (Some None))) s1"
  have k2: "sems_kept s s2" and w2: "length (waiting_p (shared s2)) = 11"
    using assms by (simp_all add: s2_def s1_def map_defs sems_kept_def)
  have "\<exists>t. each map_stop [0..num_stops a] s2 = ret t \<and> shared t = shared s2 \<and> sems_kept s2 t
    \<and> next_block s2 \<le> next_block t"
    by (rule map_stops) (use assms in \<open>auto simp: s2_def s1_def map_defs\<close>)
  then obtain t where t: "each map_stop [0..num_stops a] s2 = ret t" "shared t = shared s2"
    "sems_kept s2 t" by auto
  define t1 where "t1 = map_int num_skiers_skiing_p_update (IntCell 0)
    (map_int num_skiers_onboard_p_update (IntCell 0) (map_int A_p_update (IntCell 0) t))"
  have w1: "length (waiting_p (shared t1)) = 11" and k1: "sems_kept t t1"
    using w2 t(2) by (simp_all add: t1_def map_defs sems_kept_def)
  from map_waits [OF w1] obtain u where u: "each map_waiting [0..10] t1 = ret u" "sems_kept t1 u"
    "shared u = (shared t1)\<lparr>waiting_p := map (\<lambda>k. Some (Some (next_block t1 + k))) [0..<11]\<rparr>"
    "next_block u = next_block t1 + 11"
    "blocks u = (\<lambda>b. if next_block t1 \<le> b \<and> b < next_block t1 + 11 then Some (IntCell 0) else blocks t1 b)"
    by auto
  have "map_shared_memory a s = ret (map_int output_p_update Zeros u)"
    using t(1) u(1) by (simp add: map_shared_memory_def s2_def s1_def t1_def Let_def)
  moreover have "sems_kept s (map_int output_p_update Zeros u)"
    using k2 t(3) k1 u(2) by (simp add: sems_kept_def map_defs)
  moreover have "[0..<11] = 0 # [1..<11 :: nat]" by (simp add: upt_conv_Cons)
  then have "zero_ints (next_block t) (map_int output_p_update Zeros u)"
    using u by (auto simp: zero_ints_def map_defs t1_def)
  ultimately show ?thesis by blast
qed

section \<open>Creating the semaphores\<close>

lemma stop_names_step:
  assumes "0 \<le> i"
  shows "set (stop_names i) = insert (sem_name (''bus_stop'' @ show_int i)) (set (stop_names (i - 1)))"
    and "sem_name (''bus_stop'' @ show_int i) \<notin> set (stop_names (i - 1))"
  using assms by (auto simp: stop_names_def upto_rec2 show_int_inj)

lemma main_names_not_stops: "x \<in> set main_names \<Longrightarrow> x \<notin> set (stop_names n)"
  by (auto simp: main_names_def stop_names_def)

lemma open_stops:
  assumes "bus_stops_p (shared s) = Some b" and "blocks s b = Some (Ptrs (replicate (nat (n + 1)) None))"
    and "0 \<le> n" "n \<le> 10" and "\<forall>x\<in>set (stop_names n). named s x = None"
  shows "\<exists>t. each open_stop [0..n] s = ret t \<and> shared t = shared s \<and> next_block t = next_block s
    \<and> opened t = opened s \<union> {next_sem s..<next_sem s + nat (n + 1)}
    \<and> blocks t = (blocks s)(b \<mapsto> Ptrs (map (\<lambda>k. Some (Some (Handle (next_sem s + k)))) [0..<nat (n + 1)]))
    \<and> sem_value t = (\<lambda>k. if next_sem s \<le> k \<and> k < next_sem s + nat (n + 1) then 0 else sem_value s k)
    \<and> (\<forall>x. x \<notin> set (stop_names n) \<longrightarrow> named t x = named s x)"
proof -
  let ?N = "next_sem s"
  let ?ps = "\<lambda>i. map (\<lambda>k. Some (Some (Handle (?N + k)))) [0..<nat i] @ replicate (nat (n + 1 - i)) None"
  let ?P = "\<lambda>(i :: int) (t :: sys). shared t = shared s \<and> next_block t = next_block s \<and> next_sem t = ?N + nat i
    \<and> opened t = opened s \<union> {?N..<?N + nat i} \<and> blocks t = (blocks s)(b \<mapsto> Ptrs (?ps i))
    \<and> sem_value t = (\<lambda>k. if ?N \<le> k \<and> k < ?N + nat i then 0 else sem_value s k)
    \<and> (\<forall>x. x \<notin> set (stop_names (i - 1)) \<longrightarrow> named t x = named s x)"
  have "\<exists>t. each open_stop [0..n] s = ret t \<and> ?P (n + 1) t"
  proof (rule each_upto [where P = ?P])
    fix i :: int and t :: sys
    assume i: "0 \<le> i" "i \<le> n" and P: "?P i t"
    let ?x = "sem_name (''bus_stop'' @ show_int i)"
    have x: "stop_name i = ret ?x" using i assms(4) by (simp add: stop_name_ok)
    have "?x \<in> set (stop_names n)" using i by (auto simp: stop_names_def)
    then have free: "named t ?x = None" using P stop_names_step(2) [OF i(1)] assms(5) by auto
    have n: "nat (i + 1) = Suc (nat i)" "nat (n + 1 - i) = Suc (nat (n - i))" using i by simp_all
    have ps: "(?ps i)[nat i := Some (Some (Handle (?N + nat i)))] = ?ps (i + 1)"
      unfolding n by (simp add: list_update_append)
    have ops: "insert (?N + nat i) (opened s \<union> {?N..<?N + nat i}) = opened s \<union> {?N..<?N + nat (i + 1)}"
      unfolding n by auto
    have vals: "(\<lambda>k. if ?N \<le> k \<and> k < ?N + nat i then 0 else sem_value s k)(?N + nat i := 0)
      = (\<lambda>k. if ?N \<le> k \<and> k < ?N + nat (i + 1) then 0 else sem_value s k)"
      unfolding n by auto
    have nams: "\<forall>y. y \<notin> set (stop_names (i + 1 - 1)) \<longrightarrow> ((named t)(?x \<mapsto> ?N + nat i)) y = named s y"
      using P stop_names_step(1) [OF i(1)] by auto
    show "\<exists>t'. open_stop i t = ret t' \<and> ?P (i + 1) t'"
      using P i assms(1,3) x free ps ops vals nams n
      by (simp add: open_stop_def sem_open_def set_stop_def INT_MAX_def)
  qed (use assms in \<open>auto simp: stop_names_def\<close>)
  then obtain t where t: "each open_stop [0..n] s = ret t" "?P (n + 1) t" by blast
  show ?thesis by (rule exI [of _ t]) (use t in simp)
qed

lemma upt_shift: "[k..<k + m] = map ((+) k) [0..<m]"
  by (induction m) auto

lemma upt_five: "[0..<5 + m] = [0, 1, 2, 3, 4] @ map ((+) 5) [0..<m]"
  using upt_add_eq_append [of 0 5 m] by (simp add: upt_shift) (simp add: upt_conv_Cons)

text \<open>All semaphores are handles in a row; the values are those that the code asks for.\<close>

definition new_sems :: "CLIArguments \<Rightarrow> nat \<Rightarrow> sys \<Rightarrow> bool" where
  "new_sems a N s \<longleftrightarrow>
     sem_ptrs s = map (\<lambda>k. Some (Handle (N + k))) [0..<nat (num_stops a + 6)]
     \<and> list_all (\<lambda>p. p \<noteq> None) (stop_ptrs s)
     \<and> map (sem_value s) [N..<N + nat (num_stops a + 6)]
         = [1, 1, nat (capacity a), 0, 0] @ replicate (nat (num_stops a + 1)) 0"

lemma create_semaphores_ok:
  assumes "0 \<le> num_stops a" "num_stops a \<le> 10" "0 \<le> capacity a" "capacity a \<le> INT_MAX"
    and "\<forall>x\<in>set (used_names a). named s x = None" and "zero_ints b s"
  shows "\<exists>t. create_semaphores a s = ret t \<and> zero_ints b t \<and> new_sems a (next_sem s) t
    \<and> opened t = opened s \<union> {next_sem s..<next_sem s + nat (num_stops a + 6)}
    \<and> (\<forall>x. x \<notin> set (used_names a) \<longrightarrow> named t x = named s x)"
proof -
  let ?N = "next_sem s" and ?n = "num_stops a"
  define s1 where "s1 = open_sem let_skiers_leave_p_update ''let_skiers_leave'' 0
    (open_sem all_aboard_p_update ''all_aboard'' 0 (open_sem bus_capacity_p_update ''bus_capacity'' (capacity a)
    (open_sem mutex_p_update ''mutex'' 1 (open_sem write_sync_p_update ''write_sync'' 1 s))))"
  have free: "named s (sem_name ''write_sync'') = None" "named s (sem_name ''mutex'') = None"
    "named s (sem_name ''bus_capacity'') = None" "named s (sem_name ''all_aboard'') = None"
    "named s (sem_name ''let_skiers_leave'') = None" "\<forall>x\<in>set (stop_names ?n). named s x = None"
    using assms(5) by (simp_all add: used_names_def main_names_def)
  note s1 = s1_def open_sem_def sem_open_def free INT_MAX_def eval_nat_numeral
  have sh: "shared s1 = (shared s)\<lparr>write_sync_p := Some (Handle ?N), mutex_p := Some (Handle (?N + 1)),
      bus_capacity_p := Some (Handle (?N + 2)), all_aboard_p := Some (Handle (?N + 3)),
      let_skiers_leave_p := Some (Handle (?N + 4))\<rparr>"
    using assms(3,4) by (simp add: s1)
  have op: "opened s1 = opened s \<union> {?N..<?N + 5}" and nx: "next_sem s1 = ?N + 5"
    and va: "sem_value s1 = (sem_value s)(?N := 1, ?N + 1 := 1, ?N + 2 := nat (capacity a), ?N + 3 := 0, ?N + 4 := 0)"
    and bl: "blocks s1 = blocks s" "next_block s1 = next_block s"
    and na: "x \<notin> set main_names \<Longrightarrow> named s1 x = named s x" for x
    using assms(3,4) by (auto simp: s1 main_names_def)
  define b2 where "b2 = next_block s"
  define s2 where "s2 = map_int bus_stops_p_update (Ptrs (replicate (nat (?n + 1)) None)) s1"
  have s2: "shared s2 = (shared s1)\<lparr>bus_stops_p := Some b2\<rparr>" "opened s2 = opened s1" "next_sem s2 = ?N + 5"
    "sem_value s2 = sem_value s1" "named s2 = named s1" "next_block s2 = Suc b2"
    "blocks s2 = (blocks s)(b2 \<mapsto> Ptrs (replicate (nat (?n + 1)) None))"
    by (simp_all add: s2_def map_int_def mmap_def b2_def bl nx)
  have "\<forall>x\<in>set (stop_names ?n). named s2 x = None"
    using free(6) na main_names_not_stops unfolding s2 by metis
  from open_stops [OF _ _ assms(1,2) this, of b2] s2(1,7) obtain t where
    t: "each open_stop [0..?n] s2 = ret t" "shared t = shared s2" "next_block t = next_block s2"
      "opened t = opened s2 \<union> {next_sem s2..<next_sem s2 + nat (?n + 1)}"
      "blocks t = (blocks s2)(b2 \<mapsto> Ptrs (map (\<lambda>k. Some (Some (Handle (next_sem s2 + k)))) [0..<nat (?n + 1)]))"
      "sem_value t = (\<lambda>k. if next_sem s2 \<le> k \<and> k < next_sem s2 + nat (?n + 1) then 0 else sem_value s2 k)"
      "\<forall>x. x \<notin> set (stop_names ?n) \<longrightarrow> named t x = named s2 x"
    by auto
  have "create_semaphores a s = ret t"
    using t(1) by (simp add: create_semaphores_def s1_def s2_def Let_def)
  moreover have "zero_ints b t"
  proof -
    have "blocks t c = blocks s c" if "c < b2" for c using that by (simp add: t(5) s2(7))
    moreover have "b + 14 \<le> b2" using assms(6) by (simp add: zero_ints_def b2_def)
    ultimately have "\<forall>c. b \<le> c \<and> c < b + 14 \<longrightarrow> blocks t c = Some (IntCell 0)"
      using assms(6) by (simp add: zero_ints_def)
    then show ?thesis using assms(6) by (simp add: zero_ints_def t(2,3) s2(1,6) sh b2_def)
  qed
  moreover have n6: "nat (?n + 6) = 5 + nat (?n + 1)" using assms(1) by simp
  have sp: "stop_ptrs t = map (\<lambda>k. Some (Some (Handle (?N + 5 + k)))) [0..<nat (?n + 1)]"
    using t(5) by (simp add: stop_ptrs_def t(2) s2 get_ptrs_def)
  note up = upt_five
  have "sem_ptrs t = map (\<lambda>k. Some (Handle (?N + k))) [0..<nat (?n + 6)]"
    unfolding n6 up sem_ptrs_def sp by (simp add: main_sems_def t(2) s2(1) sh o_def add.assoc)
  moreover have "map (sem_value t) [?N..<?N + nat (?n + 6)]
      = [1, 1, nat (capacity a), 0, 0] @ replicate (nat (?n + 1)) 0"
  proof -
    show ?thesis
      unfolding n6 upt_shift [of ?N] up by (auto simp: o_def t(6) s2(3,4) va intro!: nth_equalityI)
  qed
  moreover have "list_all (\<lambda>p. p \<noteq> None) (stop_ptrs t)" by (simp add: sp list_all_iff)
  ultimately have "new_sems a ?N t" by (simp add: new_sems_def)
  moreover have "opened t = opened s \<union> {?N..<?N + nat (?n + 6)}"
    unfolding n6 t(4) s2 op by auto
  moreover have "\<forall>x. x \<notin> set (used_names a) \<longrightarrow> named t x = named s x"
    using t(7) na by (simp add: used_names_def s2)
  ultimately show ?thesis using \<open>create_semaphores a s = ret t\<close> \<open>zero_ints b t\<close> by blast
qed

section \<open>What the processes find\<close>

lemma set_int_same:
  "p = Some b \<Longrightarrow> blocks s b = Some (IntCell x) \<Longrightarrow> set_int p x s = ret s"
  by (simp add: set_int_def map_upd_triv)

lemma new_sems_parts:
  assumes "new_sems a N s" and "0 \<le> num_stops a"
  shows "main_sems (shared s) = map (\<lambda>k. Some (Handle (N + k))) [0..<5]"
    and "stop_ptrs s = map (\<lambda>k. Some (Some (Handle (N + (5 + k))))) [0..<nat (num_stops a + 1)]"
    and "map (\<lambda>k. sem_value s (N + k)) [0..<5] = [1, 1, nat (capacity a), 0, 0]"
    and "k < nat (num_stops a + 1) \<Longrightarrow> sem_value s (N + (5 + k)) = 0"
proof -
  have n: "nat (num_stops a + 6) = 5 + nat (num_stops a + 1)" using assms(2) by simp
  note s = assms(1) [unfolded new_sems_def n sem_ptrs_def upt_shift [of N] upt_five]
  have l: "length (main_sems v) = 5" for v by (simp add: main_sems_def)
  from s have m: "main_sems (shared s) = map (\<lambda>k. Some (Handle (N + k))) [0, 1, 2, 3, 4]"
    and st: "map the (stop_ptrs s) = map (\<lambda>k. Some (Handle (N + (5 + k)))) [0..<nat (num_stops a + 1)]"
    and va: "map (\<lambda>k. sem_value s (N + k)) [0, 1, 2, 3, 4] = [1, 1, nat (capacity a), 0, 0]"
    and vb: "map (\<lambda>k. sem_value s (N + (5 + k))) [0..<nat (num_stops a + 1)] = replicate (nat (num_stops a + 1)) 0"
    by (simp_all add: main_sems_def o_def)
  have five: "[0..<5] = [0, 1, 2, 3, 4 :: nat]" using upt_five [of 0] by simp
  show "main_sems (shared s) = map (\<lambda>k. Some (Handle (N + k))) [0..<5]" using m by (simp add: five)
  show "map (\<lambda>k. sem_value s (N + k)) [0..<5] = [1, 1, nat (capacity a), 0, 0]" using va by (simp add: five)
  have "map Some (map the (stop_ptrs s)) = stop_ptrs s"
    using s by (auto simp: list_all_iff intro!: map_idI)
  then show "stop_ptrs s = map (\<lambda>k. Some (Some (Handle (N + (5 + k))))) [0..<nat (num_stops a + 1)]"
    unfolding st by (simp add: o_def)
  show "sem_value s (N + (5 + k)) = 0" if "k < nat (num_stops a + 1)"
    using arg_cong [OF vb, of "\<lambda>xs. xs ! k"] that by simp
qed

lemma main_setup_ok:
  assumes "0 \<le> num_stops a" "num_stops a \<le> 10" "0 \<le> capacity a" "capacity a \<le> INT_MAX"
    and "\<forall>x\<in>set (used_names a). names x = None"
  shows "\<exists>s b. main_setup a (start_sys names) = ret s \<and> zero_ints b s \<and> new_sems a 0 s
    \<and> opened s = {..<nat (num_stops a + 6)} \<and> (\<forall>x. x \<notin> set (used_names a) \<longrightarrow> named s x = names x)"
proof -
  have "length (waiting_p (shared (start_sys names))) = 11" by (simp add: start_sys_def shared_zero_def)
  from map_shared_memory_ok [OF assms(1) this] obtain s b where
    s: "map_shared_memory a (start_sys names) = ret s" "sems_kept (start_sys names) s" "zero_ints b s"
    by auto
  then have "\<forall>x\<in>set (used_names a). named s x = None" and N: "next_sem s = 0" "opened s = {}" "named s = names"
    using assms(5) by (simp_all add: sems_kept_def start_sys_def)
  from create_semaphores_ok [OF assms(1-4) this(1) s(3)] N obtain t where
    t: "create_semaphores a s = ret t" "zero_ints b t" "new_sems a 0 t" "opened t = {..<nat (num_stops a + 6)}"
      "\<forall>x. x \<notin> set (used_names a) \<longrightarrow> named t x = names x"
    by (auto simp: atLeast0LessThan)
  obtain p where w: "waiting_p (shared t) = Some p # map (\<lambda>k. Some (Some (b + 3 + k))) [1..<11]"
    and i: "A_p (shared t) = Some b" "num_skiers_onboard_p (shared t) = Some (b + 1)"
      "blocks t b = Some (IntCell 0)" "blocks t (b + 1) = Some (IntCell 0)"
    using t(2) by (auto simp: zero_ints_def)
  define u where "u = t\<lparr>shared := (shared t)\<lparr>waiting_p := Some None # map (\<lambda>k. Some (Some (b + 3 + k))) [1..<11]\<rparr>\<rparr>"
  have "main_setup a (start_sys names) = ret u"
    using s(1) t(1) w i by (simp add: main_setup_def set_int_same u_def)
  moreover have "zero_ints b u" using t(2) by (simp add: zero_ints_def u_def)
  moreover have "stop_ptrs u = stop_ptrs t" "sem_ptrs u = sem_ptrs t"
  proof -
    have u: "blocks u = blocks t" "bus_stops_p (shared u) = bus_stops_p (shared t)"
      "main_sems (shared u) = main_sems (shared t)" by (simp_all add: u_def main_sems_def)
    show "stop_ptrs u = stop_ptrs t" "sem_ptrs u = sem_ptrs t"
      unfolding stop_ptrs_def sem_ptrs_def get_ptrs_def u by (rule refl)+
  qed
  then have "new_sems a 0 u" using t(3) by (simp add: new_sems_def u_def)
  moreover have "opened u = opened t" "named u = named t" by (simp_all add: u_def)
  ultimately show ?thesis using t(4,5) by auto
qed

lemma new_state:
  assumes "zero_ints b s" and "new_sems a 0 s" and "opened s = {..<nat (num_stops a + 6)}" and "0 \<le> num_stops a"
    and "num_stops a \<le> 10"
  shows "set_up a s" and "view a s = sk_init" and "sem_at s (bus_capacity_p (shared s)) = Some (nat (capacity a))"
proof -
  note n = new_sems_parts [OF assms(2,4)]
  have five: "[0..<5] = [0, 1, 2, 3, 4 :: nat]" using upt_five [of 0] by simp
  have m: "write_sync_p (shared s) = Some (Handle 0)" "mutex_p (shared s) = Some (Handle 1)"
    "bus_capacity_p (shared s) = Some (Handle 2)" "all_aboard_p (shared s) = Some (Handle 3)"
    "let_skiers_leave_p (shared s) = Some (Handle 4)"
    using n(1) by (simp_all add: main_sems_def five)
  have v: "sem_value s 0 = 1" "sem_value s 1 = 1" "sem_value s 2 = nat (capacity a)" "sem_value s 3 = 0" "sem_value s 4 = 0"
    using n(3) by (simp_all add: five)
  obtain p where i: "A_p (shared s) = Some b" "num_skiers_onboard_p (shared s) = Some (b + 1)"
    "num_skiers_skiing_p (shared s) = Some (b + 2)"
    and w: "waiting_p (shared s) = Some p # map (\<lambda>k. Some (Some (b + 3 + k))) [1..<11]"
    and z: "\<And>c. b \<le> c \<Longrightarrow> c < b + 14 \<Longrightarrow> blocks s c = Some (IntCell 0)"
    using assms(1) by (auto simp: zero_ints_def)
  have ip: "int_ptrs s = map (\<lambda>k. Some (b + k)) ([0, 1, 2] @ map ((+) 3) [1..<11])"
    by (simp add: int_ptrs_def i w o_def add.assoc)
  have iz: "int_at s (Some (b + k)) = Some 0" if "k < 14" for k using that by (simp add: int_at_def z)
  show "sem_at s (bus_capacity_p (shared s)) = Some (nat (capacity a))"
    using assms(3,4) by (simp add: m sem_at_def v)
  have "length (stop_ptrs s) = nat (num_stops a + 1)" "list_all (\<lambda>p. p \<noteq> None) (stop_ptrs s)"
    by (simp_all add: n(2) list_all_iff)
  moreover have "length (waiting_p (shared s)) = 11" by (simp add: w)
  moreover have sp: "sem_ptrs s = map (\<lambda>k. Some (Handle k)) [0..<nat (num_stops a + 6)]"
    using assms(2) by (simp add: new_sems_def)
  have "list_all (\<lambda>p. sem_at s p \<noteq> None) (sem_ptrs s)" unfolding sp by (simp add: list_all_iff sem_at_def assms(3))
  moreover have "distinct (sem_ptrs s)" unfolding sp by (simp add: distinct_map inj_on_def)
  moreover have "list_all (\<lambda>p. int_at s p \<noteq> None) (int_ptrs s)"
    unfolding ip using iz iz [of 0] iz [of 1] iz [of 2] by (auto simp: list_all_iff)
  moreover have "distinct (int_ptrs s)" unfolding ip by (auto simp: distinct_map inj_on_def)
  ultimately show "set_up a s" by (simp add: set_up_def)
  have wv: "(\<lambda>k. if 1 \<le> k \<and> int k \<le> num_stops a then the (int_at s (the (waiting_p (shared s) ! k))) else 0) = (\<lambda>_. 0)"
    using iz [of "3 + k" for k] assms(5) by (auto simp: w nth_Cons' add.assoc intro!: ext)
  have sv: "(\<lambda>k. if int k \<le> num_stops a then the (sem_at s (the (stop_ptrs s ! k))) else 0) = (\<lambda>_. 0)"
    using n(4) assms(3) by (intro ext) (auto simp: n(2) sem_at_def)
  have sa: "sem_at s (Some (Handle k)) = Some (sem_value s k)" if "k < 5" for k
    using that assms(3,4) by (simp add: sem_at_def)
  show "view a s = sk_init"
    unfolding view_def wv sv m i using iz [of 0] iz [of 1] iz [of 2] sa [of 0] sa [of 1] sa [of 3] sa [of 4]
    by (simp add: v v(2) [simplified] sk_init_def)
qed

section \<open>The steps of the processes\<close>

text \<open>The semaphores that the model of the processes counts, their pointers and their counters.\<close>

datatype which_sem = WriteSync | Mutex | AllAboard | LetLeave | Stop nat

fun sem_ptr_of :: "which_sem \<Rightarrow> sys \<Rightarrow> sem_ptr" where
  "sem_ptr_of WriteSync s = write_sync_p (shared s)"
| "sem_ptr_of Mutex s = mutex_p (shared s)"
| "sem_ptr_of AllAboard s = all_aboard_p (shared s)"
| "sem_ptr_of LetLeave s = let_skiers_leave_p (shared s)"
| "sem_ptr_of (Stop k) s = the (stop_ptrs s ! k)"

fun counter :: "which_sem \<Rightarrow> sk_state \<Rightarrow> nat" where
  "counter WriteSync t = write_sync t"
| "counter Mutex t = mutex t"
| "counter AllAboard t = all_aboard t"
| "counter LetLeave t = let_skiers_leave t"
| "counter (Stop k) t = bus_stops t k"

fun set_counter :: "which_sem \<Rightarrow> nat \<Rightarrow> sk_state \<Rightarrow> sk_state" where
  "set_counter WriteSync x t = t\<lparr>write_sync := x\<rparr>"
| "set_counter Mutex x t = t\<lparr>mutex := x\<rparr>"
| "set_counter AllAboard x t = t\<lparr>all_aboard := x\<rparr>"
| "set_counter LetLeave x t = t\<lparr>let_skiers_leave := x\<rparr>"
| "set_counter (Stop k) x t = t\<lparr>bus_stops := (bus_stops t)(k := x)\<rparr>"

definition has_sem :: "CLIArguments \<Rightarrow> which_sem \<Rightarrow> bool" where
  "has_sem a w = (case w of Stop k \<Rightarrow> int k \<le> num_stops a | _ \<Rightarrow> True)"

lemma stop_at_ptrs:
  assumes "set_up a s" and "int k \<le> num_stops a"
  shows "the (stop_ptrs s ! k) = sem_ptrs s ! (5 + k)" "5 + k < length (sem_ptrs s)"
  using assms by (auto simp: set_up_def sem_ptrs_def main_sems_def nth_append)

text \<open>The place of each of them in the list of pointers.\<close>

fun sem_index :: "which_sem \<Rightarrow> nat" where
  "sem_index WriteSync = 0"
| "sem_index Mutex = 1"
| "sem_index AllAboard = 3"
| "sem_index LetLeave = 4"
| "sem_index (Stop k) = 5 + k"

lemma sem_index_ok:
  assumes "set_up a s" and "has_sem a w"
  shows "sem_index w < length (sem_ptrs s)" "sem_ptr_of w s = sem_ptrs s ! sem_index w"
  using assms stop_at_ptrs [OF assms(1)]
  by (cases w; simp add: has_sem_def sem_ptrs_def main_sems_def)+

lemma sem_index_inj: "sem_index w = sem_index v \<longleftrightarrow> w = v"
  by (cases w; cases v) auto

lemma sem_ptr_live:
  assumes "set_up a s" and "has_sem a w"
  obtains n where "sem_ptr_of w s = Some (Handle n)" "n \<in> opened s"
    "\<And>v. has_sem a v \<Longrightarrow> v \<noteq> w \<Longrightarrow> sem_ptr_of v s \<noteq> Some (Handle n)"
proof -
  note i = sem_index_ok [OF assms(1)]
  have "sem_at s (sem_ptr_of w s) \<noteq> None"
    using i [OF assms(2)] assms(1) by (simp add: set_up_def list_all_length)
  then obtain n where n: "sem_ptr_of w s = Some (Handle n)" "n \<in> opened s"
    by (auto simp: sem_at_def split: option.splits sem_ref.splits if_splits)
  moreover have "sem_ptr_of v s \<noteq> Some (Handle n)" if "has_sem a v" "v \<noteq> w" for v
    using i [OF that(1)] i [OF assms(2)] n(1) that(2) assms(1) sem_index_inj [of v w]
    by (metis set_up_def nth_eq_iff_index_eq)
  ultimately show ?thesis by (rule that)
qed

lemma counter_view:
  "has_sem a w \<Longrightarrow> counter w (view a s) = the (sem_at s (sem_ptr_of w s))"
  by (cases w) (auto simp: has_sem_def view_def)

text \<open>Changing one value leaves the pointers as they are, and the other counters.\<close>

lemma value_changed:
  assumes "set_up a s" and "has_sem a w" and "sem_ptr_of w s = Some (Handle n)" and "n \<in> opened s"
    and "t = s\<lparr>sem_value := (sem_value s)(n := x)\<rparr>"
  shows "set_up a t" and "view a t = set_counter w x (view a s)"
proof -
  have f: "shared t = shared s" "blocks t = blocks s" "opened t = opened s" by (simp_all add: assms(5))
  have p: "stop_ptrs t = stop_ptrs s" "sem_ptrs t = sem_ptrs s" "int_ptrs t = int_ptrs s" "int_at t = int_at s"
    unfolding stop_ptrs_def sem_ptrs_def int_ptrs_def get_ptrs_def int_at_def f by (rule refl)+
  have a: "sem_at t q = None \<longleftrightarrow> sem_at s q = None" for q
    by (simp add: assms(5) sem_at_def split: option.splits sem_ref.splits)
  show "set_up a t" using assms(1) unfolding set_up_def p f a .
  have o: "sem_at t q = (if q = Some (Handle n) then Some x else sem_at s q)" for q
    using assms(4) by (auto simp: assms(5) sem_at_def split: option.splits sem_ref.splits)
  obtain m where m: "sem_ptr_of w s = Some (Handle m)"
    "\<And>v. has_sem a v \<Longrightarrow> v \<noteq> w \<Longrightarrow> sem_ptr_of v s \<noteq> Some (Handle m)"
    using sem_ptr_live [OF assms(1,2)] by metis
  then have q: "has_sem a v \<Longrightarrow> sem_ptr_of v s = Some (Handle n) \<longleftrightarrow> v = w" for v
    using assms(3) by auto
  have h: "has_sem a WriteSync" "has_sem a Mutex" "has_sem a AllAboard" "has_sem a LetLeave"
    "int k \<le> num_stops a \<Longrightarrow> has_sem a (Stop k)" for k by (simp_all add: has_sem_def)
  note qs = q [OF h(1), simplified] q [OF h(2), simplified] q [OF h(3), simplified] q [OF h(4), simplified] q [OF h(5), simplified]
  show "view a t = set_counter w x (view a s)"
    unfolding view_def p f o using qs assms(2)
    by (cases w) (auto simp: has_sem_def fun_eq_iff)
qed

lemma lock_is_step:
  assumes "set_up a s" and "has_sem a w"
  shows "counter w (view a s) = 0 \<Longrightarrow> lock_sem False (sem_ptr_of w s) s = None"
    and "0 < counter w (view a s) \<Longrightarrow> \<exists>t. lock_sem False (sem_ptr_of w s) s = Some (ret t) \<and> set_up a t
      \<and> view a t = set_counter w (counter w (view a s) - 1) (view a s)"
proof -
  obtain n where n: "sem_ptr_of w s = Some (Handle n)" "n \<in> opened s"
    using sem_ptr_live [OF assms] by metis
  have c: "counter w (view a s) = sem_value s n"
    using n by (simp add: counter_view [OF assms(2)] sem_at_def)
  show "lock_sem False (sem_ptr_of w s) s = None" if "counter w (view a s) = 0"
    using that n c by (simp add: lock_sem_def)
  show "\<exists>t. lock_sem False (sem_ptr_of w s) s = Some (ret t) \<and> set_up a t
      \<and> view a t = set_counter w (counter w (view a s) - 1) (view a s)" if "0 < counter w (view a s)"
    using that n c value_changed [OF assms n refl, of "sem_value s n - 1"] by (simp add: lock_sem_def)
qed

lemma unlock_is_step:
  assumes "set_up a s" and "has_sem a w" and "int (counter w (view a s)) < INT_MAX"
  shows "\<exists>t. unlock_sem (sem_ptr_of w s) s = ret t \<and> set_up a t
      \<and> view a t = set_counter w (counter w (view a s) + 1) (view a s)"
proof -
  obtain n where n: "sem_ptr_of w s = Some (Handle n)" "n \<in> opened s"
    using sem_ptr_live [OF assms(1,2)] by metis
  have c: "counter w (view a s) = sem_value s n"
    using n by (simp add: counter_view [OF assms(2)] sem_at_def)
  show ?thesis
    using assms(3) n c value_changed [OF assms(1,2) n refl, of "sem_value s n + 1"] by (simp add: unlock_sem_def)
qed

section \<open>After the processes\<close>

definition handles_in :: "sem_ptr list \<Rightarrow> nat set" where
  "handles_in ps = {n. Some (Handle n) \<in> set ps}"

lemma sem_close_handle [simp]: "sem_close (Some (Handle n)) s = s\<lparr>opened := opened s - {n}\<rparr>"
  by (simp add: sem_close_def)

text \<open>Closing and unlinking as state updates that change nothing else.\<close>

lemma close_stops:
  assumes "bus_stops_p (shared s) = Some b" and "blocks s b = Some (Ptrs ps)" and "length ps = nat (n + 1)"
    and "list_all (\<lambda>p. p \<noteq> None) ps" and "0 \<le> n" "n \<le> 10"
  shows "\<exists>t. each close_stop [0..n] s = ret t \<and> shared t = shared s \<and> blocks t = blocks s
    \<and> opened t = opened s - handles_in (map the ps)
    \<and> named t = (\<lambda>x. if x \<in> set (stop_names n) then None else named s x)"
proof -
  let ?P = "\<lambda>(i :: int) (t :: sys). shared t = shared s \<and> blocks t = blocks s
    \<and> opened t = opened s - handles_in (take (nat i) (map the ps))
    \<and> named t = (\<lambda>x. if x \<in> set (stop_names (i - 1)) then None else named s x)"
  have "\<exists>t. each close_stop [0..n] s = ret t \<and> ?P (n + 1) t"
  proof (rule each_upto [where P = ?P])
    fix i :: int and t :: sys
    assume i: "0 \<le> i" "i \<le> n" and P: "?P i t"
    let ?x = "sem_name (''bus_stop'' @ show_int i)"
    have x: "stop_name i = ret ?x" using i assms(6) by (simp add: stop_name_ok)
    have l: "nat i < length ps" and n: "nat (i + 1) = Suc (nat i)" using i assms(3) by simp_all
    then have "ps ! nat i \<noteq> None" using assms(4) by (simp add: list_all_length)
    then obtain p where p: "ps ! nat i = Some p" by auto
    have "get_stop i t = ret p" using P i l p assms(1,2) by (simp add: get_stop_def)
    then have r: "close_stop i t = ret (sem_unlink ?x (sem_close p t))" by (simp add: close_stop_def x)
    have tk: "take (nat (i + 1)) (map the ps) = take (nat i) (map the ps) @ [p]"
      using l p unfolding n by (simp add: take_Suc_conv_app_nth)
    have "opened (sem_close p t) = opened t - handles_in [p]" "named (sem_close p t) = named t"
      "shared (sem_close p t) = shared t" "blocks (sem_close p t) = blocks t"
      by (auto simp: sem_close_def handles_in_def split: option.splits sem_ref.splits)
    moreover have "handles_in (take (nat i) (map the ps) @ [p]) = handles_in (take (nat i) (map the ps)) \<union> handles_in [p]"
      by (auto simp: handles_in_def)
    ultimately have "?P (i + 1) (sem_unlink ?x (sem_close p t))"
      using P stop_names_step(1) [OF i(1)] unfolding tk by (auto simp: sem_unlink_def fun_eq_iff)
    then show "\<exists>t'. close_stop i t = ret t' \<and> ?P (i + 1) t'" using r by blast
  qed (use assms in \<open>auto simp: stop_names_def handles_in_def\<close>)
  then obtain t where "each close_stop [0..n] s = ret t" "?P (n + 1) t" by blast
  then show ?thesis using assms(3) by (intro exI [of _ t]) simp
qed

lemma stop_array:
  assumes "set_up a s" and "0 \<le> num_stops a"
  obtains b where "bus_stops_p (shared s) = Some b" "blocks s b = Some (Ptrs (stop_ptrs s))"
proof -
  have "stop_ptrs s \<noteq> []" using assms by (auto simp: set_up_def)
  then show ?thesis
    using that by (auto simp: stop_ptrs_def get_ptrs_def split: option.splits block.splits)
qed

lemma destroy_semaphores_ok:
  assumes "set_up a s" and "0 \<le> num_stops a" "num_stops a \<le> 10"
  shows "\<exists>t b. destroy_semaphores a s = ret t \<and> shared t = shared s \<and> bus_stops_p (shared s) = Some b
    \<and> blocks t b = None \<and> opened t = opened s - handles_in (sem_ptrs s)
    \<and> named t = (\<lambda>x. if x \<in> set (used_names a) then None else named s x)"
proof -
  obtain b where b: "bus_stops_p (shared s) = Some b" "blocks s b = Some (Ptrs (stop_ptrs s))"
    by (rule stop_array [OF assms(1,2)])
  define s1 where "s1 = sem_close (let_skiers_leave_p (shared s)) (sem_close (all_aboard_p (shared s))
    (sem_close (bus_capacity_p (shared s)) (sem_close (mutex_p (shared s)) (sem_close (write_sync_p (shared s)) s))))"
  define s2 where "s2 = sem_unlink (sem_name ''let_skiers_leave'') (sem_unlink (sem_name ''all_aboard'')
    (sem_unlink (sem_name ''bus_capacity'') (sem_unlink (sem_name ''mutex'') (sem_unlink (sem_name ''write_sync'') s1))))"
  have c: "opened (sem_close p t) = opened t - handles_in [p]" "named (sem_close p t) = named t"
      "shared (sem_close p t) = shared t" "blocks (sem_close p t) = blocks t" for p t
    by (auto simp: sem_close_def handles_in_def split: option.splits sem_ref.splits)
  have s2: "shared s2 = shared s" "blocks s2 = blocks s" "opened s2 = opened s - handles_in (main_sems (shared s))"
    "named s2 = (\<lambda>x. if x \<in> set main_names then None else named s x)"
    by (auto simp: s2_def s1_def c sem_unlink_def main_sems_def handles_in_def main_names_def)
  have l: "length (stop_ptrs s) = nat (num_stops a + 1)" "list_all (\<lambda>p. p \<noteq> None) (stop_ptrs s)"
    using assms(1) by (simp_all add: set_up_def)
  from close_stops [of s2 b, OF _ _ l assms(2,3)] b s2(1,2) obtain t where
    t: "each close_stop [0..num_stops a] s2 = ret t" "shared t = shared s" "blocks t = blocks s"
      "opened t = opened s2 - handles_in (map the (stop_ptrs s))"
      "named t = (\<lambda>x. if x \<in> set (stop_names (num_stops a)) then None else named s2 x)"
    by auto
  have "destroy_semaphores a s = ret (munmap (Some b) t)"
    using t(1) b(1) by (simp add: destroy_semaphores_def s2_def s1_def Let_def)
  moreover have "opened t = opened s - handles_in (sem_ptrs s)"
    unfolding t(4) s2(3) by (auto simp: handles_in_def sem_ptrs_def)
  moreover have "named t = (\<lambda>x. if x \<in> set (used_names a) then None else named s x)"
    unfolding t(5) s2(4) by (auto simp: used_names_def)
  ultimately show ?thesis using b(1) t(2) by (simp add: munmap_def)
qed

text \<open>The loop of \<open>unmap_shared_memory\<close> reads the array that was freed.\<close>

lemma unmap_after_free:
  assumes "bus_stops_p (shared s) = Some b" and "blocks s b = None" and "0 \<le> num_stops a"
  shows "unmap_shared_memory a s = stop (Fault OutOfBounds)"
proof -
  have m: "shared (munmap_sem p t) = shared t" "blocks t b = None \<Longrightarrow> blocks (munmap_sem p t) b = None" for p t
    by (auto simp: munmap_sem_def munmap_def split: option.splits sem_ref.splits)
  have "[0..num_stops a] = 0 # [1..num_stops a]" using assms(3) by (simp add: upto_rec1)
  then show ?thesis
    using assms by (simp add: unmap_shared_memory_def Let_def unmap_stop_def get_stop_def get_ptrs_def m)
qed

section \<open>Properties\<close>

text \<open>
  C16. When none of the names of the semaphores is taken, \<open>main\<close> of \<open>skibus\<close> sets up, without a fault, valid
  and different pointers for everything that the processes share, and what these point to is the
  initial state of the model of the processes. The semaphore that nothing uses, \<open>bus_capacity\<close>, starts
  with the capacity.
\<close>

theorem setup_gives_start:
  assumes "0 \<le> num_stops a" "num_stops a \<le> 10" "0 \<le> capacity a" "capacity a \<le> INT_MAX"
    and "\<forall>x\<in>set (used_names a). names x = None"
  shows "\<exists>s. main_setup a (start_sys names) = ret s \<and> set_up a s \<and> view a s = sk_init
    \<and> sem_at s (bus_capacity_p (shared s)) = Some (nat (capacity a))"
  using main_setup_ok [OF assms] new_state [OF _ _ _ assms(1,2)] by blast

definition some_args :: CLIArguments where
  "some_args = \<lparr>num_skiers = 8, num_stops = 4, capacity = 10, tl = 4, tb = 5\<rparr>"

theorem setup_gives_start_witness:
  "\<exists>s. main_setup some_args (start_sys (\<lambda>_. None)) = ret s \<and> set_up some_args s \<and> view some_args s = sk_init
    \<and> sem_at s (bus_capacity_p (shared s)) = Some 10"
  using setup_gives_start [of some_args "\<lambda>_. None"] by (simp add: some_args_def INT_MAX_def)

text \<open>
  C17. \<open>lock_sem\<close> and \<open>unlock_sem\<close> of \<open>skibus\<close>, on the pointers, are the steps of the model of the processes: a lock
  waits where the counter is 0 and else takes one from it, an unlock adds one, no other counter
  changes, and all pointers stay valid.
\<close>

theorem locks_are_steps:
  assumes "set_up a s" and "has_sem a w"
  shows "(case lock_sem False (sem_ptr_of w s) s of
       None \<Rightarrow> counter w (view a s) = 0
     | Some r \<Rightarrow> 0 < counter w (view a s) \<and>
         (\<exists>t. r = ret t \<and> set_up a t \<and> view a t = set_counter w (counter w (view a s) - 1) (view a s)))
   \<and> (int (counter w (view a s)) < INT_MAX \<longrightarrow>
       (\<exists>t. unlock_sem (sem_ptr_of w s) s = ret t \<and> set_up a t
         \<and> view a t = set_counter w (counter w (view a s) + 1) (view a s)))"
  using lock_is_step [OF assms] unlock_is_step [OF assms]
  by (cases "counter w (view a s)") auto

lemma some_args_set_up: "\<exists>s. set_up some_args s \<and> view some_args s = sk_init"
proof -
  have a: "0 \<le> num_stops some_args" "num_stops some_args \<le> 10" "0 \<le> capacity some_args" "capacity some_args \<le> INT_MAX"
    by (simp_all add: some_args_def INT_MAX_def)
  from main_setup_ok [OF a, of "\<lambda>_. None"] new_state [OF _ _ _ a(1,2)] show ?thesis by blast
qed

theorem locks_are_steps_witness:
  "\<exists>s t. lock_sem False (sem_ptr_of Mutex s) s = Some (ret t)
     \<and> view some_args t = sk_init\<lparr>mutex := 0\<rparr> \<and> lock_sem False (sem_ptr_of (Stop 4) s) s = None"
proof -
  obtain s where s: "set_up some_args s" "view some_args s = sk_init" using some_args_set_up by blast
  have h: "has_sem some_args Mutex" "has_sem some_args (Stop 4)" by (simp_all add: has_sem_def some_args_def)
  have m: "counter Mutex sk_init = 1" "counter (Stop 4) sk_init = 0" "set_counter Mutex 0 sk_init = sk_init\<lparr>mutex := 0\<rparr>"
    by (simp_all add: sk_init_def)
  from locks_are_steps [OF s(1) h(1), unfolded s(2) m] m(3) obtain t
    where "lock_sem False (sem_ptr_of Mutex s) s = Some (ret t)" "view some_args t = sk_init\<lparr>mutex := 0\<rparr>"
    by (auto split: option.splits)
  moreover from locks_are_steps [OF s(1) h(2), unfolded s(2) m]
  have "lock_sem False (sem_ptr_of (Stop 4) s) s = None" by (auto split: option.splits)
  ultimately show ?thesis by blast
qed

text \<open>
  C37. When the processes of \<open>skibus\<close> have ended, \<open>destroy_semaphores\<close> closes and unlinks every semaphore, and
  nothing else; but it also frees the array of the stops, and \<open>unmap_shared_memory\<close>, which \<open>main\<close> and the
  handler of signals call next, reads that array: every end of the program is undefined behaviour.
\<close>

theorem end_reads_freed_array:
  assumes "set_up a s" and "0 \<le> num_stops a" "num_stops a \<le> 10"
  shows "(\<exists>t. destroy_semaphores a s = ret t \<and> opened t = opened s - handles_in (sem_ptrs s)
       \<and> named t = (\<lambda>x. if x \<in> set (used_names a) then None else named s x))
     \<and> main_end a s = stop (Fault OutOfBounds) \<and> signal_handler 2 a s = stop (Fault OutOfBounds)"
  using destroy_semaphores_ok [OF assms] unmap_after_free [of _ _ a] assms(2)
  by (auto simp: main_end_def signal_handler_def)

theorem end_reads_freed_array_witness:
  "\<exists>s. main_end some_args s = stop (Fault OutOfBounds)"
proof -
  obtain s where "set_up some_args s" using some_args_set_up by blast
  from end_reads_freed_array [OF this] show ?thesis by (auto simp: some_args_def)
qed

end
