(* ===== verification/Top_List.thy ===== *)
theory Top_List
  imports Stdlib
begin

text \<open>
  \<open>isa/isa-top\<close>: \<open>linked_list.c\<close> and \<open>stats.c\<close>. The doubly linked list of communications lives
  in a heap of nodes; a node is an address, and the null pointer is \<open>None\<close>. Loops along the
  pointers have fuel, one unit for each node they visit, since nothing in the code says that
  the list is not circular. The byte and packet counters are \<open>int\<close>: a \<open>long int\<close> that no
  capture fills.
\<close>

text \<open>
  What the program does to the world outside: text on its streams, calls of the curses and
  pcap libraries, the mutex, signal handlers and naps.
\<close>

datatype top_event =
    Out string | Err string
  | Lock | Unlock
  | Clear | Box | ColorOn | ColorOff | MvPrint int int string | HLine int int int | Refresh
  | InitScreen | EndWin
  | Handle string | PcapClose | Sleep int

type_synonym 'a top_io = "(top_event, 'a) io"

section \<open>Communications\<close>

record CommunicationInfo =
  src_ip :: string
  dst_ip :: string
  src_port :: "16 word"
  dst_port :: "16 word"
  protocol :: string
  Rx :: int
  Tx :: int
  packets_sent_Rx :: int
  packets_sent_Tx :: int

record CLIArguments =
  interface :: "string option"
  sort_by :: char
  interval :: int
  cumulative :: int

text \<open>The ports are not initialised: \<open>p\<close> and \<open>q\<close> are what the memory held.\<close>

definition init_communication :: "16 word \<Rightarrow> 16 word \<Rightarrow> CommunicationInfo" where
  "init_communication p q =
     \<lparr>src_ip = '''', dst_ip = '''', src_port = p, dst_port = q, protocol = '''',
      Rx = 0, Tx = 0, packets_sent_Rx = 0, packets_sent_Tx = 0\<rparr>"

fun compare_communications :: "CommunicationInfo \<Rightarrow> CommunicationInfo option \<Rightarrow> bool" where
  "compare_communications one None = False"
| "compare_communications one (Some two) =
     (src_ip one = src_ip two \<and> dst_ip one = dst_ip two \<and>
      src_port one = src_port two \<and> dst_port one = dst_port two \<or>
      src_ip one = dst_ip two \<and> dst_ip one = src_ip two \<and>
      src_port one = dst_port two \<and> dst_port one = src_port two)"

definition add_communications :: "CommunicationInfo \<Rightarrow> CommunicationInfo \<Rightarrow> CommunicationInfo" where
  "add_communications a b =
     (if src_ip a = src_ip b \<and> src_port a = src_port b
      then a\<lparr>Tx := Tx a + Tx b, Rx := Rx a + Rx b,
             packets_sent_Rx := packets_sent_Rx a + packets_sent_Rx b,
             packets_sent_Tx := packets_sent_Tx a + packets_sent_Tx b\<rparr>
      else a\<lparr>Tx := Tx a + Rx b, Rx := Rx a + Tx b,
             packets_sent_Rx := packets_sent_Rx a + packets_sent_Tx b,
             packets_sent_Tx := packets_sent_Tx a + packets_sent_Rx b\<rparr>)"

text \<open>The division of C rounds to zero; the numbers are not negative.\<close>

definition cdiv :: "int \<Rightarrow> int \<Rightarrow> int top_io" where
  "cdiv a b =
     (if b = 0 then stop (Fault DivisionByZero)
      else ret (if (a < 0) = (b < 0) then \<bar>a\<bar> div \<bar>b\<bar> else - (\<bar>a\<bar> div \<bar>b\<bar>)))"

section \<open>The heap\<close>

record lnode =
  ldata :: "CommunicationInfo option"
  lnext :: "nat option"
  lprev :: "nat option"

record llist =
  heap :: "nat \<Rightarrow> lnode option"
  lhead :: "nat option"
  fresh :: nat

text \<open>Following a pointer: the null pointer and a dangling one are faults.\<close>

definition deref :: "llist \<Rightarrow> nat option \<Rightarrow> lnode top_io" where
  "deref l p =
     (case p of None \<Rightarrow> stop (Fault NullPointer)
      | Some x \<Rightarrow> (case heap l x of None \<Rightarrow> stop (Fault OutOfBounds) | Some nd \<Rightarrow> ret nd))"

definition set_node :: "llist \<Rightarrow> nat option \<Rightarrow> (lnode \<Rightarrow> lnode) \<Rightarrow> llist top_io" where
  "set_node l p f =
     bind_io (deref l p) (\<lambda>nd. ret (l\<lparr>heap := (heap l)(the p \<mapsto> f nd)\<rparr>))"

definition set_next :: "llist \<Rightarrow> nat option \<Rightarrow> nat option \<Rightarrow> llist top_io" where
  "set_next l p x = set_node l p (\<lambda>nd. nd\<lparr>lnext := x\<rparr>)"

definition set_prev :: "llist \<Rightarrow> nat option \<Rightarrow> nat option \<Rightarrow> llist top_io" where
  "set_prev l p x = set_node l p (\<lambda>nd. nd\<lparr>lprev := x\<rparr>)"

definition set_data :: "llist \<Rightarrow> nat option \<Rightarrow> CommunicationInfo \<Rightarrow> llist top_io" where
  "set_data l p c = set_node l p (\<lambda>nd. nd\<lparr>ldata := Some c\<rparr>)"

text \<open>\<open>init_llist\<close> drops the nodes; \<open>init_node\<close> takes an address that was never used.\<close>

definition init_llist :: "llist \<Rightarrow> llist" where
  "init_llist l = l\<lparr>lhead := None\<rparr>"

definition init_node :: "llist \<Rightarrow> nat \<times> llist" where
  "init_node l =
     (fresh l, l\<lparr>heap := (heap l)(fresh l \<mapsto> \<lparr>ldata = None, lnext = None, lprev = None\<rparr>),
                 fresh := fresh l + 1\<rparr>)"

section \<open>Looking up\<close>

text \<open>The loop of \<open>get_node\<close>: the node found, if any, and the last node before it.\<close>

primrec find_loop ::
  "nat \<Rightarrow> CommunicationInfo \<Rightarrow> llist \<Rightarrow> nat option \<Rightarrow> nat option \<Rightarrow>
   (nat option \<times> nat option) top_io option" where
  "find_loop 0 c l cur prv = None"
| "find_loop (Suc n) c l cur prv =
     (if cur = None then Some (ret (None, prv))
      else bind_fuel (deref l cur) (\<lambda>nd.
        if compare_communications c (ldata nd) then Some (ret (cur, prv))
        else find_loop n c l (lnext nd) cur))"

definition get_node :: "nat \<Rightarrow> CommunicationInfo \<Rightarrow> llist \<Rightarrow> (nat \<times> llist) top_io option" where
  "get_node fuel c l =
     (if lhead l = None
      then (case init_node l of (x, l') \<Rightarrow> Some (ret (x, l'\<lparr>lhead := Some x\<rparr>)))
      else map_option (\<lambda>run. bind_io run (\<lambda>(found, prv).
        case found of
          Some x \<Rightarrow> ret (x, l)
        | None \<Rightarrow>
            (case init_node l of (x, l') \<Rightarrow>
               bind_io (set_next l' prv (Some x)) (\<lambda>l1.
               bind_io (set_prev l1 (Some x) prv) (\<lambda>l2. ret (x, l2))))))
        (find_loop fuel c l (lhead l) None))"

section \<open>Moving up\<close>

definition comm_order :: "CLIArguments \<Rightarrow> CommunicationInfo \<Rightarrow> int top_io" where
  "comm_order a c =
     (if sort_by a = CHR ''b'' then cdiv (Rx c + Tx c) (interval a)
      else cdiv (packets_sent_Rx c + packets_sent_Tx c) (interval a))"

definition get_nodes_order :: "CLIArguments \<Rightarrow> llist \<Rightarrow> nat option \<Rightarrow> int top_io" where
  "get_nodes_order a l p =
     bind_io (deref l p) (\<lambda>nd.
       case ldata nd of None \<Rightarrow> stop (Fault NullPointer) | Some c \<Rightarrow> comm_order a c)"

primrec place_loop ::
  "nat \<Rightarrow> CLIArguments \<Rightarrow> llist \<Rightarrow> int \<Rightarrow> nat option \<Rightarrow> nat option top_io option" where
  "place_loop 0 a l ord prv = None"
| "place_loop (Suc n) a l ord prv =
     (if prv = None then Some (ret None)
      else bind_fuel (get_nodes_order a l prv) (\<lambda>o'.
        if o' < ord then bind_fuel (deref l prv) (\<lambda>nd. place_loop n a l ord (lprev nd))
        else Some (ret prv)))"

text \<open>The pointer assignments of \<open>update_node_position\<close> for the node \<open>x\<close> behind \<open>prv\<close>.\<close>

definition unlink :: "llist \<Rightarrow> nat option \<Rightarrow> llist top_io" where
  "unlink l x =
     bind_io (deref l x) (\<lambda>nd.
     bind_io (if lnext nd \<noteq> None then set_prev l (lnext nd) (lprev nd) else ret l) (\<lambda>l1.
       set_next l1 (lprev nd) (lnext nd)))"

definition relink :: "llist \<Rightarrow> nat option \<Rightarrow> nat option \<Rightarrow> llist top_io" where
  "relink l x prv =
     (if prv = None
      then bind_io (set_prev l (lhead l) x) (\<lambda>l1.
           bind_io (set_next l1 x (lhead l1)) (\<lambda>l2. set_prev (l2\<lparr>lhead := x\<rparr>) x None))
      else bind_io (deref l prv) (\<lambda>pd.
           bind_io (set_next l x (lnext pd)) (\<lambda>l1.
           bind_io (if lnext pd \<noteq> None then set_prev l1 (lnext pd) x else ret l1) (\<lambda>l2.
           bind_io (set_prev l2 x prv) (\<lambda>l3. set_next l3 prv x)))))"

definition update_node_position :: "nat \<Rightarrow> CLIArguments \<Rightarrow> llist \<Rightarrow> nat option \<Rightarrow> llist top_io option" where
  "update_node_position fuel a l x =
     (if x = None then Some (ret l)
      else bind_fuel (deref l x) (\<lambda>nd.
        if lprev nd = None then Some (ret l)
        else bind_fuel (get_nodes_order a l x) (\<lambda>ord.
          map_option (\<lambda>run. bind_io run (\<lambda>prv.
            if_io (if prv \<noteq> None then bind_io (deref l prv) (\<lambda>pd. ret (lnext pd = x))
                   else ret (x = lhead l))
              (ret l)
              (bind_io (unlink l x) (\<lambda>l1. relink l1 x prv))))
            (place_loop fuel a l ord (lprev nd)))))"

section \<open>Inserting\<close>

definition insert_communication ::
  "nat \<Rightarrow> CLIArguments \<Rightarrow> CommunicationInfo \<Rightarrow> llist \<Rightarrow> llist top_io option" where
  "insert_communication fuel a c l =
     (case get_node fuel c l of
        None \<Rightarrow> None
      | Some run \<Rightarrow>
          bind_fuel run (\<lambda>(x, l1).
          bind_fuel (deref l1 (Some x)) (\<lambda>nd.
            case ldata nd of
              None \<Rightarrow> Some (set_data l1 (Some x) (c\<lparr>packets_sent_Tx := 1\<rparr>))
            | Some d \<Rightarrow>
                bind_fuel (set_data l1 (Some x) (add_communications d c)) (\<lambda>l2.
                  update_node_position fuel a l2 (Some x)))))"

end
