(* ===== verification/Top_Dll.thy ===== *)
theory Top_Dll
  imports Top_List
begin

text \<open>
  The doubly linked list of \<open>linked_list.c\<close> as the list of its nodes: segments of the heap, what
  the pointer assignments do to them, and the moves of \<open>unlink\<close> and \<open>relink\<close>.
\<close>

section \<open>Segments\<close>

text \<open>
  \<open>dseg h f pv ps nx e\<close>: from \<open>f\<close> the nodes \<open>ps\<close> follow each other to \<open>nx\<close>; the first one
  points back to \<open>pv\<close>, and \<open>e\<close> is the last one (\<open>pv\<close>, if there is none).
\<close>

fun dseg ::
  "(nat \<Rightarrow> lnode option) \<Rightarrow> nat option \<Rightarrow> nat option \<Rightarrow> nat list \<Rightarrow> nat option \<Rightarrow> nat option \<Rightarrow> bool"
where
  "dseg h f pv [] nx e \<longleftrightarrow> f = nx \<and> pv = e"
| "dseg h f pv (p # ps) nx e \<longleftrightarrow>
     f = Some p \<and> (\<exists>nd. h p = Some nd \<and> lprev nd = pv \<and> dseg h (lnext nd) (Some p) ps nx e)"

lemma dseg_append:
  "dseg h f pv (xs @ ys) nx e \<longleftrightarrow> (\<exists>m k. dseg h f pv xs m k \<and> dseg h m k ys nx e)"
  by (induction xs arbitrary: f pv) auto

lemma dseg_last: "dseg h f pv ps nx e \<Longrightarrow> ps \<noteq> [] \<Longrightarrow> e = Some (List.last ps)"
  by (induction ps arbitrary: f pv) (auto split: if_splits)

lemma dseg_hd: "dseg h f pv ps nx e \<Longrightarrow> ps \<noteq> [] \<Longrightarrow> f = Some (hd ps)"
  by (cases ps) auto

lemma dseg_alloc: "dseg h f pv ps nx e \<Longrightarrow> p \<in> set ps \<Longrightarrow> \<exists>nd. h p = Some nd"
  by (induction ps arbitrary: f pv) auto

lemma dseg_frame [simp]:
  "p \<notin> set ps \<Longrightarrow> dseg (h(p := x)) f pv ps nx e \<longleftrightarrow> dseg h f pv ps nx e"
  by (induction ps arbitrary: f pv) auto

lemma dseg_set_prev:
  assumes "dseg h f pv (p # ps) nx e" and "p \<notin> set ps" and "h p = Some nd"
  shows "dseg (h(p \<mapsto> nd\<lparr>lprev := pv'\<rparr>)) f pv' (p # ps) nx e"
  using assms by simp

lemma dseg_set_next:
  assumes "dseg h f pv (ps @ [p]) nx e" and "p \<notin> set ps" and "h p = Some nd"
  shows "dseg (h(p \<mapsto> nd\<lparr>lnext := nx'\<rparr>)) f pv (ps @ [p]) nx' e"
  using assms by (auto simp: dseg_append)

lemma dseg_set_data:
  "h p = Some nd \<Longrightarrow> dseg (h(p \<mapsto> nd\<lparr>ldata := d\<rparr>)) f pv ps nx e \<longleftrightarrow> dseg h f pv ps nx e"
  by (induction ps arbitrary: f pv) auto

section \<open>Assignments\<close>

lemma set_ok:
  assumes "heap l p = Some nd"
  shows "set_next l (Some p) x = ret (l\<lparr>heap := (heap l)(p \<mapsto> nd\<lparr>lnext := x\<rparr>)\<rparr>)"
    and "set_prev l (Some p) x = ret (l\<lparr>heap := (heap l)(p \<mapsto> nd\<lparr>lprev := x\<rparr>)\<rparr>)"
    and "set_data l (Some p) c = ret (l\<lparr>heap := (heap l)(p \<mapsto> nd\<lparr>ldata := Some c\<rparr>)\<rparr>)"
    and "deref l (Some p) = ret nd"
  using assms by (simp_all add: set_next_def set_prev_def set_data_def set_node_def deref_def)

text \<open>Two heaps with the same communications, but perhaps other links.\<close>

definition same_data :: "llist \<Rightarrow> llist \<Rightarrow> bool" where
  "same_data l l' \<longleftrightarrow> fresh l' = fresh l \<and>
     (\<forall>q. map_option ldata (heap l' q) = map_option ldata (heap l q))"

lemma same_data_refl: "same_data l l" by (simp add: same_data_def)

lemma same_data_trans: "same_data l l' \<Longrightarrow> same_data l' l'' \<Longrightarrow> same_data l l''"
  by (simp add: same_data_def)

lemma same_data_link:
  "heap l p = Some nd \<Longrightarrow> same_data l (l\<lparr>heap := (heap l)(p \<mapsto> nd\<lparr>lnext := x\<rparr>)\<rparr>)"
  "heap l p = Some nd \<Longrightarrow> same_data l (l\<lparr>heap := (heap l)(p \<mapsto> nd\<lparr>lprev := x\<rparr>)\<rparr>)"
  "same_data l (l\<lparr>lhead := y\<rparr>)"
  by (simp_all add: same_data_def)

definition chained :: "llist \<Rightarrow> nat list \<Rightarrow> bool" where
  "chained l ps \<longleftrightarrow> (\<exists>e. dseg (heap l) (lhead l) None ps None e) \<and> distinct ps"

lemma unlink_chained:
  assumes "chained l (as @ p # zs)" and "as \<noteq> []"
  shows "\<exists>l'. unlink l (Some p) = ret l' \<and> chained l' (as @ zs) \<and> same_data l l' \<and>
           heap l' p = heap l p \<and> lhead l' = lhead l"
proof -
  obtain bs y where as: "as = bs @ [y]" using assms(2) by (metis rev_exhaust)
  from assms(1) have dist: "distinct (as @ p # zs)" by (simp add: chained_def)
  from assms(1) obtain m k e where
    1: "dseg (heap l) (lhead l) None as m k" "dseg (heap l) m k (p # zs) None e"
    by (auto simp: chained_def dseg_append)
  have k: "k = Some y" using dseg_last [OF 1(1) assms(2)] as by simp
  from 1(2) k obtain nd where p: "heap l p = Some nd" "lprev nd = Some y"
      "dseg (heap l) (lnext nd) (Some p) zs None e"
    by auto
  have py: "p \<noteq> y" using dist as by auto
  define l1 where "l1 = (case zs of [] \<Rightarrow> l
    | z # zs' \<Rightarrow> l\<lparr>heap := (heap l)(z \<mapsto> (the (heap l z))\<lparr>lprev := Some y\<rparr>)\<rparr>)"
  have set1: "(if lnext nd \<noteq> None then set_prev l (lnext nd) (lprev nd) else ret l) = ret l1"
    and seg1: "\<exists>e. dseg (heap l1) (lnext nd) (Some y) zs None e"
    and same1: "same_data l l1" and head1: "lhead l1 = lhead l"
    and out1: "\<And>q. q \<notin> set zs \<Longrightarrow> heap l1 q = heap l q"
    using p(2,3) dist
    by (cases zs; auto simp: l1_def set_ok same_data_refl same_data_link)+
  have as1: "dseg (heap l1) (lhead l) None as m k"
  proof (cases zs)
    case (Cons z zs')
    then have "z \<notin> set as" using dist by auto
    with 1(1) Cons show ?thesis by (simp add: l1_def)
  qed (use 1(1) in \<open>simp add: l1_def\<close>)
  obtain yd where yd: "heap l1 y = Some yd" using dseg_alloc [OF as1, of y] as by auto
  let ?l2 = "l1\<lparr>heap := (heap l1)(y \<mapsto> yd\<lparr>lnext := lnext nd\<rparr>)\<rparr>"
  have run: "unlink l (Some p) = ret ?l2"
    by (simp only: unlink_def set_ok(4) [OF p(1)] bind_ret set1) (simp add: p(2) set_ok [OF yd])
  have "dseg (heap ?l2) (lhead l) None as (lnext nd) k"
    using dseg_set_next [OF as1 [unfolded as] _ yd, of "lnext nd"] dist as by simp
  moreover have "\<exists>e. dseg (heap ?l2) (lnext nd) k zs None e"
    using seg1 dist k as by auto
  ultimately have "chained ?l2 (as @ zs)"
    using dist head1 by (auto simp: chained_def dseg_append)
  moreover have "same_data l ?l2" using same1 same_data_link(1) [OF yd] by (rule same_data_trans)
  moreover have "heap ?l2 p = heap l p" using out1 [of p] dist py by simp
  ultimately show ?thesis using run head1 by auto
qed

lemma relink_first:
  assumes "chained l ys" and "ys \<noteq> []" and "p \<notin> set ys" and "heap l p = Some nd"
  shows "\<exists>l'. relink l (Some p) None = ret l' \<and> chained l' (p # ys) \<and> same_data l l'"
proof -
  obtain y ys' where ys: "ys = y # ys'" using assms(2) by (cases ys) auto
  from assms(1) obtain e yd where y: "lhead l = Some y" "heap l y = Some yd" "lprev yd = None"
      "dseg (heap l) (lnext yd) (Some y) ys' None e" "distinct ys"
    by (auto simp: chained_def ys)
  have py: "p \<noteq> y" using assms(3) ys by auto
  let ?l1 = "l\<lparr>heap := (heap l)(y \<mapsto> yd\<lparr>lprev := Some p\<rparr>)\<rparr>"
  have p1: "heap ?l1 p = Some nd" using assms(4) py by simp
  let ?l2 = "?l1\<lparr>heap := (heap ?l1)(p \<mapsto> nd\<lparr>lnext := Some y\<rparr>)\<rparr>"
  let ?l3 = "?l2\<lparr>lhead := Some p\<rparr>"
  have p3: "heap ?l3 p = Some (nd\<lparr>lnext := Some y\<rparr>)" by simp
  let ?l4 = "?l3\<lparr>heap := (heap ?l3)(p \<mapsto> (nd\<lparr>lnext := Some y\<rparr>)\<lparr>lprev := None\<rparr>)\<rparr>"
  have run: "relink l (Some p) None = ret ?l4"
    using assms(4) py
    by (simp add: relink_def y(1) set_ok(2) [OF y(2)])
      (simp add: set_next_def set_prev_def set_node_def deref_def y(1))
  have "same_data l ?l4"
    using y(2) assms(4) py by (auto simp: same_data_def)
  moreover have "chained ?l4 (p # ys)"
    using y assms(3) ys py by (auto simp: chained_def)
  ultimately show ?thesis using run by blast
qed

lemma relink_after:
  assumes "chained l (xs @ ys)" and "xs \<noteq> []" and "p \<notin> set (xs @ ys)" and "heap l p = Some nd"
  shows "\<exists>l'. relink l (Some p) (Some (List.last xs)) = ret l' \<and> chained l' (xs @ p # ys) \<and>
           same_data l l' \<and> lhead l' = lhead l"
proof -
  obtain bs y where xs: "xs = bs @ [y]" using assms(2) by (metis rev_exhaust)
  from assms(1) have dist: "distinct (xs @ ys)" by (simp add: chained_def)
  from assms(1) obtain m k e where
    1: "dseg (heap l) (lhead l) None xs m k" "dseg (heap l) m k ys None e"
    by (auto simp: chained_def dseg_append)
  have k: "k = Some y" using dseg_last [OF 1(1) assms(2)] xs by simp
  obtain yd where yd: "heap l y = Some yd" "lnext yd = m"
    using 1(1) xs by (auto simp: dseg_append)
  have py: "p \<noteq> y" "y \<notin> set ys" "y \<notin> set bs" "p \<notin> set bs" "p \<notin> set ys"
    using assms(3) xs dist by auto
  let ?l1 = "l\<lparr>heap := (heap l)(p \<mapsto> nd\<lparr>lnext := m\<rparr>)\<rparr>"
  define l2 where "l2 = (case ys of [] \<Rightarrow> ?l1
    | z # zs' \<Rightarrow> ?l1\<lparr>heap := (heap ?l1)(z \<mapsto> (the (heap l z))\<lparr>lprev := Some p\<rparr>)\<rparr>)"
  have set2: "(if m \<noteq> None then set_prev ?l1 m (Some p) else ret ?l1) = ret l2"
    and seg2: "\<exists>e. dseg (heap l2) m (Some p) ys None e"
    and same2: "same_data l l2" and head2: "lhead l2 = lhead l"
    and out2: "heap l2 p = Some (nd\<lparr>lnext := m\<rparr>)" "heap l2 y = heap l y"
    using 1(2) dist py assms(4)
    by (cases ys; auto simp: l2_def set_ok same_data_def)+
  have as2: "dseg (heap l2) (lhead l) None xs m k"
  proof (cases ys)
    case (Cons z zs')
    then have "z \<notin> set xs" using dist by auto
    with 1(1) Cons show ?thesis using assms(3) by (simp add: l2_def)
  qed (use 1(1) assms(3) in \<open>simp add: l2_def\<close>)
  let ?l3 = "l2\<lparr>heap := (heap l2)(p \<mapsto> nd\<lparr>lnext := m, lprev := Some y\<rparr>)\<rparr>"
  let ?l4 = "?l3\<lparr>heap := (heap ?l3)(y \<mapsto> yd\<lparr>lnext := Some p\<rparr>)\<rparr>"
  have y3: "heap ?l3 y = Some yd" using out2(2) yd(1) py(1) by auto
  have run: "relink l (Some p) (Some (List.last xs)) = ret ?l4"
    by (simp only: relink_def xs last_snoc set_ok(4) [OF yd(1)] set_ok(1) [OF assms(4)] yd(2) bind_ret
          set2 option.distinct if_False)
      (simp add: set_ok(2) [OF out2(1)] set_ok(1) [OF y3])
  have "dseg (heap ?l4) (lhead l) None xs (Some p) k"
    using dseg_set_next [OF as2 [unfolded xs] py(3), of yd "Some p"] yd out2(2) py(1,4) xs by (simp add: fun_upd_twist)
  moreover have "dseg (heap ?l4) (Some p) k (p # ys) None e'"
    if "dseg (heap l2) m (Some p) ys None e'" for e'
    using that py k by simp
  ultimately have "chained ?l4 (xs @ p # ys)"
    using dist assms(3) head2 seg2 unfolding chained_def dseg_append by fastforce
  moreover have "same_data l ?l4"
    using same2 out2 yd assms(4) by (auto simp: same_data_def)
  ultimately show ?thesis using run head2 by auto
qed

end
