(* ===== verification/Top_Table.thy ===== *)
theory Top_Table
  imports Top_Dll
begin

text \<open>
  What \<open>insert_communication\<close> does to the list of communications, without the pointers: the
  entry of the same two endpoints takes the new packet and moves up past the entries with a
  smaller order; a communication that was not there is added at the end, where it stays. The
  code refines it.
\<close>

section \<open>The specification\<close>

definition rank :: "CLIArguments \<Rightarrow> CommunicationInfo \<Rightarrow> int" where
  "rank a c =
     (let n = if sort_by a = CHR ''b'' then Rx c + Tx c else packets_sent_Rx c + packets_sent_Tx c
      in if (n < 0) = (interval a < 0) then \<bar>n\<bar> div \<bar>interval a\<bar> else - (\<bar>n\<bar> div \<bar>interval a\<bar>))"

definition move_up ::
  "CLIArguments \<Rightarrow> CommunicationInfo list \<Rightarrow> CommunicationInfo \<Rightarrow> CommunicationInfo list" where
  "move_up a cs x =
     rev (dropWhile (\<lambda>d. rank a d < rank a x) (rev cs)) @ x #
     rev (takeWhile (\<lambda>d. rank a d < rank a x) (rev cs))"

primrec insert_spec ::
  "CLIArguments \<Rightarrow> CommunicationInfo \<Rightarrow> CommunicationInfo list \<Rightarrow> CommunicationInfo list \<Rightarrow>
   CommunicationInfo list" where
  "insert_spec a c pre [] = pre @ [c\<lparr>packets_sent_Tx := 1\<rparr>]"
| "insert_spec a c pre (d # ds) =
     (if compare_communications c (Some d) then move_up a pre (add_communications d c) @ ds
      else insert_spec a c (pre @ [d]) ds)"

lemma insert_spec_split:
  "(\<forall>d\<in>set ds. \<not> compare_communications c (Some d)) \<and>
     insert_spec a c pre ds = pre @ ds @ [c\<lparr>packets_sent_Tx := 1\<rparr>] \<or>
   (\<exists>us d vs. ds = us @ d # vs \<and> (\<forall>u\<in>set us. \<not> compare_communications c (Some u)) \<and>
     compare_communications c (Some d) \<and>
     insert_spec a c pre ds = move_up a (pre @ us) (add_communications d c) @ vs)"
proof (induction ds arbitrary: pre)
  case (Cons d ds)
  show ?case
  proof (cases "compare_communications c (Some d)")
    case True
    then show ?thesis by (intro disjI2 exI [of _ "[]"]) simp
  next
    case False
    from Cons.IH [of "pre @ [d]"] show ?thesis
    proof (elim disjE exE conjE)
      fix us e vs
      assume "ds = us @ e # vs" "\<forall>u\<in>set us. \<not> compare_communications c (Some u)"
        "compare_communications c (Some e)"
        "insert_spec a c (pre @ [d]) ds = move_up a ((pre @ [d]) @ us) (add_communications e c) @ vs"
      with False show ?thesis
        by (intro disjI2 exI [of _ "d # us"] exI [of _ e] exI [of _ vs])
          (simp del: compare_communications.simps)
    qed (use False in auto)
  qed
qed simp

section \<open>The list in the heap\<close>

definition stored :: "llist \<Rightarrow> nat \<Rightarrow> CommunicationInfo \<Rightarrow> bool" where
  "stored l p c \<longleftrightarrow> p < fresh l \<and> map_option ldata (heap l p) = Some (Some c)"

definition rep :: "llist \<Rightarrow> nat list \<Rightarrow> CommunicationInfo list \<Rightarrow> bool" where
  "rep l ps cs \<longleftrightarrow> chained l ps \<and> list_all2 (stored l) ps cs"

lemma stored_node:
  assumes "stored l p c"
  obtains nd where "heap l p = Some nd" "ldata nd = Some c" "p < fresh l"
  using assms by (auto simp: stored_def)

lemma same_data_stored: "same_data l l' \<Longrightarrow> stored l' = stored l"
  by (auto simp: fun_eq_iff same_data_def stored_def)

lemma rep_length: "rep l ps cs \<Longrightarrow> length ps = length cs"
  by (auto simp: rep_def list_all2_lengthD)

lemma get_nodes_order_ok:
  assumes "stored l p c" and "interval a \<noteq> 0"
  shows "get_nodes_order a l (Some p) = ret (rank a c)"
  using assms
  by (auto simp: stored_def get_nodes_order_def deref_def comm_order_def cdiv_def rank_def Let_def)

section \<open>The search\<close>

lemma find_loop_skip:
  assumes "dseg (heap l) f prv ps nx e" and "list_all2 (stored l) ps cs" and "length ps \<le> n"
    and "\<forall>d\<in>set cs. \<not> compare_communications c (Some d)"
  shows "find_loop n c l f prv = find_loop (n - length ps) c l nx e"
  using assms
proof (induction ps arbitrary: f prv cs n)
  case (Cons p ps)
  then obtain d ds m where *: "cs = d # ds" "stored l p d" "list_all2 (stored l) ps ds" "n = Suc m"
    by (cases n) (auto simp: list_all2_Cons1)
  then obtain nd where nd: "heap l p = Some nd" "ldata nd = Some d" by (auto elim: stored_node)
  from Cons.prems * nd have "find_loop n c l f prv = find_loop m c l (lnext nd) (Some p)"
    by (simp add: deref_def del: compare_communications.simps)
  also have "\<dots> = find_loop (m - length ps) c l nx e"
    using Cons.prems * nd by (intro Cons.IH [of _ _ ds]) auto
  finally show ?case using * by simp
qed simp

lemma find_loop_miss:
  assumes "rep l ps cs" and "length ps < n" and "\<forall>d\<in>set cs. \<not> compare_communications c (Some d)"
    and "ps \<noteq> []"
  shows "find_loop n c l (lhead l) None = Some (ret (None, Some (List.last ps)))"
proof -
  obtain e where s: "dseg (heap l) (lhead l) None ps None e" using assms(1) by (auto simp: rep_def chained_def)
  have "find_loop n c l (lhead l) None = find_loop (n - length ps) c l None e"
    using assms by (intro find_loop_skip [OF s]) (auto simp: rep_def)
  with assms(2) dseg_last [OF s assms(4)] show ?thesis by (cases "n - length ps") auto
qed

lemma find_loop_hit:
  assumes "rep l (ps @ p # qs) (us @ d # vs)" and "length ps = length us" and "length ps < n"
    and "\<forall>u\<in>set us. \<not> compare_communications c (Some u)" and "compare_communications c (Some d)"
  shows "\<exists>prv. find_loop n c l (lhead l) None = Some (ret (Some p, prv))"
proof -
  obtain m k e where s: "dseg (heap l) (lhead l) None ps m k" "dseg (heap l) m k (p # qs) None e"
    using assms(1) by (auto simp: rep_def chained_def dseg_append)
  have d: "list_all2 (stored l) ps us" "stored l p d"
    using assms(1,2) by (auto simp: rep_def list_all2_append)
  have "find_loop n c l (lhead l) None = find_loop (n - length ps) c l m k"
    using assms d by (intro find_loop_skip [OF s(1)]) auto
  moreover obtain j where "n - length ps = Suc j" using assms(3) by (cases "n - length ps") auto
  moreover from d(2) obtain nd where "heap l p = Some nd" "ldata nd = Some d" by (rule stored_node)
  ultimately show ?thesis using s(2) assms(5) by (simp add: deref_def del: compare_communications.simps)
qed

section \<open>The move\<close>

lemma place_loop_skip:
  assumes "dseg (heap l) f None (ps @ qs) nx e" and "list_all2 (stored l) qs ds"
    and "\<forall>d\<in>set ds. rank a d < r" and "interval a \<noteq> 0" and "length qs \<le> n"
  shows "\<exists>m k. dseg (heap l) f None ps m k \<and> place_loop n a l r e = place_loop (n - length qs) a l r k"
  using assms
proof (induction qs arbitrary: ds nx e n rule: rev_induct)
  case (snoc q qs)
  from snoc.prems(2) obtain ds' d where d: "ds = ds' @ [d]" "list_all2 (stored l) qs ds'" "stored l q d"
    by (auto simp: list_all2_append1 list_all2_Cons1)
  from d(3) obtain nd where nd: "heap l q = Some nd" "ldata nd = Some d" by (rule stored_node)
  from snoc.prems(5) obtain j where n: "n = Suc j" by (cases n) auto
  from snoc.prems(1) nd obtain m where s: "dseg (heap l) f None (ps @ qs) m (lprev nd)" "e = Some q"
    by (auto simp: dseg_append append_assoc [symmetric] simp del: append_assoc)
  have "place_loop n a l r e = place_loop j a l r (lprev nd)"
    using n s(2) nd d snoc.prems(3) get_nodes_order_ok [OF d(3) snoc.prems(4)]
    by (simp add: deref_def)
  moreover have "\<exists>m k. dseg (heap l) f None ps m k \<and>
      place_loop j a l r (lprev nd) = place_loop (j - length qs) a l r k"
    using snoc.prems d n by (intro snoc.IH [OF s(1) d(2)]) auto
  ultimately show ?case using n by simp
qed (auto simp: exI)

text \<open>The loop stops at the end of the part that stays before the node.\<close>

lemma place_loop_stop:
  assumes "dseg (heap l) f None ps m k" and "list_all2 (stored l) ps cs" and "interval a \<noteq> 0"
    and "cs = [] \<or> \<not> rank a (List.last cs) < r" and "0 < n"
  shows "place_loop n a l r k = Some (ret k)" and "ps = [] \<longleftrightarrow> k = None"
proof -
  obtain j where n: "n = Suc j" using assms(5) by (cases n) auto
  show "ps = [] \<longleftrightarrow> k = None" using assms(1) dseg_last [OF assms(1)] by (cases ps) auto
  show "place_loop n a l r k = Some (ret k)"
  proof (cases "ps = []")
    case False
    then have "cs \<noteq> []" using assms(2) by auto
    have k: "k = Some (List.last ps)" by (rule dseg_last [OF assms(1) False])
    have "stored l (List.last ps) (List.last cs)"
      using assms(2) False \<open>cs \<noteq> []\<close> list_all2_lengthD [OF assms(2)]
      by (auto simp: last_conv_nth list_all2_conv_all_nth)
    then show ?thesis using n k assms(4) \<open>cs \<noteq> []\<close> get_nodes_order_ok [OF _ assms(3)]
      by simp
  qed (use assms(1) n in simp)
qed

lemma move_up_split:
  obtains us vs where "cs = us @ vs" "move_up a cs x = us @ x # vs" "\<forall>d\<in>set vs. rank a d < rank a x"
    "us = [] \<or> \<not> rank a (List.last us) < rank a x"
proof -
  let ?P = "\<lambda>d. rank a d < rank a x"
  have "cs = rev (dropWhile ?P (rev cs)) @ rev (takeWhile ?P (rev cs))"
    by (metis rev_append rev_rev_ident takeWhile_dropWhile_id)
  moreover have "\<forall>d\<in>set (rev (takeWhile ?P (rev cs))). ?P d" by (auto dest: set_takeWhileD)
  moreover have "rev (dropWhile ?P (rev cs)) = [] \<or> \<not> ?P (List.last (rev (dropWhile ?P (rev cs))))"
    using hd_dropWhile [of ?P "rev cs"] by (cases "dropWhile ?P (rev cs)") (simp_all add: last_rev)
  ultimately show ?thesis using that unfolding move_up_def by blast
qed


lemma chained_next:
  assumes "chained l (xs @ p # ys)" and "xs \<noteq> []"
  shows "\<exists>nd. heap l (List.last xs) = Some nd \<and> lnext nd = Some p"
proof -
  obtain bs y where "xs = bs @ [y]" using assms(2) by (metis rev_exhaust)
  with assms(1) show ?thesis by (auto simp: chained_def dseg_append)
qed

lemma chained_prev:
  assumes "chained l (xs @ p # ys)"
  shows "\<exists>nd. heap l p = Some nd \<and> lprev nd = (if xs = [] then None else Some (List.last xs))"
proof -
  from assms obtain m k e where "dseg (heap l) (lhead l) None xs m k" "dseg (heap l) m k (p # ys) None e"
    by (auto simp: chained_def dseg_append)
  with dseg_last [OF this(1)] show ?thesis by auto
qed

text \<open>The pointer assignments move the node \<open>p\<close> over the nodes \<open>vs\<close>.\<close>

lemma relink_moves:
  assumes "chained l (us @ vs @ p # zs)" and "vs \<noteq> []"
  shows "\<exists>l'. bind_io (unlink l (Some p)) (\<lambda>l1. relink l1 (Some p) (if us = [] then None else Some (List.last us))) =
               ret l' \<and> chained l' (us @ p # vs @ zs) \<and> same_data l l'"
proof -
  from assms obtain l1 where l1: "unlink l (Some p) = ret l1" "chained l1 ((us @ vs) @ zs)"
      "same_data l l1" "heap l1 p = heap l p"
    using unlink_chained [of l "us @ vs" p zs] by auto
  obtain nd where nd: "heap l p = Some nd" using chained_prev [of l "us @ vs" p zs] assms(1) by auto
  have p: "p \<notin> set (us @ vs @ zs)" using assms(1) by (auto simp: chained_def)
  show ?thesis
  proof (cases "us = []")
    case True
    with l1 p assms(2) nd relink_first [of l1 "vs @ zs" p nd] show ?thesis
      by (auto intro: same_data_trans)
  next
    case False
    with l1 p nd relink_after [of l1 us "vs @ zs" p nd] show ?thesis
      by (auto intro: same_data_trans)
  qed
qed

lemma update_node_position_refines:
  assumes "rep l (ps @ p # qs) (cs @ x # ds)" and "length ps = length cs" and "length ps < n"
    and "interval a \<noteq> 0"
  shows "\<exists>l' ps'. update_node_position n a l (Some p) = Some (ret l') \<and>
           rep l' ps' (move_up a cs x @ ds) \<and> fresh l' = fresh l"
proof (cases "ps = []")
  case True
  with assms obtain nd where "heap l p = Some nd" "lprev nd = None"
    using chained_prev [of l ps p qs] by (auto simp: rep_def)
  with True assms(1,2) show ?thesis
    by (auto simp: update_node_position_def deref_def move_up_def)
next
  case False
  obtain us vs where uv: "cs = us @ vs" "move_up a cs x = us @ x # vs"
      "\<forall>d\<in>set vs. rank a d < rank a x" "us = [] \<or> \<not> rank a (List.last us) < rank a x"
    by (rule move_up_split)
  from assms(1,2) have data: "list_all2 (stored l) ps cs" "stored l p x" "list_all2 (stored l) qs ds"
    and ch: "chained l (ps @ p # qs)"
    by (auto simp: rep_def list_all2_append)
  from data(1) uv(1) obtain as bs where ab: "ps = as @ bs" "list_all2 (stored l) as us" "list_all2 (stored l) bs vs"
    by (auto simp: list_all2_append2)
  obtain nd where nd: "heap l p = Some nd" "lprev nd = Some (List.last ps)"
    using chained_prev [OF ch] False by auto
  from ch obtain e where "dseg (heap l) (lhead l) None ps (Some p) e"
    by (auto simp: chained_def dseg_append)
  with dseg_last [OF this False] have seg: "dseg (heap l) (lhead l) None (as @ bs) (Some p) (Some (List.last ps))"
    using ab(1) by simp
  from place_loop_skip [OF seg ab(3) uv(3) assms(4), of n] ab(1) assms(3)
  obtain m k where mk: "dseg (heap l) (lhead l) None as m k"
      "place_loop n a l (rank a x) (Some (List.last ps)) = place_loop (n - length bs) a l (rank a x) k"
    by auto
  have k: "k = (if as = [] then None else Some (List.last as))"
    using mk(1) dseg_last [OF mk(1)] by (cases as) auto
  have place: "place_loop n a l (rank a x) (Some (List.last ps)) = Some (ret k)"
    using place_loop_stop(1) [OF mk(1) ab(2) assms(4) uv(4), of "n - length bs"] mk(2) ab(1) assms(3) by simp
  have head: "lhead l = Some (hd ps)" using dseg_hd [OF seg] ab(1) False by simp
  have stay: "(if k \<noteq> None then bind_io (deref l k) (\<lambda>pd. ret (lnext pd = Some p)) else ret (Some p = lhead l))
      = ret (bs = [])"
  proof (cases "as = []")
    case True
    then show ?thesis using k head False ch ab(1) by (cases bs) (auto simp: chained_def)
  next
    case as: False
    with ch ab(1) obtain pd where "heap l (List.last as) = Some pd" "lnext pd = Some (hd (bs @ [p]))"
      using chained_next [of l as "hd (bs @ [p])" "tl (bs @ [p]) @ qs"] by (cases bs) auto
    then show ?thesis using k as ch ab(1) by (cases bs) (auto simp: deref_def chained_def)
  qed
  have run: "update_node_position n a l (Some p) = Some
      (if bs = [] then ret l else bind_io (unlink l (Some p)) (\<lambda>l1. relink l1 (Some p) k))"
    by (simp only: update_node_position_def set_ok(4) [OF nd(1)] bind_fuel_ret nd(2) option.distinct
        if_False get_nodes_order_ok [OF data(2) assms(4)] place option.map bind_ret stay if_io_ret)
  show ?thesis
  proof (cases "bs = []")
    case True
    then have "vs = []" using ab(3) by simp
    with True run uv(1,2) assms(1) show ?thesis by auto
  next
    case bs: False
    from relink_moves [of l as bs p qs] ch ab(1) bs k obtain l' where
      l': "bind_io (unlink l (Some p)) (\<lambda>l1. relink l1 (Some p) k) = ret l'"
        "chained l' (as @ p # bs @ qs)" "same_data l l'"
      by auto
    have "rep l' (as @ p # bs @ qs) (us @ x # vs @ ds)"
      using l'(2) ab(2,3) data(2,3)
      by (auto simp: rep_def same_data_stored [OF l'(3)] intro!: list_all2_appendI)
    with run bs l' uv(2) show ?thesis by (auto simp: same_data_def)
  qed
qed

section \<open>Inserting\<close>

lemma rep_init_node:
  assumes "rep l ps cs" and "init_node l = (x, l')"
  shows "x = fresh l" and "x \<notin> set ps" and "rep l' ps cs"
    and "heap l' x = Some \<lparr>ldata = None, lnext = None, lprev = None\<rparr>"
    and "lhead l' = lhead l" and "fresh l' = Suc x"
proof -
  from assms(1) have "\<forall>p\<in>set ps. p < fresh l"
    by (auto simp: rep_def stored_def list_all2_conv_all_nth in_set_conv_nth)
  with assms(2) show x: "x = fresh l" "x \<notin> set ps"
    and "heap l' x = Some \<lparr>ldata = None, lnext = None, lprev = None\<rparr>" "lhead l' = lhead l" "fresh l' = Suc x"
    by (auto simp: init_node_def)
  have "list_all2 (stored l') ps cs"
    using assms x(2) by (auto simp: rep_def init_node_def stored_def list_all2_conv_all_nth)
  then show "rep l' ps cs"
    using assms x by (auto simp: rep_def init_node_def chained_def)
qed

text \<open>Where the communication is not in the list, \<open>get_node\<close> hangs an empty node at its end.\<close>

lemma get_node_new:
  assumes "rep l ps cs" and "length ps < n" and "\<forall>d\<in>set cs. \<not> compare_communications c (Some d)"
  shows "\<exists>l' x nd. get_node n c l = Some (ret (x, l')) \<and> chained l' (ps @ [x]) \<and>
           list_all2 (stored l') ps cs \<and> heap l' x = Some nd \<and> ldata nd = None \<and> x < fresh l' \<and>
           fresh l' = Suc (fresh l)"
proof -
  obtain x l1 where i: "init_node l = (x, l1)" by fastforce
  note new = rep_init_node [OF assms(1) i]
  show ?thesis
  proof (cases "ps = []")
    case True
    with assms(1) have "lhead l = None" by (auto simp: rep_def chained_def)
    with True new i show ?thesis by (auto simp: get_node_def chained_def rep_def)
  next
    case False
    let ?y = "List.last ps"
    obtain bs where ps: "ps = bs @ [?y]" using False by (metis append_butlast_last_id)
    obtain e where seg: "dseg (heap l1) (lhead l1) None ps None e"
      using new(3) by (auto simp: rep_def chained_def)
    have dist: "distinct (ps @ [x])" using new(2,3) by (auto simp: rep_def chained_def)
    obtain yd where y: "heap l1 ?y = Some yd" using dseg_alloc [OF seg, of ?y] False by auto
    from dist ps have "distinct ((bs @ [?y]) @ [x])" by simp
    then have xy: "x \<noteq> ?y" "?y \<notin> set bs" by auto
    let ?l2 = "l1\<lparr>heap := (heap l1)(?y \<mapsto> yd\<lparr>lnext := Some x\<rparr>)\<rparr>"
    have x2: "heap ?l2 x = Some \<lparr>ldata = None, lnext = None, lprev = None\<rparr>" using new(4) xy by simp
    let ?l3 = "?l2\<lparr>heap := (heap ?l2)(x \<mapsto> \<lparr>ldata = None, lnext = None, lprev = Some ?y\<rparr>)\<rparr>"
    obtain h where "lhead l = Some h" using assms(1) False by (cases ps) (auto simp: rep_def chained_def)
    then have run: "get_node n c l = Some (ret (x, ?l3))"
      using find_loop_miss [OF assms(1,2,3) False] i set_ok(1) [OF y] set_ok(2) [OF x2]
      by (simp add: get_node_def)
    have "e = Some ?y" using seg False by (rule dseg_last)
    then have "dseg (heap ?l3) (lhead l1) None (ps @ [x]) None (Some x)"
      using dseg_set_next [of "heap l1" "lhead l1" None bs ?y None e yd "Some x"] seg ps xy y dist
      by (auto simp: dseg_append)
    then have "chained ?l3 (ps @ [x])" using dist by (auto simp: chained_def)
    moreover have "list_all2 (stored ?l3) ps cs"
      using new(3) y new(2) xy(1) by (auto simp: rep_def stored_def list_all2_conv_all_nth)
    ultimately show ?thesis using run new(1,6) by auto
  qed
qed

lemma get_node_old:
  assumes "rep l (ps @ p # qs) (us @ d # vs)" and "length ps = length us" and "length ps < n"
    and "\<forall>u\<in>set us. \<not> compare_communications c (Some u)" and "compare_communications c (Some d)"
  shows "get_node n c l = Some (ret (p, l))"
proof -
  obtain h where h: "lhead l = Some h" using assms(1) by (cases ps) (auto simp: rep_def chained_def)
  obtain prv where "find_loop n c l (lhead l) None = Some (ret (Some p, prv))"
    using find_loop_hit [OF assms] by blast
  with h show ?thesis by (simp add: get_node_def)
qed

lemma set_data_rep:
  assumes "chained l (ps @ p # qs)" and "list_all2 (stored l) ps us" and "list_all2 (stored l) qs vs"
    and "heap l p = Some nd" and "p < fresh l"
  shows "\<exists>l'. set_data l (Some p) c = ret l' \<and> rep l' (ps @ p # qs) (us @ c # vs) \<and> fresh l' = fresh l"
proof -
  let ?l = "l\<lparr>heap := (heap l)(p \<mapsto> nd\<lparr>ldata := Some c\<rparr>)\<rparr>"
  have "p \<notin> set ps" "p \<notin> set qs" using assms(1) by (auto simp: chained_def)
  then have "list_all2 (stored ?l) ps us" "list_all2 (stored ?l) qs vs"
    using assms(2,3) by (auto simp: stored_def list_all2_conv_all_nth)
  with assms(1,4,5) have "rep ?l (ps @ p # qs) (us @ c # vs)"
    by (auto simp: rep_def chained_def dseg_set_data stored_def intro!: list_all2_appendI)
  with set_ok(3) [OF assms(4)] show ?thesis by simp
qed

theorem insert_refines:
  assumes "rep l ps cs" and "length ps < n" and "interval a \<noteq> 0"
  shows "\<exists>l' ps'. insert_communication n a c l = Some (ret l') \<and> rep l' ps' (insert_spec a c [] cs)"
  using insert_spec_split [of cs c a "[]"]
proof (elim disjE exE conjE)
  assume no: "\<forall>d\<in>set cs. \<not> compare_communications c (Some d)"
    and spec: "insert_spec a c [] cs = [] @ cs @ [c\<lparr>packets_sent_Tx := 1\<rparr>]"
  from get_node_new [OF assms(1,2) no] obtain l1 x nd where
    1: "get_node n c l = Some (ret (x, l1))" "chained l1 (ps @ [x])" "list_all2 (stored l1) ps cs"
      "heap l1 x = Some nd" "ldata nd = None" "x < fresh l1"
    by auto
  with set_data_rep [of l1 ps x "[]" cs "[]" nd "c\<lparr>packets_sent_Tx := 1\<rparr>"] set_ok(4) [OF 1(4)] spec
  show ?thesis by (auto simp: insert_communication_def)
next
  fix us d vs
  assume cs: "cs = us @ d # vs" and no: "\<forall>u\<in>set us. \<not> compare_communications c (Some u)"
    and hit: "compare_communications c (Some d)"
    and spec: "insert_spec a c [] cs = move_up a ([] @ us) (add_communications d c) @ vs"
  from assms(1) cs obtain qs p rs where ps: "ps = qs @ p # rs" "list_all2 (stored l) qs us" "stored l p d"
      "list_all2 (stored l) rs vs"
    by (auto simp: rep_def list_all2_append2 list_all2_Cons2)
  note len = list_all2_lengthD [OF ps(2)]
  from ps(3) obtain nd where nd: "heap l p = Some nd" "ldata nd = Some d" "p < fresh l" by (rule stored_node)
  have get: "get_node n c l = Some (ret (p, l))"
    using assms(1,2) cs ps(1) len no hit by (intro get_node_old) auto
  from set_data_rep [of l qs p rs us vs nd "add_communications d c"] assms(1) ps nd obtain l1 where
    l1: "set_data l (Some p) (add_communications d c) = ret l1"
      "rep l1 (qs @ p # rs) (us @ add_communications d c # vs)"
    by (auto simp: rep_def)
  from update_node_position_refines [OF l1(2) len _ assms(3), of n] assms(2) ps(1) obtain l' ps' where
    "update_node_position n a l1 (Some p) = Some (ret l')" "rep l' ps' (move_up a us (add_communications d c) @ vs)"
    by auto
  with get l1(1) set_ok(4) [OF nd(1)] nd(2) spec show ?thesis by (auto simp: insert_communication_def)
qed

end
