(* ===== verification/Top_Flows.thy ===== *)
theory Top_Flows
  imports Top_Table "HOL-Library.Multiset"
begin

text \<open>
  What the table of communications says of the packets: every flow has one entry, and every
  packet is counted once, in the direction it had. The arguments are made once, for any table
  that keeps one entry per class of an equivalence (\<open>flow_table\<close>), and hold for the code's.
\<close>

section \<open>Tables with one entry per flow\<close>

locale flow_table =
  fixes same :: "'a \<Rightarrow> 'a \<Rightarrow> bool" and merge :: "'a \<Rightarrow> 'a \<Rightarrow> 'a" and enter :: "'a \<Rightarrow> 'a"
    and ins :: "'a \<Rightarrow> 'a list \<Rightarrow> 'a list"
  assumes same_sym: "same x y \<Longrightarrow> same y x"
    and same_trans: "same x y \<Longrightarrow> same y z \<Longrightarrow> same x z"
    and same_merge: "same x (merge d c) \<longleftrightarrow> same x d"
    and same_enter: "same x (enter c) \<longleftrightarrow> same x c"
    and ins_cases:
      "(\<forall>d\<in>set cs. \<not> same c d) \<and> mset (ins c cs) = add_mset (enter c) (mset cs) \<or>
       (\<exists>d M. mset cs = add_mset d M \<and> same c d \<and> mset (ins c cs) = add_mset (merge d c) M)"
begin

definition of_flow :: "'a \<Rightarrow> 'a list \<Rightarrow> 'a multiset" where
  "of_flow x cs = filter_mset (same x) (mset cs)"

definition apart :: "'a list \<Rightarrow> bool" where
  "apart cs \<longleftrightarrow> (\<forall>x. size (of_flow x cs) \<le> 1)"

lemma same_left: "same x c \<Longrightarrow> same x d \<longleftrightarrow> same c d"
  using same_sym same_trans by blast

lemma apart_ins:
  assumes "apart cs"
  shows "apart (ins c cs)"
  unfolding apart_def
proof
  fix x
  from assms have x: "size (of_flow x cs) \<le> 1" by (simp add: apart_def)
  from ins_cases [where cs = cs and c = c] show "size (of_flow x (ins c cs)) \<le> 1"
  proof (elim disjE exE conjE)
    assume no: "\<forall>d\<in>set cs. \<not> same c d" and m: "mset (ins c cs) = add_mset (enter c) (mset cs)"
    show ?thesis
    proof (cases "same x c")
      case True
      with no have "of_flow x cs = {#}"
        by (auto simp: of_flow_def same_left [OF True])
      with m show ?thesis using True by (simp add: of_flow_def same_enter)
    qed (use m x in \<open>simp add: of_flow_def same_enter\<close>)
  qed (use x in \<open>auto simp: of_flow_def same_merge split: if_splits\<close>)
qed

lemma apart_fold: "apart cs \<Longrightarrow> apart (fold ins ps cs)"
  by (induction ps arbitrary: cs) (simp_all add: apart_ins)

lemma apart_Nil: "apart []" by (simp add: apart_def of_flow_def)

text \<open>One entry per flow, said of the positions.\<close>

lemma apart_nth:
  assumes "apart cs" and "i < length cs" and "j < length cs" and "same (cs ! i) (cs ! j)"
  shows "i = j"
proof (rule ccontr)
  assume ij: "i \<noteq> j"
  have r: "same (cs ! i) (cs ! i)" using assms(4) same_sym same_trans by blast
  let ?I = "{k. k < length cs \<and> same (cs ! i) (cs ! k)}"
  have "size (of_flow (cs ! i) cs) = length (filter (same (cs ! i)) cs)"
    by (simp add: of_flow_def flip: mset_filter)
  also have "\<dots> = card ?I" by (rule length_filter_conv_card)
  finally have "card ?I \<le> 1" using assms(1) by (metis apart_def)
  moreover have "{i, j} \<subseteq> ?I" using assms r by auto
  then have "card {i, j} \<le> card ?I" by (intro card_mono) auto
  ultimately show False using ij by simp
qed

text \<open>A weight that merging adds up is the sum over the packets of the flow.\<close>

lemma weight_fold:
  fixes w :: "'a \<Rightarrow> int"
  assumes merge: "\<And>d c. same x d \<Longrightarrow> same x c \<Longrightarrow> w (merge d c) = w d + w c"
    and enter: "\<And>c. c \<in> set ps \<Longrightarrow> same x c \<Longrightarrow> w (enter c) = w c"
  shows "sum_mset (image_mset w (of_flow x (fold ins ps cs))) =
         sum_mset (image_mset w (of_flow x cs)) + sum_list (map w (filter (same x) ps))"
  using enter
proof (induction ps arbitrary: cs)
  case (Cons c ps)
  have "sum_mset (image_mset w (of_flow x (ins c cs))) =
      sum_mset (image_mset w (of_flow x cs)) + (if same x c then w c else 0)"
    using ins_cases [where cs = cs and c = c]
  proof (elim disjE exE conjE)
    fix d M
    assume *: "mset cs = add_mset d M" "same c d" "mset (ins c cs) = add_mset (merge d c) M"
    have "same x d \<longleftrightarrow> same x c" using *(2) same_sym same_trans by blast
    with * show ?thesis by (auto simp: of_flow_def same_merge merge)
  qed (auto simp: of_flow_def same_enter Cons.prems)
  with Cons.IH [of "ins c cs"] Cons.prems show ?case by simp
qed simp

text \<open>The entries are the flows of the packets.\<close>

lemma flows_fold:
  "(\<exists>d\<in>set (fold ins ps cs). same x d) \<longleftrightarrow> (\<exists>d\<in>set cs. same x d) \<or> (\<exists>c\<in>set ps. same x c)"
proof (induction ps arbitrary: cs)
  case (Cons c ps)
  have "(\<exists>d\<in>set (ins c cs). same x d) \<longleftrightarrow> (\<exists>d\<in>set cs. same x d) \<or> same x c"
    using ins_cases [where cs = cs and c = c]
  proof (elim disjE exE conjE)
    fix d M
    assume *: "mset cs = add_mset d M" "same c d" "mset (ins c cs) = add_mset (merge d c) M"
    have "same x d \<longleftrightarrow> same x c" using *(2) same_sym same_trans by blast
    with * show ?thesis by (auto simp: same_merge simp flip: set_mset_mset)
  qed (auto simp: same_enter simp flip: set_mset_mset)
  with Cons.IH [of "ins c cs"] show ?case by auto
qed simp

lemma entry_weight:
  fixes w :: "'a \<Rightarrow> int"
  assumes merge: "\<And>d c. same e d \<Longrightarrow> same e c \<Longrightarrow> w (merge d c) = w d + w c"
    and enter: "\<And>c. c \<in> set ps \<Longrightarrow> same e c \<Longrightarrow> w (enter c) = w c"
    and e: "e \<in> set (fold ins ps [])" "same e e"
  shows "w e = sum_list (map w (filter (same e) ps))"
proof -
  have "e \<in># of_flow e (fold ins ps [])" using e by (simp add: of_flow_def)
  moreover have "size (of_flow e (fold ins ps [])) \<le> 1"
    using apart_fold [OF apart_Nil] by (simp add: apart_def)
  ultimately have "of_flow e (fold ins ps []) = {#e#}"
    by (cases "of_flow e (fold ins ps [])" rule: multiset_cases) auto
  with weight_fold [where x = e and w = w and ps = ps and cs = "[]", OF merge enter] show ?thesis
    by (simp add: of_flow_def)
qed

end

section \<open>The code's table\<close>

definition same_flow :: "CommunicationInfo \<Rightarrow> CommunicationInfo \<Rightarrow> bool" where
  "same_flow c d = compare_communications c (Some d)"

text \<open>The bytes and packets of an entry that went from the source of \<open>x\<close>, and the other way.\<close>

definition same_source :: "CommunicationInfo \<Rightarrow> CommunicationInfo \<Rightarrow> bool" where
  "same_source x d \<longleftrightarrow> src_ip x = src_ip d \<and> src_port x = src_port d"

definition bytes_out :: "CommunicationInfo \<Rightarrow> CommunicationInfo \<Rightarrow> int" where
  "bytes_out x d = (if same_source x d then Tx d else Rx d)"

definition bytes_in :: "CommunicationInfo \<Rightarrow> CommunicationInfo \<Rightarrow> int" where
  "bytes_in x d = (if same_source x d then Rx d else Tx d)"

definition packets_out :: "CommunicationInfo \<Rightarrow> CommunicationInfo \<Rightarrow> int" where
  "packets_out x d = (if same_source x d then packets_sent_Tx d else packets_sent_Rx d)"

definition packets_in :: "CommunicationInfo \<Rightarrow> CommunicationInfo \<Rightarrow> int" where
  "packets_in x d = (if same_source x d then packets_sent_Rx d else packets_sent_Tx d)"

lemmas weights = bytes_out_def bytes_in_def packets_out_def packets_in_def

definition first_packet :: "CommunicationInfo \<Rightarrow> CommunicationInfo" where
  "first_packet c = c\<lparr>packets_sent_Tx := 1\<rparr>"

lemma mset_move_up: "mset (move_up a cs x) = add_mset x (mset cs)"
  by (rule move_up_split [of cs a x]) simp

lemma add_communications_key [simp]:
  "src_ip (add_communications d c) = src_ip d" "dst_ip (add_communications d c) = dst_ip d"
  "src_port (add_communications d c) = src_port d" "dst_port (add_communications d c) = dst_port d"
  by (simp_all add: add_communications_def)

interpretation flows: flow_table same_flow add_communications first_packet "\<lambda>c. insert_spec a c []" for a
proof
  fix c cs
  show "(\<forall>d\<in>set cs. \<not> same_flow c d) \<and>
         mset (insert_spec a c [] cs) = add_mset (first_packet c) (mset cs) \<or>
       (\<exists>d M. mset cs = add_mset d M \<and> same_flow c d \<and>
         mset (insert_spec a c [] cs) = add_mset (add_communications d c) M)"
    using insert_spec_split [of cs c a "[]"]
  proof (elim disjE exE conjE)
    fix us d vs
    assume "cs = us @ d # vs" "compare_communications c (Some d)"
      "insert_spec a c [] cs = move_up a ([] @ us) (add_communications d c) @ vs"
    then show ?thesis
      by (intro disjI2 exI [of _ d] exI [of _ "mset us + mset vs"])
        (simp add: same_flow_def mset_move_up del: compare_communications.simps)
  qed (simp add: same_flow_def first_packet_def del: compare_communications.simps)
qed (auto simp: same_flow_def first_packet_def)

lemma weights_merge:
  assumes "same_flow x d" and "same_flow x c"
  shows "bytes_out x (add_communications d c) = bytes_out x d + bytes_out x c"
    and "bytes_in x (add_communications d c) = bytes_in x d + bytes_in x c"
    and "packets_out x (add_communications d c) = packets_out x d + packets_out x c"
    and "packets_in x (add_communications d c) = packets_in x d + packets_in x c"
  using assms by (auto simp: same_flow_def add_communications_def weights same_source_def)

lemma same_flow_refl: "same_flow x x" and same_source_refl: "same_source x x"
  by (simp_all add: same_flow_def same_source_def)

text \<open>A captured packet: it carries bytes from its source to its destination.\<close>

definition is_packet :: "CommunicationInfo \<Rightarrow> bool" where
  "is_packet c \<longleftrightarrow> Rx c = 0 \<and> 0 \<le> Tx c \<and> packets_sent_Rx c = 0 \<and> packets_sent_Tx c = 1"

lemma first_packet_id: "is_packet c \<Longrightarrow> first_packet c = c"
  by (cases c) (simp add: is_packet_def first_packet_def)

definition table :: "CLIArguments \<Rightarrow> CommunicationInfo list \<Rightarrow> CommunicationInfo list" where
  "table a cs = fold (\<lambda>c. insert_spec a c []) cs []"

lemma table_weight:
  fixes w :: "CommunicationInfo \<Rightarrow> int"
  assumes "\<forall>c\<in>set ps. is_packet c" and "e \<in> set (table a ps)"
    and "\<And>d c. same_flow e d \<Longrightarrow> same_flow e c \<Longrightarrow> w (add_communications d c) = w d + w c"
  shows "w e = sum_list (map w (filter (same_flow e) ps))"
proof (rule flows.entry_weight)
  show "e \<in> set (fold (\<lambda>c. insert_spec a c []) ps [])" using assms(2) by (simp add: table_def)
qed (use assms in \<open>auto simp: first_packet_id same_flow_refl\<close>)

lemma table_counts:
  assumes "\<forall>c\<in>set ps. is_packet c" and "e \<in> set (table a ps)"
  shows "Tx e = (\<Sum>c\<leftarrow>ps. if same_flow e c \<and> same_source e c then Tx c else 0)"
    and "Rx e = (\<Sum>c\<leftarrow>ps. if same_flow e c \<and> \<not> same_source e c then Tx c else 0)"
    and "packets_sent_Tx e = int (length (filter (\<lambda>c. same_flow e c \<and> same_source e c) ps))"
    and "packets_sent_Rx e = int (length (filter (\<lambda>c. same_flow e c \<and> \<not> same_source e c) ps))"
proof -
  note w = table_weight [OF assms]
  have "bytes_out e e = Tx e" "bytes_in e e = Rx e" "packets_out e e = packets_sent_Tx e"
    "packets_in e e = packets_sent_Rx e"
    by (simp_all add: weights same_source_refl)
  note * = w [of "bytes_out e", unfolded this(1)] w [of "bytes_in e", unfolded this(2)]
    w [of "packets_out e", unfolded this(3)] w [of "packets_in e", unfolded this(4)]
  have **: "sum_list (map (bytes_out e) (filter (same_flow e) ps)) =
      (\<Sum>c\<leftarrow>ps. if same_flow e c \<and> same_source e c then Tx c else 0)"
    "sum_list (map (bytes_in e) (filter (same_flow e) ps)) =
      (\<Sum>c\<leftarrow>ps. if same_flow e c \<and> \<not> same_source e c then Tx c else 0)"
    "sum_list (map (packets_out e) (filter (same_flow e) ps)) =
      int (length (filter (\<lambda>c. same_flow e c \<and> same_source e c) ps))"
    "sum_list (map (packets_in e) (filter (same_flow e) ps)) =
      int (length (filter (\<lambda>c. same_flow e c \<and> \<not> same_source e c) ps))"
    using assms(1) by (induction ps) (auto simp: weights is_packet_def)
  show "Tx e = (\<Sum>c\<leftarrow>ps. if same_flow e c \<and> same_source e c then Tx c else 0)"
    using *(1) weights_merge(1) **(1) by simp
  show "Rx e = (\<Sum>c\<leftarrow>ps. if same_flow e c \<and> \<not> same_source e c then Tx c else 0)"
    using *(2) weights_merge(2) **(2) by simp
  show "packets_sent_Tx e = int (length (filter (\<lambda>c. same_flow e c \<and> same_source e c) ps))"
    using *(3) weights_merge(3) **(3) by simp
  show "packets_sent_Rx e = int (length (filter (\<lambda>c. same_flow e c \<and> \<not> same_source e c) ps))"
    using *(4) weights_merge(4) **(4) by simp
qed

section \<open>The order of the entries\<close>

definition sorted_down :: "CLIArguments \<Rightarrow> CommunicationInfo list \<Rightarrow> bool" where
  "sorted_down a cs = sorted_wrt (\<lambda>x y. rank a y \<le> rank a x) cs"

text \<open>The entry that grew is moved to its place among the entries in front of it.\<close>

lemma move_up_sorted:
  assumes "sorted_down a (us @ d # vs)" and "rank a d \<le> rank a x"
  shows "sorted_down a (move_up a us x @ vs)"
proof (rule move_up_split [of us a x])
  fix ts ws
  assume *: "us = ts @ ws" "move_up a us x = ts @ x # ws" "\<forall>e\<in>set ws. rank a e < rank a x"
    "ts = [] \<or> \<not> rank a (List.last ts) < rank a x"
  have "rank a x \<le> rank a t" if "t \<in> set ts" for t
  proof -
    from that obtain bs b where ts: "ts = bs @ [b]" by (metis empty_iff list.set(1) rev_exhaust)
    with assms(1) *(1) that have "rank a b \<le> rank a t"
      by (auto simp: sorted_down_def sorted_wrt_append)
    with *(4) ts show ?thesis by auto
  qed
  with assms * show ?thesis
    by (auto simp: sorted_down_def sorted_wrt_append intro: order_trans less_imp_le)
qed

lemma rank_mono:
  assumes "0 < interval a" and "is_packet c" and "0 \<le> Rx d + Tx d" and "0 \<le> packets_sent_Rx d + packets_sent_Tx d"
  shows "rank a d \<le> rank a (add_communications d c)"
proof -
  have "rank a e = (if sort_by a = CHR ''b'' then Rx e + Tx e else packets_sent_Rx e + packets_sent_Tx e) div interval a"
    if "0 \<le> Rx e + Tx e" "0 \<le> packets_sent_Rx e + packets_sent_Tx e" for e
    using that assms(1) by (simp add: rank_def Let_def)
  note r = this [of d] this [of "add_communications d c"]
  have sums: "Rx (add_communications d c) + Tx (add_communications d c) = Rx d + Tx d + Tx c"
    "packets_sent_Rx (add_communications d c) + packets_sent_Tx (add_communications d c) =
      packets_sent_Rx d + packets_sent_Tx d + 1"
    using assms(2) by (simp_all add: is_packet_def add_communications_def)
  with r assms show ?thesis by (simp add: is_packet_def zdiv_mono1)
qed

end
