(* ===== verification/Top_Packets.thy ===== *)
theory Top_Packets
  imports Top_Flows Format
begin

text \<open>
  \<open>packet_handler.c\<close> and \<open>error.c\<close>: the bytes of a captured frame, what the handler reads from
  them, and the loop of the capturing thread. A read past the captured bytes is a fault, because
  the handler never compares the length of the capture with what it reads. The text of
  addresses and the names of protocols come from the C library and are parameters, as are
  the answers of the pcap library.
\<close>

unbundle bit_operations_syntax

section \<open>Errors\<close>

datatype ErrorType = ERR_MALLOC | ERR_THREAD | ERR_CLI | ERR_PACKET_CAPTURE

fun exit_code :: "ErrorType \<Rightarrow> int" where
  "exit_code ERR_MALLOC = 1"
| "exit_code ERR_THREAD = 2"
| "exit_code ERR_CLI = 3"
| "exit_code ERR_PACKET_CAPTURE = 4"

fun error_text :: "string \<Rightarrow> ErrorType \<Rightarrow> string" where
  "error_text m ERR_MALLOC = ''ERROR: Malloc failed in '' @ m @ ''.'' @ [CHR 0x0A]"
| "error_text m ERR_THREAD = ''ERROR: Threading failed in '' @ m @ ''.'' @ [CHR 0x0A]"
| "error_text m ERR_CLI = ''ERROR: There has been an error with CLI '' @ m @ ''.'' @ [CHR 0x0A]"
| "error_text m ERR_PACKET_CAPTURE =
     ''ERROR: There has been an error with capturing '' @ m @ ''.'' @ [CHR 0x0A]"

text \<open>\<open>cap\<close>: there is a packet capture to close.\<close>

definition close_all :: "bool \<Rightarrow> unit top_io" where
  "close_all cap = bind_io (if cap then emit PcapClose else ret ()) (\<lambda>_. emit EndWin)"

definition throw_error :: "bool \<Rightarrow> string \<Rightarrow> ErrorType \<Rightarrow> 'a top_io" where
  "throw_error cap m t =
     bind_io (emit (Err (error_text m t))) (\<lambda>_. bind_io (close_all cap) (\<lambda>_. stop (Exit (exit_code t))))"

definition quit_app :: "bool \<Rightarrow> int \<Rightarrow> 'a top_io" where
  "quit_app cap sig =
     bind_io (close_all cap) (\<lambda>_.
     bind_io (emit (Out ([CHR 0x0A] @ ''Exiting due to signal '' @ show_int sig @ ''...'' @ [CHR 0x0A])))
       (\<lambda>_. stop (Exit 0)))"

section \<open>Reading a frame\<close>

record net_lib =
  inet_ntop4 :: "u8 list \<Rightarrow> string"
  inet_ntop6 :: "u8 list \<Rightarrow> string"
  getprotobynumber :: "u8 \<Rightarrow> string option"

definition byte_at :: "u8 list \<Rightarrow> nat \<Rightarrow> u8 top_io" where
  "byte_at p i = (if i < length p then ret (p ! i) else stop (Fault OutOfBounds))"

definition bytes_at :: "u8 list \<Rightarrow> nat \<Rightarrow> nat \<Rightarrow> u8 list top_io" where
  "bytes_at p i n = (if i + n \<le> length p then ret (take n (drop i p)) else stop (Fault OutOfBounds))"

text \<open>\<open>ntohs\<close> of a field of two bytes.\<close>

definition ntohs_at :: "u8 list \<Rightarrow> nat \<Rightarrow> 16 word top_io" where
  "ntohs_at p i = bind_io (byte_at p i) (\<lambda>a. bind_io (byte_at p (i + 1)) (\<lambda>b. ret (word_cat a b)))"

definition MAX_PROTO_LEN :: nat where "MAX_PROTO_LEN = 100"

definition proto_name :: "net_lib \<Rightarrow> u8 \<Rightarrow> string" where
  "proto_name lib n =
     (case getprotobynumber lib n of
        Some s \<Rightarrow> take (MAX_PROTO_LEN - 1) s
      | None \<Rightarrow> ''Unknown ('' @ show_nat (unat n) @ '')'')"

text \<open>The addresses, ports and protocol of an IPv4 datagram that starts at \<open>off\<close>.\<close>

definition read_ports :: "u8 list \<Rightarrow> nat \<Rightarrow> (16 word \<times> 16 word) top_io" where
  "read_ports p off =
     bind_io (ntohs_at p off) (\<lambda>s. bind_io (ntohs_at p (off + 2)) (\<lambda>d. ret (s, d)))"

definition read_ipv4 ::
  "net_lib \<Rightarrow> u8 list \<Rightarrow> nat \<Rightarrow> (string \<times> string \<times> 16 word \<times> 16 word \<times> string) top_io" where
  "read_ipv4 lib p off =
     bind_io (byte_at p off) (\<lambda>b0.
     bind_io (bytes_at p (off + 12) 4) (\<lambda>src.
     bind_io (bytes_at p (off + 16) 4) (\<lambda>dst.
     bind_io (byte_at p (off + 9)) (\<lambda>proto.
       let hl = unat (b0 AND 0x0F) * 4; s = inet_ntop4 lib src; d = inet_ntop4 lib dst in
       if proto = 6 then
         bind_io (read_ports p (off + hl)) (\<lambda>(x, y). ret (s, d, x, y, ''tcp''))
       else if proto = 17 then
         bind_io (read_ports p (off + hl)) (\<lambda>(x, y). ret (s, d, x, y, ''udp''))
       else if proto = 1 then ret (s, d, 0, 0, ''icmp'')
       else ret (s, d, 0, 0, proto_name lib proto)))))"

definition read_ipv6 ::
  "net_lib \<Rightarrow> u8 list \<Rightarrow> nat \<Rightarrow> (string \<times> string \<times> 16 word \<times> 16 word \<times> string) top_io" where
  "read_ipv6 lib p off =
     bind_io (bytes_at p (off + 8) 16) (\<lambda>src.
     bind_io (bytes_at p (off + 24) 16) (\<lambda>dst.
     bind_io (byte_at p (off + 6)) (\<lambda>next_header.
       let s = inet_ntop6 lib src; d = inet_ntop6 lib dst in
       if next_header = 6 then
         bind_io (read_ports p (off + 40)) (\<lambda>(x, y). ret (s, d, x, y, ''tcp''))
       else if next_header = 17 then
         bind_io (read_ports p (off + 40)) (\<lambda>(x, y). ret (s, d, x, y, ''udp''))
       else if next_header = 58 then ret (s, d, 0, 0, ''icmpv6'')
       else ret (s, d, 0, 0, proto_name lib next_header))))"

definition ETH_P_IP :: "16 word" where "ETH_P_IP = 0x0800"
definition ETHERTYPE_IPV6 :: "16 word" where "ETHERTYPE_IPV6 = 0x86DD"
definition ETHERNET_HEADER_LENGTH :: nat where "ETHERNET_HEADER_LENGTH = 14"

definition read_frame ::
  "net_lib \<Rightarrow> u8 list \<Rightarrow> (string \<times> string \<times> 16 word \<times> 16 word \<times> string) option top_io" where
  "read_frame lib p =
     bind_io (ntohs_at p 12) (\<lambda>ether_type.
       if ether_type = ETH_P_IP
       then bind_io (read_ipv4 lib p ETHERNET_HEADER_LENGTH) (\<lambda>r. ret (Some r))
       else if ether_type = ETHERTYPE_IPV6
       then bind_io (read_ipv6 lib p ETHERNET_HEADER_LENGTH) (\<lambda>r. ret (Some r))
       else ret None)"

section \<open>The handler\<close>

text \<open>
  \<open>len\<close> is the length in the header of the capture, an \<open>unsigned int\<close> that the handler keeps in
  an \<open>int\<close>; \<open>g1\<close> and \<open>g2\<close> are the ports that \<open>init_communication\<close> leaves uninitialised.
\<close>

definition make_communication ::
  "16 word \<Rightarrow> 16 word \<Rightarrow> 32 word \<Rightarrow> string \<times> string \<times> 16 word \<times> 16 word \<times> string \<Rightarrow>
   CommunicationInfo" where
  "make_communication g1 g2 len r =
     (case r of (s, d, sp, dp, proto) \<Rightarrow>
       (init_communication g1 g2)\<lparr>src_ip := s, dst_ip := d, protocol := proto,
         src_port := sp, dst_port := dp, Rx := 0, Tx := sint len, packets_sent_Tx := 1\<rparr>)"

definition packet_handler ::
  "nat \<Rightarrow> CLIArguments \<Rightarrow> net_lib \<Rightarrow> 16 word \<Rightarrow> 16 word \<Rightarrow> 32 word \<Rightarrow> u8 list \<Rightarrow> llist \<Rightarrow>
   llist top_io option" where
  "packet_handler fuel a lib g1 g2 len p l =
     bind_fuel (read_frame lib p) (\<lambda>r.
       case r of
         None \<Rightarrow> Some (ret l)
       | Some info \<Rightarrow>
           bind_fuel (emit Lock) (\<lambda>_.
             map_option (\<lambda>run. bind_io run (\<lambda>l'. bind_io (emit Unlock) (\<lambda>_. ret l')))
               (insert_communication fuel a (make_communication g1 g2 len info) l)))"

text \<open>The packets that \<open>pcap_loop\<close> hands to the handler, one after the other.\<close>

primrec pcap_loop ::
  "nat \<Rightarrow> CLIArguments \<Rightarrow> net_lib \<Rightarrow> 16 word \<Rightarrow> 16 word \<Rightarrow> (32 word \<times> u8 list) list \<Rightarrow> llist \<Rightarrow>
   llist top_io option" where
  "pcap_loop fuel a lib g1 g2 [] l = Some (ret l)"
| "pcap_loop fuel a lib g1 g2 (pkt # pkts) l =
     (case packet_handler fuel a lib g1 g2 (fst pkt) (snd pkt) l of
        None \<Rightarrow> None
      | Some run \<Rightarrow> bind_fuel run (pcap_loop fuel a lib g1 g2 pkts))"

record pcap_lib =
  lookupnet :: "string option \<Rightarrow> bool"
  open_live :: "string option \<Rightarrow> bool"
  datalink_ethernet :: bool
  compile_ok :: "string \<Rightarrow> bool"
  setfilter_ok :: bool
  captured :: "(32 word \<times> u8 list) list"

definition capture_packets ::
  "nat \<Rightarrow> CLIArguments \<Rightarrow> net_lib \<Rightarrow> pcap_lib \<Rightarrow> 16 word \<Rightarrow> 16 word \<Rightarrow> llist \<Rightarrow> llist top_io option" where
  "capture_packets fuel a lib pc g1 g2 l =
     (if \<not> lookupnet pc (interface a)
      then Some (throw_error False ''interface does not exist'' ERR_PACKET_CAPTURE)
      else if \<not> open_live pc (interface a)
      then Some (throw_error False ''openning packet capture failed'' ERR_PACKET_CAPTURE)
      else bind_fuel (emit (Handle ''SIGINT'')) (\<lambda>_. bind_fuel (emit (Handle ''SIGTERM'')) (\<lambda>_.
           bind_fuel (emit (Handle ''SIGQUIT'')) (\<lambda>_.
             if \<not> datalink_ethernet pc
             then Some (throw_error True ''interface does not provide ethernet headers'' ERR_PACKET_CAPTURE)
             else if \<not> compile_ok pc ''ip or ip6''
             then Some (throw_error True ''entered filter is wrong'' ERR_PACKET_CAPTURE)
             else if \<not> setfilter_ok pc
             then Some (throw_error True ''setting filter failed'' ERR_PACKET_CAPTURE)
             else map_option (\<lambda>run. bind_io run (\<lambda>l'. bind_io (emit PcapClose) (\<lambda>_. ret l')))
               (pcap_loop fuel a lib g1 g2 (captured pc) l)))))"

end
