(* ===== verification/Top_Capture.thy ===== *)
theory Top_Capture
  imports Top_Packets
begin

text \<open>
  Lemmas about the capturing thread: what the handler reads from a well formed frame, where a
  frame that was cut short makes it read past the capture, and what the loop leaves in the list.
\<close>

section \<open>Frames\<close>

definition be16 :: "16 word \<Rightarrow> u8 list" where
  "be16 w = [ucast (drop_bit 8 w), ucast w]"

lemma word_cat_be16: "word_cat (ucast (drop_bit 8 w) :: u8) (ucast w :: u8) = (w :: 16 word)"
  by (rule bit_word_eqI) (auto simp: bit_word_cat_iff bit_simps)

lemma length_be16 [simp]: "length (be16 w) = 2" by (simp add: be16_def)

lemma bytes_at_append:
  "bytes_at (xs @ ys) i n =
     (if length xs \<le> i then bytes_at ys (i - length xs) n
      else if i + n \<le> length xs then ret (take n (drop i xs)) else bytes_at (xs @ ys) i n)"
  by (auto simp: bytes_at_def)

lemma ntohs_be16:
  assumes "length xs = i"
  shows "ntohs_at (xs @ be16 w @ zs) i = ret w"
proof -
  have "byte_at (xs @ be16 w @ zs) i = ret (ucast (drop_bit 8 w))"
    "byte_at (xs @ be16 w @ zs) (i + 1) = ret (ucast w)"
    using assms by (simp_all add: byte_at_def be16_def nth_append)
  then show ?thesis by (simp add: ntohs_at_def word_cat_be16)
qed

lemma bytes_at_mid: "length xs = i \<Longrightarrow> length ys = n \<Longrightarrow> bytes_at (xs @ ys @ zs) i n = ret ys"
  by (simp add: bytes_at_def)

lemma byte_at_mid: "length xs = i \<Longrightarrow> byte_at (xs @ y # zs) i = ret y"
  by (simp add: byte_at_def nth_append)

lemma read_ports_mid:
  assumes "length xs = i"
  shows "read_ports (xs @ be16 s @ be16 d @ zs) i = ret (s, d)"
  using ntohs_be16 [OF assms, of s "be16 d @ zs"] ntohs_be16 [of "xs @ be16 s" "i + 2" d zs] assms
  by (simp add: read_ports_def)

text \<open>
  An Ethernet frame with an IPv4 datagram: the two hardware addresses, the version and the number
  of words of the header, eight bytes the handler skips, the protocol, the checksum, the
  addresses, options, and what follows.
\<close>

definition frame4 ::
  "u8 list \<Rightarrow> u8 \<Rightarrow> u8 list \<Rightarrow> u8 \<Rightarrow> u8 list \<Rightarrow> u8 list \<Rightarrow> u8 list \<Rightarrow> u8 list \<Rightarrow> u8 list \<Rightarrow> u8 list" where
  "frame4 macs vhl h proto ck src dst opts data =
     macs @ be16 0x0800 @ vhl # h @ proto # ck @ src @ dst @ opts @ data"

definition ok4 ::
  "u8 list \<Rightarrow> u8 \<Rightarrow> u8 list \<Rightarrow> u8 list \<Rightarrow> u8 list \<Rightarrow> u8 list \<Rightarrow> u8 list \<Rightarrow> bool" where
  "ok4 macs vhl h ck src dst opts \<longleftrightarrow>
     length macs = 12 \<and> length h = 8 \<and> length ck = 2 \<and> length src = 4 \<and> length dst = 4 \<and>
     unat (vhl AND 0x0F) * 4 = 20 + length opts"

definition frame6 ::
  "u8 list \<Rightarrow> u8 list \<Rightarrow> u8 \<Rightarrow> u8 \<Rightarrow> u8 list \<Rightarrow> u8 list \<Rightarrow> u8 list \<Rightarrow> u8 list" where
  "frame6 macs h nxt hop src dst data =
     macs @ be16 0x86DD @ h @ nxt # hop # src @ dst @ data"

definition ok6 :: "u8 list \<Rightarrow> u8 list \<Rightarrow> u8 list \<Rightarrow> u8 list \<Rightarrow> bool" where
  "ok6 macs h src dst \<longleftrightarrow> length macs = 12 \<and> length h = 6 \<and> length src = 16 \<and> length dst = 16"

text \<open>What the handler makes of the protocol and of the bytes behind the IP header.\<close>

definition transport_name :: "net_lib \<Rightarrow> u8 \<Rightarrow> u8 \<Rightarrow> string \<Rightarrow> string" where
  "transport_name lib icmp proto name =
     (if proto = 6 then ''tcp'' else if proto = 17 then ''udp'' else if proto = icmp then name
      else proto_name lib proto)"

lemma read_frame4:
  assumes "ok4 macs vhl h ck src dst opts"
    and "proto = 6 \<or> proto = 17 \<Longrightarrow> data = be16 sp @ be16 dp @ rest"
    and "proto \<noteq> 6 \<and> proto \<noteq> 17 \<Longrightarrow> sp = 0 \<and> dp = 0"
  shows "read_frame lib (frame4 macs vhl h proto ck src dst opts data) =
    ret (Some (inet_ntop4 lib src, inet_ntop4 lib dst, sp, dp, transport_name lib 1 proto ''icmp''))"
proof -
  let ?f = "frame4 macs vhl h proto ck src dst opts data"
  note len = assms(1) [unfolded ok4_def]
  have 1: "ntohs_at ?f 12 = ret ETH_P_IP"
    using len ntohs_be16 [of macs 12 "0x0800"] by (simp add: frame4_def ETH_P_IP_def)
  have 2: "byte_at ?f 14 = ret vhl"
    using len byte_at_mid [of "macs @ be16 0x0800" 14] by (simp add: frame4_def)
  have 3: "byte_at ?f 23 = ret proto"
    using len byte_at_mid [of "macs @ be16 0x0800 @ vhl # h" 23] by (simp add: frame4_def)
  have 4: "bytes_at ?f 26 4 = ret src"
    using len bytes_at_mid [of "macs @ be16 0x0800 @ vhl # h @ proto # ck" 26 src 4] by (simp add: frame4_def)
  have 5: "bytes_at ?f 30 4 = ret dst"
    using len bytes_at_mid [of "macs @ be16 0x0800 @ vhl # h @ proto # ck @ src" 30 dst 4]
    by (simp add: frame4_def)
  have 6: "read_ports ?f (14 + (20 + length opts)) = ret (sp, dp)" if "proto = 6 \<or> proto = 17"
    using len assms(2) [OF that]
      read_ports_mid [of "macs @ be16 0x0800 @ vhl # h @ proto # ck @ src @ dst @ opts"
        "14 + (20 + length opts)" sp dp rest]
    by (simp add: frame4_def)
  from 2 3 4 5 6 assms(3) len have
    "read_ipv4 lib ?f 14 = ret (inet_ntop4 lib src, inet_ntop4 lib dst, sp, dp, transport_name lib 1 proto ''icmp'')"
    by (auto simp: read_ipv4_def transport_name_def Let_def)
  with 1 show ?thesis by (simp add: read_frame_def ETHERNET_HEADER_LENGTH_def)
qed

lemma read_frame6:
  assumes "ok6 macs h src dst"
    and "nxt = 6 \<or> nxt = 17 \<Longrightarrow> data = be16 sp @ be16 dp @ rest"
    and "nxt \<noteq> 6 \<and> nxt \<noteq> 17 \<Longrightarrow> sp = 0 \<and> dp = 0"
  shows "read_frame lib (frame6 macs h nxt hop src dst data) =
    ret (Some (inet_ntop6 lib src, inet_ntop6 lib dst, sp, dp, transport_name lib 58 nxt ''icmpv6''))"
proof -
  let ?f = "frame6 macs h nxt hop src dst data"
  note len = assms(1) [unfolded ok6_def]
  have 1: "ntohs_at ?f 12 = ret ETHERTYPE_IPV6"
    using len ntohs_be16 [of macs 12 "0x86DD"] by (simp add: frame6_def ETHERTYPE_IPV6_def)
  have 2: "byte_at ?f 20 = ret nxt"
    using len byte_at_mid [of "macs @ be16 0x86DD @ h" 20] by (simp add: frame6_def)
  have 3: "bytes_at ?f 22 16 = ret src"
    using len bytes_at_mid [of "macs @ be16 0x86DD @ h @ [nxt, hop]" 22 src 16] by (simp add: frame6_def)
  have 4: "bytes_at ?f 38 16 = ret dst"
    using len bytes_at_mid [of "macs @ be16 0x86DD @ h @ [nxt, hop] @ src" 38 dst 16]
    by (simp add: frame6_def)
  have 5: "read_ports ?f 54 = ret (sp, dp)" if "nxt = 6 \<or> nxt = 17"
    using len assms(2) [OF that]
      read_ports_mid [of "macs @ be16 0x86DD @ h @ nxt # hop # src @ dst" 54 sp dp rest]
    by (simp add: frame6_def)
  from 2 3 4 5 assms(3) have
    "read_ipv6 lib ?f 14 = ret (inet_ntop6 lib src, inet_ntop6 lib dst, sp, dp, transport_name lib 58 nxt ''icmpv6'')"
    by (auto simp: read_ipv6_def transport_name_def Let_def)
  moreover have "ETHERTYPE_IPV6 \<noteq> ETH_P_IP" by (simp add: ETHERTYPE_IPV6_def ETH_P_IP_def)
  ultimately show ?thesis using 1 by (simp add: read_frame_def ETHERNET_HEADER_LENGTH_def)
qed

section \<open>Frames cut short\<close>

lemma byte_at_take: "byte_at (take n p) i = (if i < n then byte_at p i else stop (Fault OutOfBounds))"
  by (simp add: byte_at_def)

lemma bytes_at_take:
  "0 < k \<Longrightarrow> bytes_at (take n p) i k = (if i + k \<le> n then bytes_at p i k else stop (Fault OutOfBounds))"
  by (simp add: bytes_at_def take_drop min_def)

lemma ntohs_at_take:
  "ntohs_at (take n p) i = (if i + 1 < n then ntohs_at p i else stop (Fault OutOfBounds))"
  by (auto simp: ntohs_at_def byte_at_take byte_at_def)

lemma read_ports_take:
  "read_ports (take n p) i = (if i + 3 < n then read_ports p i else stop (Fault OutOfBounds))"
  by (auto simp: read_ports_def ntohs_at_take ntohs_at_def byte_at_def)

lemma short_frame:
  assumes "n < 14"
  shows "read_frame lib (take n p) = stop (Fault OutOfBounds)"
  using assms by (simp add: read_frame_def ntohs_at_take)

text \<open>A segment of TCP or UDP over IPv4 that was captured only up to a byte before its ports end.\<close>

lemma cut_frame4:
  assumes ok: "ok4 macs vhl h ck src dst opts" and proto: "proto = 6 \<or> proto = 17"
    and n: "n < 14 + unat (vhl AND 0x0F) * 4 + 4"
  shows "read_frame lib (take n (frame4 macs vhl h proto ck src dst opts (be16 sp @ be16 dp @ rest))) =
    stop (Fault OutOfBounds)"
proof -
  let ?f = "frame4 macs vhl h proto ck src dst opts (be16 sp @ be16 dp @ rest)"
  note len = ok [unfolded ok4_def]
  have 1: "ntohs_at ?f 12 = ret ETH_P_IP"
    using len ntohs_be16 [of macs 12 "0x0800"] by (simp add: frame4_def ETH_P_IP_def)
  have 2: "byte_at ?f 14 = ret vhl"
    using len byte_at_mid [of "macs @ be16 0x0800" 14] by (simp add: frame4_def)
  have 3: "byte_at ?f 23 = ret proto"
    using len byte_at_mid [of "macs @ be16 0x0800 @ vhl # h" 23] by (simp add: frame4_def)
  have 4: "bytes_at ?f 26 4 = ret src"
    using len bytes_at_mid [of "macs @ be16 0x0800 @ vhl # h @ proto # ck" 26 src 4] by (simp add: frame4_def)
  have 5: "bytes_at ?f 30 4 = ret dst"
    using len bytes_at_mid [of "macs @ be16 0x0800 @ vhl # h @ proto # ck @ src" 30 dst 4]
    by (simp add: frame4_def)
  have "read_ipv4 lib (take n ?f) 14 = stop (Fault OutOfBounds)"
    using 2 3 4 5 proto n
    by (auto simp: read_ipv4_def byte_at_take bytes_at_take read_ports_take Let_def)
  with 1 show ?thesis by (simp add: read_frame_def ETHERNET_HEADER_LENGTH_def ntohs_at_take)
qed

section \<open>The loop\<close>

text \<open>The communications of the captured packets: frames that are not IP are skipped.\<close>

definition readable :: "net_lib \<Rightarrow> 32 word \<times> u8 list \<Rightarrow> bool" where
  "readable lib pkt \<longleftrightarrow> (\<exists>r. read_frame lib (snd pkt) = ret r)"

primrec communications ::
  "net_lib \<Rightarrow> 16 word \<Rightarrow> 16 word \<Rightarrow> (32 word \<times> u8 list) list \<Rightarrow> CommunicationInfo list" where
  "communications lib g1 g2 [] = []"
| "communications lib g1 g2 (pkt # pkts) =
     (case fst (read_frame lib (snd pkt)) of
        Inr (Some info) \<Rightarrow> make_communication g1 g2 (fst pkt) info # communications lib g1 g2 pkts
      | _ \<Rightarrow> communications lib g1 g2 pkts)"

lemma length_insert_spec: "length (insert_spec a c [] cs) \<le> Suc (length cs)"
proof -
  have "length (insert_spec a c [] cs) = size (mset (insert_spec a c [] cs))" by simp
  also have "\<dots> \<le> Suc (length cs)"
    using flows.ins_cases [of cs c a]
  proof (elim disjE exE conjE)
    fix d M
    assume m: "mset cs = add_mset d M" "mset (insert_spec a c [] cs) = add_mset (add_communications d c) M"
    have "length cs = Suc (size M)" using arg_cong [OF m(1), of size] by simp
    with m(2) show ?thesis by simp
  qed simp
  finally show ?thesis .
qed

lemma packet_handler_run:
  assumes "read_frame lib p = ret r" and "rep l ps cs" and "length ps < n" and "interval a \<noteq> 0"
  shows "\<exists>l' ps' w. packet_handler n a lib g1 g2 len p l = Some (Inr l', w) \<and>
    rep l' ps' (case r of None \<Rightarrow> cs | Some info \<Rightarrow> insert_spec a (make_communication g1 g2 len info) [] cs)"
proof (cases r)
  case None
  with assms have "packet_handler n a lib g1 g2 len p l = Some (Inr l, [])"
    by (simp add: packet_handler_def)
  with assms(2) None show ?thesis by auto
next
  case (Some info)
  from insert_refines [OF assms(2-4), of "make_communication g1 g2 len info"] obtain l' ps' where
    "insert_communication n a (make_communication g1 g2 len info) l = Some (ret l')"
    "rep l' ps' (insert_spec a (make_communication g1 g2 len info) [] cs)"
    by blast
  moreover from this(1) assms(1) Some
  have "packet_handler n a lib g1 g2 len p l = Some (Inr l', [Lock, Unlock])"
    by (simp add: packet_handler_def) (simp add: ret_def emit_def bind_fuel_ok bind_pair)
  ultimately show ?thesis using Some by auto
qed

theorem pcap_loop_refines:
  assumes "rep l ps cs" and "length ps + length pkts \<le> n" and "interval a \<noteq> 0"
    and "\<forall>pkt\<in>set pkts. readable lib pkt"
  shows "\<exists>l' ps' w. pcap_loop n a lib g1 g2 pkts l = Some (Inr l', w) \<and>
    rep l' ps' (fold (\<lambda>c. insert_spec a c []) (communications lib g1 g2 pkts) cs)"
  using assms
proof (induction pkts arbitrary: l ps cs)
  case Nil
  then show ?case by (auto simp: ret_def)
next
  case (Cons pkt pkts)
  from Cons.prems(4) obtain r where r: "read_frame lib (snd pkt) = ret r" by (auto simp: readable_def)
  let ?cs = "case r of None \<Rightarrow> cs | Some info \<Rightarrow> insert_spec a (make_communication g1 g2 (fst pkt) info) [] cs"
  from packet_handler_run [OF r Cons.prems(1) _ Cons.prems(3), of n g1 g2 "fst pkt"] Cons.prems(2)
  obtain l1 ps1 w1 where
    1: "packet_handler n a lib g1 g2 (fst pkt) (snd pkt) l = Some (Inr l1, w1)" "rep l1 ps1 ?cs"
    by auto
  have "length ?cs \<le> Suc (length cs)" by (simp add: length_insert_spec split: option.splits)
  then have "length ps1 + length pkts \<le> n"
    using rep_length [OF 1(2)] rep_length [OF Cons.prems(1)] Cons.prems(2) by simp
  with Cons.IH [OF 1(2)] Cons.prems(3,4) obtain l2 ps2 w2 where
    "pcap_loop n a lib g1 g2 pkts l1 = Some (Inr l2, w2)"
    "rep l2 ps2 (fold (\<lambda>c. insert_spec a c []) (communications lib g1 g2 pkts) ?cs)"
    by auto
  moreover from this(1) 1(1) have "pcap_loop n a lib g1 g2 (pkt # pkts) l = Some (Inr l2, w1 @ w2)"
    by (simp add: bind_fuel_ok)
  moreover have "fold (\<lambda>c. insert_spec a c []) (communications lib g1 g2 pkts) ?cs =
      fold (\<lambda>c. insert_spec a c []) (communications lib g1 g2 (pkt # pkts)) cs"
    using r by (cases r) (simp_all add: ret_def)
  ultimately show ?case by auto
qed

lemma rep_empty: "lhead l = None \<Longrightarrow> rep l [] []"
  by (simp add: rep_def chained_def)

lemma communications_packets:
  assumes "\<forall>pkt\<in>set pkts. 0 \<le> sint (fst pkt)"
  shows "\<forall>c\<in>set (communications lib g1 g2 pkts). is_packet c"
  using assms
  by (induction pkts)
    (auto simp: is_packet_def make_communication_def init_communication_def split: sum.splits option.splits)

text \<open>The whole capture, from the empty list.\<close>

lemma capture_table:
  assumes "lhead l = None" and "length pkts \<le> n" and "interval a \<noteq> 0"
    and "\<forall>pkt\<in>set pkts. readable lib pkt"
  shows "\<exists>l' ps w. pcap_loop n a lib g1 g2 pkts l = Some (Inr l', w) \<and>
    rep l' ps (table a (communications lib g1 g2 pkts))"
  using pcap_loop_refines [OF rep_empty [OF assms(1)] _ assms(3,4), of n g1 g2] assms(2)
  by (simp add: table_def)

end
