(* ===== verification/Top_Display.thy ===== *)
theory Top_Display
  imports Top_Capture
begin

text \<open>
  What is shown: the printing half of \<open>linked_list.c\<close> and the thread \<open>display_stats\<close> of
  \<open>stats.c\<close>. Calls of the curses library are events. The text of a quotient of doubles
  (\<open>%.1f\<close> of \<open>bits / unit / interval\<close>) is a parameter \<open>fp\<close>; which unit is taken is the code's.
\<close>

section \<open>Text\<close>

type_synonym rate_text = "int \<Rightarrow> int \<Rightarrow> int \<Rightarrow> string"

definition bytes_conversion :: "rate_text \<Rightarrow> CLIArguments \<Rightarrow> int \<Rightarrow> string" where
  "bytes_conversion fp a bytes =
     (let bits = bytes * 8; Kb = 1024; Mb = 1024 * Kb; Gb = 1024 * Mb in
      if Gb \<le> bits then take 99 (fp bits Gb (interval a) @ '' G'')
      else if Mb \<le> bits then take 99 (fp bits Mb (interval a) @ '' M'')
      else if Kb \<le> bits then take 99 (fp bits Kb (interval a) @ '' K'')
      else take 99 (fp bits 1 1))"

definition print_node_data :: "rate_text \<Rightarrow> CLIArguments \<Rightarrow> llist \<Rightarrow> nat option \<Rightarrow> unit top_io" where
  "print_node_data fp a l p =
     (if p = None then emit (Out (''Node or node data is NULL'' @ [CHR 0x0A]))
      else bind_io (deref l p) (\<lambda>nd.
        case ldata nd of
          None \<Rightarrow> emit (Out (''Node or node data is NULL'' @ [CHR 0x0A]))
        | Some c \<Rightarrow>
            emit (Out (src_ip c @ '':'' @ show_nat (unat (src_port c)) @ '' -> '' @ dst_ip c @ '':'' @
              show_nat (unat (dst_port c)) @ '', total: '' @ bytes_conversion fp a (Rx c + Tx c) @
              [CHR 0x0A]))))"

definition format_ip_port :: "nat \<Rightarrow> string \<Rightarrow> 16 word \<Rightarrow> string" where
  "format_ip_port bufsize ip port =
     (if bufsize < length ip + 7
      then take (bufsize - 1) (take (bufsize - 7) ip @ '':'' @ zero_fill 5 (show_nat (unat port)))
      else take (bufsize - 1) (ip @ '':'' @ show_nat (unat port)))"

section \<open>The screen\<close>

definition emits :: "top_event list \<Rightarrow> unit top_io" where
  "emits es = (Inr (), es)"

type_synonym totals = "int \<times> int \<times> int \<times> int"

definition cell :: "nat \<Rightarrow> string \<Rightarrow> string" where
  "cell n s = pad_right n (take n s)"

definition row_events :: "rate_text \<Rightarrow> CLIArguments \<Rightarrow> int \<Rightarrow> CommunicationInfo \<Rightarrow> top_event list" where
  "row_events fp a row c =
     [MvPrint row 2 (cell 23 (format_ip_port 24 (src_ip c) (src_port c))),
      MvPrint row 26 (cell 23 (format_ip_port 24 (dst_ip c) (dst_port c))),
      MvPrint row 50 (cell 6 (protocol c)),
      MvPrint row 57 (pad_right 8 (bytes_conversion fp a (Rx c))),
      MvPrint row 66 (pad_right 8 (bytes_conversion fp a (Tx c))),
      MvPrint row 75 (pad_right 8 (show_int (packets_sent_Rx c))),
      MvPrint row 84 (pad_right 8 (show_int (packets_sent_Tx c)))]"

definition add_row :: "CommunicationInfo \<Rightarrow> totals \<Rightarrow> totals" where
  "add_row c t =
     (case t of (prx, ptx, rx, tx) \<Rightarrow>
       (prx + packets_sent_Rx c, ptx + packets_sent_Tx c, rx + Rx c, tx + Tx c))"

primrec draw_loop ::
  "nat \<Rightarrow> rate_text \<Rightarrow> CLIArguments \<Rightarrow> llist \<Rightarrow> int \<Rightarrow> nat option \<Rightarrow> int \<Rightarrow> int \<Rightarrow> totals \<Rightarrow>
   totals top_io option" where
  "draw_loop 0 fp a l max_y cur row cnt t = None"
| "draw_loop (Suc n) fp a l max_y cur row cnt t =
     (if cur \<noteq> None \<and> 0 < cnt \<and> row < max_y - 4
      then bind_fuel (deref l cur) (\<lambda>nd.
        case ldata nd of
          None \<Rightarrow> draw_loop n fp a l max_y (lnext nd) row cnt t
        | Some c \<Rightarrow>
            bind_fuel (emits (row_events fp a row c)) (\<lambda>_.
              draw_loop n fp a l max_y (lnext nd) (row + 1) (cnt - 1) (add_row c t)))
      else Some (ret t))"

definition totals_line :: "rate_text \<Rightarrow> CLIArguments \<Rightarrow> string \<Rightarrow> int \<Rightarrow> int \<Rightarrow> string" where
  "totals_line fp a name bytes packets =
     ''Total '' @ name @ '': '' @ bytes_conversion fp a bytes @ '' ('' @ show_int packets @ '' p)''"

definition print_totals :: "rate_text \<Rightarrow> CLIArguments \<Rightarrow> int \<Rightarrow> totals \<Rightarrow> unit top_io" where
  "print_totals fp a max_y t =
     (case t of (prx, ptx, rx, tx) \<Rightarrow>
       if cumulative a \<noteq> 0
       then emits [MvPrint (max_y - 3) 2 (totals_line fp a ''Rx'' rx prx),
                   MvPrint (max_y - 2) 2 (totals_line fp a ''Tx'' tx ptx)]
       else bind_io (cdiv prx (interval a)) (\<lambda>qrx.
            bind_io (emit (MvPrint (max_y - 3) 2 (totals_line fp a ''Rx'' rx qrx))) (\<lambda>_.
            bind_io (cdiv ptx (interval a)) (\<lambda>qtx.
            emit (MvPrint (max_y - 2) 2 (totals_line fp a ''Tx'' tx qtx))))))"

definition header_events :: "int \<Rightarrow> int \<Rightarrow> top_event list" where
  "header_events mid max_x =
     [Clear, Box, ColorOn, MvPrint 1 mid ''isa-top : xpavlim00'',
      MvPrint 3 2 ''Source IP:Port'', MvPrint 3 26 ''Dest IP:Port'', MvPrint 3 50 ''Proto'',
      MvPrint 3 57 ''Rx b/s'', MvPrint 3 66 ''Tx b/s'', MvPrint 3 75 ''Rx p/s'',
      MvPrint 3 84 ''Tx p/s'', HLine 4 1 (max_x - 2)]"

definition print_llist ::
  "nat \<Rightarrow> rate_text \<Rightarrow> CLIArguments \<Rightarrow> int \<times> int \<Rightarrow> int \<Rightarrow> llist \<Rightarrow> unit top_io option" where
  "print_llist fuel fp a screen cnt l =
     (case screen of (max_y, max_x) \<Rightarrow>
       bind_fuel (cdiv (max_x - 16) 2) (\<lambda>mid.
       bind_fuel (emits (header_events mid max_x)) (\<lambda>_.
         map_option (\<lambda>run.
           bind_io run (\<lambda>t.
           bind_io (emit (HLine (max_y - 4) 1 (max_x - 2))) (\<lambda>_.
           bind_io (print_totals fp a max_y t) (\<lambda>_.
           emits [MvPrint (max_y - 2) (max_x - 26) ''Press 'Ctrl + C' to quit'', ColorOff, Refresh]))))
           (draw_loop fuel fp a l max_y (lhead l) 5 cnt (0, 0, 0, 0)))))"

section \<open>The displaying thread\<close>

definition MAX_DISPLAY_ROWS :: int where "MAX_DISPLAY_ROWS = 10"

text \<open>One turn of the endless loop; the list is reset after the mutex was given back.\<close>

definition display_round ::
  "nat \<Rightarrow> rate_text \<Rightarrow> CLIArguments \<Rightarrow> int \<times> int \<Rightarrow> llist \<Rightarrow> llist top_io option" where
  "display_round fuel fp a screen l =
     bind_fuel (emit Lock) (\<lambda>_.
       map_option (\<lambda>run. bind_io run (\<lambda>_. bind_io (emit Unlock) (\<lambda>_.
         let l' = if cumulative a = 0 then init_llist l else l in
         bind_io (emit (Sleep (interval a))) (\<lambda>_. ret l'))))
         (print_llist fuel fp a screen MAX_DISPLAY_ROWS l))"

text \<open>
  The two threads, as far as the mutex orders them: the capturing thread handles packets, the
  displaying thread makes a turn.
\<close>

datatype activity = Captured "(32 word \<times> u8 list) list" | Displayed "int \<times> int"

primrec top_session ::
  "nat \<Rightarrow> rate_text \<Rightarrow> CLIArguments \<Rightarrow> net_lib \<Rightarrow> 16 word \<Rightarrow> 16 word \<Rightarrow> activity list \<Rightarrow> llist \<Rightarrow>
   llist top_io option" where
  "top_session fuel fp a lib g1 g2 [] l = Some (ret l)"
| "top_session fuel fp a lib g1 g2 (x # xs) l =
     (case (case x of Captured pkts \<Rightarrow> pcap_loop fuel a lib g1 g2 pkts l
            | Displayed screen \<Rightarrow> display_round fuel fp a screen l) of
        None \<Rightarrow> None
      | Some run \<Rightarrow> bind_fuel run (top_session fuel fp a lib g1 g2 xs))"

section \<open>What is on the screen\<close>

lemma zero_fill_length [simp]: "length (zero_fill n s) = max n (length s)"
  by (simp add: zero_fill_def)

lemma length_port: "length (show_nat (unat (port :: 16 word))) \<le> 5"
  using unsigned_less [of port] by (intro length_show_nat) (auto intro: less_trans)

text \<open>The text of an address and port always fits, and always ends in the whole port.\<close>

lemma format_ip_port_fits:
  assumes "7 \<le> bufsize"
  obtains pre k where "format_ip_port bufsize ip port = pre @ CHR '':'' # zero_fill k (show_nat (unat port))"
    and "length (format_ip_port bufsize ip port) < bufsize" and "k = 5 \<or> k = 0 \<and> pre = ip"
proof (cases "bufsize < length ip + 7")
  case True
  then have "format_ip_port bufsize ip port = take (bufsize - 7) ip @ CHR '':'' # zero_fill 5 (show_nat (unat port))"
    using assms length_port [of port] by (simp add: format_ip_port_def)
  with that [of "take (bufsize - 7) ip" 5] True assms length_port [of port] show ?thesis by simp
next
  case False
  then have "format_ip_port bufsize ip port = ip @ CHR '':'' # zero_fill 0 (show_nat (unat port))"
    using assms length_port [of port] by (simp add: format_ip_port_def zero_fill_def)
  with that [of ip 0] False assms length_port [of port] show ?thesis by simp
qed

primrec rows_events ::
  "rate_text \<Rightarrow> CLIArguments \<Rightarrow> int \<Rightarrow> CommunicationInfo list \<Rightarrow> top_event list" where
  "rows_events fp a row [] = []"
| "rows_events fp a row (c # cs) = row_events fp a row c @ rows_events fp a (row + 1) cs"

definition totals_of :: "CommunicationInfo list \<Rightarrow> totals" where
  "totals_of cs =
     (\<Sum>c\<leftarrow>cs. packets_sent_Rx c, \<Sum>c\<leftarrow>cs. packets_sent_Tx c, \<Sum>c\<leftarrow>cs. Rx c, \<Sum>c\<leftarrow>cs. Tx c)"

lemma fold_add_row:
  "fold add_row cs (prx, ptx, rx, tx) =
     (prx + (\<Sum>c\<leftarrow>cs. packets_sent_Rx c), ptx + (\<Sum>c\<leftarrow>cs. packets_sent_Tx c),
      rx + (\<Sum>c\<leftarrow>cs. Rx c), tx + (\<Sum>c\<leftarrow>cs. Tx c))"
  by (induction cs arbitrary: prx ptx rx tx) (simp_all add: add_row_def)

lemma fold_totals: "fold add_row cs (0, 0, 0, 0) = totals_of cs"
  by (simp add: fold_add_row totals_of_def)

lemma draw_loop_rows:
  assumes "dseg (heap l) f pv ps None e" and "list_all2 (stored l) ps cs" and "length ps < n"
  shows "draw_loop n fp a l max_y f row cnt t =
    (let shown = take (nat (min cnt (max_y - 4 - row))) cs in
     Some (Inr (fold add_row shown t), rows_events fp a row shown))"
  using assms
proof (induction ps arbitrary: f pv cs n row cnt t)
  case Nil
  then show ?case by (cases n) (auto simp: ret_def)
next
  case (Cons p ps)
  from Cons.prems(3) obtain m where n: "n = Suc m" by (cases n) auto
  from Cons.prems(2) obtain d ds where cs: "cs = d # ds" "stored l p d" "list_all2 (stored l) ps ds"
    by (auto simp: list_all2_Cons1)
  from cs(2) obtain nd where nd: "heap l p = Some nd" "ldata nd = Some d" by (rule stored_node)
  show ?case
  proof (cases "0 < cnt \<and> row < max_y - 4")
    case True
    have "dseg (heap l) (lnext nd) (Some p) ps None e" using Cons.prems(1) nd by simp
    from Cons.IH [OF this cs(3), of m "row + 1" "cnt - 1" "add_row d t"] Cons.prems(3) n
    have "draw_loop m fp a l max_y (lnext nd) (row + 1) (cnt - 1) (add_row d t) =
      (let shown = take (nat (min (cnt - 1) (max_y - 4 - (row + 1)))) ds in
       Some (Inr (fold add_row shown (add_row d t)), rows_events fp a (row + 1) shown))"
      by simp
    moreover have "nat (min cnt (max_y - 4 - row)) = Suc (nat (min (cnt - 1) (max_y - 4 - (row + 1))))"
      using True by (auto simp: min_def nat_eq_iff)
    ultimately show ?thesis
      using Cons.prems(1) nd n cs(1) True
      by (simp add: set_ok(4) [OF nd(1)] emits_def bind_fuel_ok Let_def)
  next
    case False
    then have "nat (min cnt (max_y - 4 - row)) = 0" by auto
    with False n show ?thesis by (auto simp: ret_def)
  qed
qed

lemma cdiv_ok: "b \<noteq> 0 \<Longrightarrow> \<exists>q. cdiv a b = ret q"
  by (simp add: cdiv_def)

lemma print_totals_ok: "interval a \<noteq> 0 \<Longrightarrow> \<exists>w. print_totals fp a max_y t = (Inr (), w)"
  by (auto simp: print_totals_def cdiv_def emits_def bind_pair emit_def split: prod.splits)

theorem print_llist_rows:
  fixes max_y max_x cnt cs
  defines "shown \<equiv> take (nat (min cnt (max_y - 9))) cs"
  assumes "rep l ps cs" and "length ps < n" and "interval a \<noteq> 0"
  shows "\<exists>mid. cdiv (max_x - 16) 2 = ret mid \<and> print_llist n fp a (max_y, max_x) cnt l = Some (Inr (),
    header_events mid max_x @ rows_events fp a 5 shown @ HLine (max_y - 4) 1 (max_x - 2) #
    snd (print_totals fp a max_y (totals_of shown)) @
    [MvPrint (max_y - 2) (max_x - 26) ''Press 'Ctrl + C' to quit'', ColorOff, Refresh])"
proof -
  obtain e where "dseg (heap l) (lhead l) None ps None e" using assms(2) by (auto simp: rep_def chained_def)
  from draw_loop_rows [OF this _ assms(3), of cs fp a max_y 5 cnt "(0, 0, 0, 0)"] assms(2)
  have draw: "draw_loop n fp a l max_y (lhead l) 5 cnt (0, 0, 0, 0) =
      Some (Inr (totals_of shown), rows_events fp a 5 shown)"
    by (simp add: rep_def Let_def fold_totals shown_def)
  obtain mid where mid: "cdiv (max_x - 16) 2 = ret mid" using cdiv_ok by fastforce
  obtain w where w: "print_totals fp a max_y (totals_of shown) = (Inr (), w)"
    using print_totals_ok [OF assms(4)] by blast
  show ?thesis
    by (rule exI [of _ mid]) (simp add: print_llist_def mid draw w emits_def bind_fuel_ok bind_pair bind_emit)
qed

section \<open>Sessions\<close>

primrec session_table ::
  "CLIArguments \<Rightarrow> net_lib \<Rightarrow> 16 word \<Rightarrow> 16 word \<Rightarrow> activity list \<Rightarrow> CommunicationInfo list \<Rightarrow>
   CommunicationInfo list" where
  "session_table a lib g1 g2 [] cs = cs"
| "session_table a lib g1 g2 (x # xs) cs =
     session_table a lib g1 g2 xs
       (case x of
          Captured pkts \<Rightarrow> fold (\<lambda>c. insert_spec a c []) (communications lib g1 g2 pkts) cs
        | Displayed _ \<Rightarrow> if cumulative a = 0 then [] else cs)"

fun packets_of :: "activity \<Rightarrow> (32 word \<times> u8 list) list" where
  "packets_of (Captured pkts) = pkts"
| "packets_of (Displayed _) = []"

lemma length_communications: "length (communications lib g1 g2 pkts) \<le> length pkts"
  by (induction pkts) (auto split: sum.splits option.splits)

lemma length_fold_insert: "length (fold (\<lambda>c. insert_spec a c []) xs cs) \<le> length cs + length xs"
proof (induction xs arbitrary: cs)
  case (Cons c xs)
  have "length (fold (\<lambda>c. insert_spec a c []) (c # xs) cs) \<le> length (insert_spec a c [] cs) + length xs"
    using Cons.IH by simp
  with length_insert_spec [of a c cs] show ?case by simp
qed simp

lemma rep_init_llist: "rep (init_llist l) [] []"
  by (rule rep_empty) (simp add: init_llist_def)

lemma display_round_ok:
  assumes "rep l ps cs" and "length ps < n" and "interval a \<noteq> 0"
  shows "\<exists>w. display_round n fp a (max_y, max_x) l =
    Some (Inr (if cumulative a = 0 then init_llist l else l), w)"
  using print_llist_rows [OF assms, where fp = fp and max_y = max_y and max_x = max_x and cnt = MAX_DISPLAY_ROWS]
  by (auto simp: display_round_def emit_def bind_fuel_ok bind_pair ret_def Let_def)

theorem session_refines:
  assumes "rep l ps cs" and "length ps + length (concat (map packets_of xs)) < n" and "interval a \<noteq> 0"
    and "\<forall>pkt\<in>set (concat (map packets_of xs)). readable lib pkt"
  shows "\<exists>l' ps' w. top_session n fp a lib g1 g2 xs l = Some (Inr l', w) \<and>
    rep l' ps' (session_table a lib g1 g2 xs cs)"
  using assms
proof (induction xs arbitrary: l ps cs)
  case Nil
  then show ?case by (auto simp: ret_def)
next
  case (Cons x xs)
  have "\<exists>l1 ps1 w1 cs1. (case x of Captured pkts \<Rightarrow> pcap_loop n a lib g1 g2 pkts l
            | Displayed screen \<Rightarrow> display_round n fp a screen l) = Some (Inr l1, w1) \<and> rep l1 ps1 cs1 \<and>
      session_table a lib g1 g2 (x # xs) cs = session_table a lib g1 g2 xs cs1 \<and>
      length cs1 \<le> length cs + length (packets_of x)"
  proof (cases x)
    case (Captured pkts)
    from pcap_loop_refines [OF Cons.prems(1) _ Cons.prems(3), of pkts n lib g1 g2] Cons.prems(2,4) Captured
    obtain l1 ps1 w1 where "pcap_loop n a lib g1 g2 pkts l = Some (Inr l1, w1)"
      "rep l1 ps1 (fold (\<lambda>c. insert_spec a c []) (communications lib g1 g2 pkts) cs)"
      by auto
    moreover have "length (fold (\<lambda>c. insert_spec a c []) (communications lib g1 g2 pkts) cs) \<le> length cs + length pkts"
      using length_fold_insert [of a "communications lib g1 g2 pkts" cs] length_communications [of lib g1 g2 pkts]
      by simp
    ultimately show ?thesis using Captured by auto
  next
    case (Displayed screen)
    obtain max_y max_x where s: "screen = (max_y, max_x)" by fastforce
    from display_round_ok [OF Cons.prems(1) _ Cons.prems(3), of n fp max_y max_x] Cons.prems(2) obtain w1 where
      w1: "display_round n fp a screen l = Some (Inr (if cumulative a = 0 then init_llist l else l), w1)"
      using s by auto
    show ?thesis
    proof (cases "cumulative a = 0")
      case True
      with Displayed w1 rep_init_llist [of l] show ?thesis by fastforce
    next
      case False
      with Displayed w1 Cons.prems(1) show ?thesis by fastforce
    qed
  qed
  then obtain l1 ps1 w1 cs1 where
    1: "(case x of Captured pkts \<Rightarrow> pcap_loop n a lib g1 g2 pkts l
            | Displayed screen \<Rightarrow> display_round n fp a screen l) = Some (Inr l1, w1)"
      "rep l1 ps1 cs1" "session_table a lib g1 g2 (x # xs) cs = session_table a lib g1 g2 xs cs1"
      "length cs1 \<le> length cs + length (packets_of x)"
    by blast
  have "length ps1 + length (concat (map packets_of xs)) < n"
    using 1(4) Cons.prems(2) rep_length [OF 1(2)] rep_length [OF Cons.prems(1)] by simp
  with Cons.IH [OF 1(2) _ Cons.prems(3)] Cons.prems(4) obtain l2 ps2 w2 where
    "top_session n fp a lib g1 g2 xs l1 = Some (Inr l2, w2)" "rep l2 ps2 (session_table a lib g1 g2 xs cs1)"
    by auto
  with 1(1,3) show ?case by (auto simp: bind_fuel_ok)
qed

end
