(* ===== verification/Top_Cli.thy ===== *)
theory Top_Cli
  imports Top_Display
begin

text \<open>
  \<open>cli.c\<close>, \<open>isa-top.c\<close> and the list walks of \<open>pcap_file_tests.c\<close>. What \<open>getopt\<close> finds in the argument
  vector and the devices that \<open>pcap_findalldevs\<close> lists are parameters.
\<close>

section \<open>Arguments\<close>

text \<open>\<open>strtol\<close> with base 10: the value, kept within \<open>long int\<close>, and the text it stopped at.\<close>

definition LONG_MAX :: int where "LONG_MAX = 9223372036854775807"

definition strtol :: "string \<Rightarrow> int \<times> string" where
  "strtol s =
     (let t = dropWhile is_space s;
          u = (if t \<noteq> [] \<and> (hd t = CHR ''-'' \<or> hd t = CHR ''+'') then drop 1 t else t);
          v = (if t \<noteq> [] \<and> hd t = CHR ''-'' then - decimal_val u else decimal_val u)
      in if takeWhile is_digit u = [] then (0, s)
         else (max (- LONG_MAX - 1) (min LONG_MAX v), dropWhile is_digit u))"

text \<open>An option with its argument, an option without one, and \<open>?\<close> with \<open>optopt\<close>.\<close>

datatype getopt_result = WithArg char string | Flag char | Unknown char

type_synonym pcap_devices = "string + (string \<times> bool \<times> bool) list"

definition nl :: char where "nl = CHR 0x0A"
definition tab :: char where "tab = CHR 0x09"

definition help_text :: string where
  "help_text = concat [

    ''isa-top: displays network traffic on an interface by host. Created for course ISA @ FIT VUT.'',
    [nl], [nl], ''Synopsis: ./ipk-sniffer'', [nl], [tab], ''[-i interface]'', [nl], [tab],
    ''{-s sort by b|p}'', [nl], [tab], ''{-t update interval}'', [nl], [tab],
    ''{-h show this help}'', [nl], [tab], ''{-c cumulative stats}'', [nl], [nl], [tab], ''-h'',
    [tab], [tab], ''displays this message'', [nl], [tab], ''-i'', [tab], [tab],
    ''displays list of available interfaces'', [nl], [tab], ''-i interface'', [tab], [tab],
    ''listen on this interfac'', [nl], [tab], ''-s b|p'', [tab], [tab],
    ''specifies the sorting of displayed statistics, either by bytes or packets.'', [nl], [tab],
    ''-t interval'', [tab], [tab], ''sets the update interval of statistics'', [nl], [tab],
    ''-c'', [tab], [tab], ''show cumulative stats over whole duration of program'', [nl], [nl],
    ''isa-top, copyright Michal Pavl'', [CHR 0xC3, CHR 0xAD],
    ''ek <xpavlim00@stud.fit.vutbr.cz, michaelg.pavlicek@gmail.com>, 2024.'', [nl]]"

definition default_arguments :: CLIArguments where
  "default_arguments = \<lparr>interface = None, sort_by = CHR ''b'', interval = 1, cumulative = 0\<rparr>"

definition list_devices :: "pcap_devices \<Rightarrow> 'a top_io" where
  "list_devices devs =
     bind_io (case devs of
         Inl e \<Rightarrow> emits [Err (''Error: '' @ e @ [nl])]
       | Inr [] \<Rightarrow> emits [Err (''No devices were found'' @ [nl])]
       | Inr ds \<Rightarrow> emits (map (\<lambda>(name, up, running). Out (name @ [nl])) (filter (\<lambda>(name, up, running). up \<and> running) ds)))
       (\<lambda>_. stop (Exit 0))"

definition isprint :: "char \<Rightarrow> bool" where
  "isprint c \<longleftrightarrow> 32 \<le> (of_char c :: nat) \<and> (of_char c :: nat) \<le> 126"

definition first_char :: "string \<Rightarrow> char" where
  "first_char s = (case s of [] \<Rightarrow> CHR 0x00 | c # _ \<Rightarrow> c)"

definition to_int :: "int \<Rightarrow> int" where
  "to_int t = sint (word_of_int t :: 32 word)"

fun parse_option :: "pcap_devices \<Rightarrow> CLIArguments \<Rightarrow> getopt_result \<Rightarrow> CLIArguments top_io" where
  "parse_option devs a (WithArg c arg) =
     (if c = CHR ''i'' then ret (a\<lparr>interface := Some arg\<rparr>)
      else if c = CHR ''s'' then
        (let a' = a\<lparr>sort_by := first_char arg\<rparr> in
         if \<not> (sort_by a' = CHR ''b'' \<or> sort_by a' = CHR ''p'')
         then throw_error False '' for -s you have to use b or p'' ERR_CLI else ret a')
      else if c = CHR ''t'' then
        (case strtol arg of (t, endptr) \<Rightarrow>
           if endptr \<noteq> [] \<or> t \<le> 0 then throw_error False ''-t must get positive integer'' ERR_CLI
           else ret (a\<lparr>interval := to_int t\<rparr>))
      else ret a)"
| "parse_option devs a (Flag c) =
     (if c = CHR ''c'' then ret (a\<lparr>cumulative := 1\<rparr>)
      else if c = CHR ''h'' then bind_io (emit (Out help_text)) (\<lambda>_. stop (Exit 0))
      else ret a)"
| "parse_option devs a (Unknown optopt) =
     (if optopt = CHR ''i'' then list_devices devs
      else if optopt = CHR ''s'' \<or> optopt = CHR ''t''
      then throw_error False ''options require an argument'' ERR_CLI
      else if isprint optopt then throw_error False ''unknown option'' ERR_CLI
      else throw_error False ''unknown character'' ERR_CLI)"

primrec parse_options :: "pcap_devices \<Rightarrow> getopt_result list \<Rightarrow> CLIArguments \<Rightarrow> CLIArguments top_io" where
  "parse_options devs [] a = ret a"
| "parse_options devs (opt # opts) a = bind_io (parse_option devs a opt) (parse_options devs opts)"

definition parse_arguments :: "pcap_devices \<Rightarrow> getopt_result list \<Rightarrow> CLIArguments top_io" where
  "parse_arguments devs opts =
     bind_io (parse_options devs opts default_arguments) (\<lambda>a.
       if interface a = None
       then throw_error False ''no interface was specified. Try -h'' ERR_CLI else ret a)"

section \<open>The program\<close>

text \<open>
  \<open>main\<close> up to any moment of the two threads: \<open>created\<close> are the answers of \<open>pthread_create\<close>, and
  \<open>xs\<close> is what the threads have done. The displaying thread never ends, so \<open>main\<close> does not return.
\<close>

definition isa_top ::
  "nat \<Rightarrow> rate_text \<Rightarrow> net_lib \<Rightarrow> pcap_devices \<Rightarrow> getopt_result list \<Rightarrow> bool \<times> bool \<Rightarrow> 16 word \<Rightarrow> 16 word \<Rightarrow>
   activity list \<Rightarrow> llist \<Rightarrow> llist top_io option" where
  "isa_top fuel fp lib devs opts created g1 g2 xs l =
     bind_fuel (parse_arguments devs opts) (\<lambda>a.
       let l' = init_llist l in
       if \<not> fst created then Some (throw_error False ''pthread_create'' ERR_THREAD)
       else if \<not> snd created then Some (throw_error False ''pthread_create'' ERR_THREAD)
       else top_session fuel fp a lib g1 g2 xs l')"

section \<open>Walks over the list\<close>

primrec count_nodes_loop :: "nat \<Rightarrow> llist \<Rightarrow> nat option \<Rightarrow> int \<Rightarrow> int top_io option" where
  "count_nodes_loop 0 l cur cnt = None"
| "count_nodes_loop (Suc n) l cur cnt =
     (if cur = None then Some (ret cnt)
      else bind_fuel (cint (cnt + 1)) (\<lambda>cnt'. bind_fuel (deref l cur) (\<lambda>nd.
        count_nodes_loop n l (lnext nd) cnt')))"

definition count_nodes :: "nat \<Rightarrow> llist \<Rightarrow> int top_io option" where
  "count_nodes fuel l = count_nodes_loop fuel l (lhead l) 0"

text \<open>\<open>protocol_exists\<close> and \<open>port_exists\<close> are the same walk with another test of the data.\<close>

primrec exists_loop ::
  "(CommunicationInfo \<Rightarrow> bool) \<Rightarrow> nat \<Rightarrow> llist \<Rightarrow> nat option \<Rightarrow> bool top_io option" where
  "exists_loop P 0 l cur = None"
| "exists_loop P (Suc n) l cur =
     (if cur = None then Some (ret False)
      else bind_fuel (deref l cur) (\<lambda>nd.
        case ldata nd of
          None \<Rightarrow> Some (stop (Fault NullPointer))
        | Some c \<Rightarrow> if P c then Some (ret True) else exists_loop P n l (lnext nd)))"

definition protocol_exists :: "nat \<Rightarrow> llist \<Rightarrow> string \<Rightarrow> bool top_io option" where
  "protocol_exists fuel l s = exists_loop (\<lambda>c. protocol c = s) fuel l (lhead l)"

definition port_exists :: "nat \<Rightarrow> llist \<Rightarrow> 16 word \<Rightarrow> bool top_io option" where
  "port_exists fuel l p = exists_loop (\<lambda>c. src_port c = p \<or> dst_port c = p) fuel l (lhead l)"

section \<open>Lemmas\<close>

definition good_arguments :: "CLIArguments \<Rightarrow> bool" where
  "good_arguments a \<longleftrightarrow> sort_by a \<in> {CHR ''b'', CHR ''p''} \<and> cumulative a \<in> {0, 1}"

text \<open>The periods that do not change when they become an \<open>int\<close>.\<close>

fun small_period :: "getopt_result \<Rightarrow> bool" where
  "small_period (WithArg c arg) \<longleftrightarrow> (c = CHR ''t'' \<longrightarrow> fst (strtol arg) \<le> INT_MAX)"
| "small_period _ \<longleftrightarrow> True"

lemma to_int_id: "0 \<le> t \<Longrightarrow> t \<le> INT_MAX \<Longrightarrow> to_int t = t"
  by (simp add: to_int_def INT_MAX_def signed_of_int signed_take_bit_int_eq_self)

lemma throw_error_never [simp]: "throw_error cap m t \<noteq> (Inr x, w)"
  by (simp add: throw_error_def close_all_def io_simps emit_def bind_io_def stop_def ret_def)

lemma list_devices_never [simp]: "list_devices devs \<noteq> (Inr x, w)"
  by (auto simp: list_devices_def bind_io_def stop_def emits_def split: sum.splits list.splits)

lemma parse_option_good:
  assumes "parse_option devs a opt = (Inr a', w)"
  shows "good_arguments a \<Longrightarrow> good_arguments a'"
    and "small_period opt \<Longrightarrow> 0 < interval a \<Longrightarrow> 0 < interval a'"
  using assms
  by (cases opt; auto simp: good_arguments_def ret_def bind_emit Let_def to_int_id stop_def
      split: if_splits prod.splits)+

lemma parse_options_good:
  assumes "parse_options devs opts a = (Inr a', w)"
  shows "good_arguments a \<Longrightarrow> good_arguments a'"
    and "\<forall>opt\<in>set opts. small_period opt \<Longrightarrow> 0 < interval a \<Longrightarrow> 0 < interval a'"
  using assms
proof (induction opts arbitrary: a w)
  case (Cons opt opts)
  {
    case 1
    then show ?case using Cons.IH(1) parse_option_good(1) by (simp add: bind_ok_iff) blast
  next
    case 2
    then show ?case using Cons.IH(2) parse_option_good(2) by (simp add: bind_ok_iff) blast
  }
qed auto

lemma parse_arguments_good:
  assumes "parse_arguments devs opts = (Inr a, w)"
  shows "good_arguments a \<and> interface a \<noteq> None \<and>
    ((\<forall>opt\<in>set opts. small_period opt) \<longrightarrow> 0 < interval a)"
proof -
  obtain w' where "parse_options devs opts default_arguments = (Inr a, w')" "interface a \<noteq> None"
    using assms by (auto simp: parse_arguments_def bind_ok_iff split: if_splits)
  with parse_options_good [OF this(1)] show ?thesis
    by (simp add: good_arguments_def default_arguments_def)
qed

text \<open>The walks, on a list whose nodes all have data.\<close>

lemma count_nodes_loop_ok:
  assumes "dseg (heap l) f pv ps None e" and "length ps < n" and "0 \<le> k" and "k + int (length ps) \<le> INT_MAX"
  shows "count_nodes_loop n l f k = Some (ret (k + int (length ps)))"
  using assms
proof (induction ps arbitrary: f pv n k)
  case (Cons p ps)
  then obtain m nd where "n = Suc m" "heap l p = Some nd" "dseg (heap l) (lnext nd) (Some p) ps None e"
    by (cases n) auto
  with Cons.IH [of "lnext nd" "Some p" m "k + 1"] Cons.prems show ?case
    by (simp add: set_ok(4) cint_def in_int_def INT_MIN_def add.assoc)
next
  case Nil
  then show ?case by (cases n) simp_all
qed

lemma exists_loop_ok:
  assumes "dseg (heap l) f pv ps None e" and "list_all2 (stored l) ps cs" and "length ps < n"
  shows "exists_loop P n l f = Some (ret (\<exists>c\<in>set cs. P c))"
  using assms
proof (induction ps arbitrary: f pv n cs)
  case (Cons p ps)
  from Cons.prems(2) obtain d ds where cs: "cs = d # ds" "stored l p d" "list_all2 (stored l) ps ds"
    by (auto simp: list_all2_Cons1)
  from cs(2) obtain nd where "heap l p = Some nd" "ldata nd = Some d" by (rule stored_node)
  with Cons.IH [of "lnext nd" "Some p" ds] Cons.prems cs show ?case
    by (cases n) (auto simp: set_ok(4))
next
  case Nil
  then show ?case by (cases n) simp_all
qed

lemma walks_rep:
  assumes "rep l ps cs" and "length ps < n" and "int (length ps) \<le> INT_MAX"
  shows "count_nodes n l = Some (ret (int (length cs)))"
    and "protocol_exists n l s = Some (ret (\<exists>c\<in>set cs. protocol c = s))"
    and "port_exists n l p = Some (ret (\<exists>c\<in>set cs. src_port c = p \<or> dst_port c = p))"
proof -
  from assms(1) obtain e where s: "dseg (heap l) (lhead l) None ps None e" "list_all2 (stored l) ps cs"
    by (auto simp: rep_def chained_def)
  show "count_nodes n l = Some (ret (int (length cs)))"
    using count_nodes_loop_ok [OF s(1) assms(2), of 0] assms(3) rep_length [OF assms(1)]
    by (simp add: count_nodes_def)
  show "protocol_exists n l s = Some (ret (\<exists>c\<in>set cs. protocol c = s))"
    "port_exists n l p = Some (ret (\<exists>c\<in>set cs. src_port c = p \<or> dst_port c = p))"
    unfolding protocol_exists_def port_exists_def by (rule exists_loop_ok [OF s assms(2)])+
qed

end
