(* ===== verification/Top_Claims.thy ===== *)
theory Top_Claims
  imports Top_Cli
begin

text \<open>The properties of \<open>isa/isa-top\<close>, and two observations that the tests and comments contradict.\<close>

section \<open>A sample\<close>

definition sample_lib :: net_lib where
  "sample_lib = \<lparr>inet_ntop4 = concat \<circ> map (\<lambda>b. show_nat (unat b) @ ''.''),
     inet_ntop6 = concat \<circ> map (\<lambda>b. show_nat (unat b) @ '':''), getprotobynumber = (\<lambda>n. None)\<rparr>"

definition sample_list :: llist where
  "sample_list = \<lparr>heap = Map.empty, lhead = None, fresh = 0\<rparr>"

definition sample_args :: CLIArguments where
  "sample_args = \<lparr>interface = Some ''lo'', sort_by = CHR ''b'', interval = 1, cumulative = 1\<rparr>"

definition sample_macs :: "u8 list" where
  "sample_macs = replicate 12 0"

text \<open>A segment of TCP from \<open>10.0.0.x\<close> to \<open>10.0.0.y\<close>.\<close>

definition sample_frame :: "u8 \<Rightarrow> u8 \<Rightarrow> 16 word \<Rightarrow> 16 word \<Rightarrow> u8 list" where
  "sample_frame x y s d = frame4 sample_macs 0x45 (replicate 8 0) 6 [0, 0] [10, 0, 0, x] [10, 0, 0, y] []
     (be16 s @ be16 d @ [])"

lemma sample_ok: "ok4 sample_macs 0x45 (replicate 8 0) [0, 0] [10, 0, 0, x] [10, 0, 0, y] []"
  by (simp add: ok4_def sample_macs_def)

lemma sample_readable: "readable sample_lib (n, sample_frame x y s d)"
  unfolding readable_def sample_frame_def snd_conv
  by (rule exI, rule read_frame4 [OF sample_ok]) auto

definition sample_capture :: "(32 word \<times> u8 list) list" where
  "sample_capture = [(60, sample_frame 1 2 80 90), (1500, sample_frame 2 1 90 80), (70, sample_frame 1 3 80 90)]"

lemma sample_capture_readable: "\<forall>pkt\<in>set sample_capture. readable sample_lib pkt"
  by (simp add: sample_capture_def sample_readable)

section \<open>The list\<close>

text \<open>
  C2. The program from its arguments on, in any order of captured packets and turns of the display:
  the list in the heap is always a well-linked list of the entries that the specification gives,
  which knows no pointers: an entry that takes a packet moves up past the entries of a smaller
  order, a new one goes to the end, and without \<open>-c\<close> each turn of the display empties the table.
  Fuel for one more than the packets of the session is enough.
\<close>

theorem isa_top_refines:
  assumes "parse_arguments devs opts = (Inr a, w)" and "interval a \<noteq> 0"
    and "length (concat (map packets_of xs)) < n"
    and "\<forall>pkt\<in>set (concat (map packets_of xs)). readable lib pkt"
  shows "\<exists>l' ps v. isa_top n fp lib devs opts (True, True) g1 g2 xs l = Some (Inr l', v) \<and>
    rep l' ps (session_table a lib g1 g2 xs [])"
proof -
  from session_refines [OF rep_init_llist _ assms(2,4), of n fp g1 g2 l] assms(3) obtain l' ps v where
    "top_session n fp a lib g1 g2 xs (init_llist l) = Some (Inr l', v)"
    "rep l' ps (session_table a lib g1 g2 xs [])"
    by auto
  then show ?thesis by (auto simp: isa_top_def assms(1) bind_fuel_ok)
qed

definition sample_opts :: "getopt_result list" where
  "sample_opts = [WithArg CHR ''i'' ''lo'', WithArg CHR ''t'' ''1'', Flag CHR ''c'']"

lemma sample_arguments_parse: "parse_arguments (Inr []) sample_opts = (Inr sample_args, [])"
  by code_simp

theorem isa_top_refines_witness:
  "\<exists>l' ps v. isa_top 4 (\<lambda>_ _ _. []) sample_lib (Inr []) sample_opts (True, True) 0 0
       [Captured sample_capture, Displayed (24, 80)] sample_list = Some (Inr l', v) \<and>
     rep l' ps (session_table sample_args sample_lib 0 0 [Captured sample_capture, Displayed (24, 80)] [])"
  by (rule isa_top_refines [OF sample_arguments_parse])
    (use sample_capture_readable in \<open>simp_all add: sample_args_def sample_capture_def\<close>)

text \<open>
  C4. The counters: after any capture into the empty list, every entry counts the bytes and packets
  that went from its source to its destination (\<open>Tx\<close>) and back (\<open>Rx\<close>), each captured packet of
  its flow exactly once; and every flow that was captured has exactly one entry.
\<close>

theorem capture_counts:
  assumes "lhead l = None" and "length pkts \<le> n" and "interval a \<noteq> 0"
    and "\<forall>pkt\<in>set pkts. readable lib pkt \<and> 0 \<le> sint (fst pkt)"
  shows "\<exists>l' ps cs w. pcap_loop n a lib g1 g2 pkts l = Some (Inr l', w) \<and> rep l' ps cs \<and>
    (let packets = communications lib g1 g2 pkts in
      (\<forall>e\<in>set cs.
        Tx e = (\<Sum>c\<leftarrow>packets. if same_flow e c \<and> same_source e c then Tx c else 0) \<and>
        Rx e = (\<Sum>c\<leftarrow>packets. if same_flow e c \<and> \<not> same_source e c then Tx c else 0) \<and>
        packets_sent_Tx e = int (length (filter (\<lambda>c. same_flow e c \<and> same_source e c) packets)) \<and>
        packets_sent_Rx e = int (length (filter (\<lambda>c. same_flow e c \<and> \<not> same_source e c) packets))) \<and>
      (\<forall>x. (\<exists>e\<in>set cs. same_flow x e) \<longleftrightarrow> (\<exists>c\<in>set packets. same_flow x c)) \<and>
      (\<forall>i j. i < length cs \<longrightarrow> j < length cs \<longrightarrow> same_flow (cs ! i) (cs ! j) \<longrightarrow> i = j))"
proof -
  let ?packets = "communications lib g1 g2 pkts"
  have p: "\<forall>c\<in>set ?packets. is_packet c" using assms(4) by (intro communications_packets) auto
  from capture_table [OF assms(1-3)] assms(4) obtain l' ps w where
    run: "pcap_loop n a lib g1 g2 pkts l = Some (Inr l', w)" "rep l' ps (table a ?packets)"
    by fastforce
  have "flows.apart (table a ?packets)" by (simp add: table_def flows.apart_fold flows.apart_Nil)
  then have one: "i = j" if "i < length (table a ?packets)" "j < length (table a ?packets)"
      "same_flow (table a ?packets ! i) (table a ?packets ! j)" for i j
    using that by (rule flows.apart_nth)
  have all: "(\<exists>e\<in>set (table a ?packets). same_flow x e) \<longleftrightarrow> (\<exists>c\<in>set ?packets. same_flow x c)" for x
    using flows.flows_fold [where x = x and a = a and ps = ?packets and cs = "[]"] by (simp add: table_def)
  show ?thesis
    unfolding Let_def using run table_counts [OF p] all one by blast
qed

theorem capture_counts_witness:
  "\<exists>l' ps cs w. pcap_loop 3 sample_args sample_lib 0 0 sample_capture sample_list = Some (Inr l', w) \<and>
    rep l' ps cs"
proof -
  have "\<forall>pkt\<in>set sample_capture. readable sample_lib pkt \<and> 0 \<le> sint (fst pkt)"
    using sample_capture_readable by (simp add: sample_capture_def)
  from capture_counts [OF _ _ _ this, of sample_list 3 sample_args 0 0] show ?thesis
    by (auto simp: sample_list_def sample_args_def sample_capture_def)
qed

text \<open>
  C30. Order: a packet of a flow that is already in the list keeps a sorted list sorted, for an interval
  that is not 0 and an entry with counters that are not negative.
\<close>

theorem known_flow_keeps_order:
  assumes "rep l ps cs" and "length ps < n" and "0 < interval a" and "is_packet c"
    and "sorted_down a cs" and "\<exists>d\<in>set cs. same_flow c d"
    and "\<forall>d\<in>set cs. 0 \<le> Rx d + Tx d \<and> 0 \<le> packets_sent_Rx d + packets_sent_Tx d"
  shows "\<exists>l' ps' cs'. insert_communication n a c l = Some (ret l') \<and> rep l' ps' cs' \<and> sorted_down a cs'"
proof -
  from assms(3) have "interval a \<noteq> 0" by simp
  from insert_refines [OF assms(1,2) this] obtain l' ps' where
    run: "insert_communication n a c l = Some (ret l')" "rep l' ps' (insert_spec a c [] cs)"
    by blast
  from insert_spec_split [of cs c a "[]"] assms(6) obtain us d vs where
    s: "cs = us @ d # vs" "insert_spec a c [] cs = move_up a us (add_communications d c) @ vs"
    by (auto simp: same_flow_def simp del: compare_communications.simps)
  from assms(7) s(1) have "0 \<le> Rx d + Tx d" "0 \<le> packets_sent_Rx d + packets_sent_Tx d" by auto
  from rank_mono [OF assms(3,4) this] assms(5) s(1)
  have "sorted_down a (insert_spec a c [] cs)" unfolding s(2) by (intro move_up_sorted) simp_all
  with run show ?thesis by blast
qed

definition sample_entry :: "nat \<Rightarrow> CommunicationInfo" where
  "sample_entry n = (init_communication 0 0)\<lparr>src_ip := show_nat n, dst_ip := ''x'', Tx := int n,
     packets_sent_Tx := 1\<rparr>"

lemma sample_pair:
  "\<exists>l. insert_communication 2 sample_args (sample_entry 8) sample_list = Some (ret l) \<and>
     rep l [0] [sample_entry 8]"
  by (rule exI [of _ "\<lparr>heap = [0 \<mapsto> \<lparr>ldata = Some (sample_entry 8), lnext = None, lprev = None\<rparr>],
        lhead = Some 0, fresh = 1\<rparr>"])
    (simp add: insert_communication_def get_node_def init_node_def sample_list_def deref_def set_data_def
      set_node_def rep_def chained_def stored_def sample_entry_def init_communication_def)

theorem known_flow_keeps_order_witness:
  "\<exists>l l' ps' cs'. insert_communication 2 sample_args (sample_entry 8) l = Some (ret l') \<and> rep l' ps' cs' \<and>
     sorted_down sample_args cs'"
proof -
  obtain l where l: "rep l [0] [sample_entry 8]" using sample_pair by blast
  have "is_packet (sample_entry 8)" "sorted_down sample_args [sample_entry 8]"
    by (simp_all add: is_packet_def sample_entry_def init_communication_def sorted_down_def)
  with known_flow_keeps_order [OF l, of 2 sample_args "sample_entry 8"] show ?thesis
    by (auto simp: sample_args_def same_flow_refl sample_entry_def init_communication_def)
qed

text \<open>
  The list is not sorted as \<open>linked_list.h\<close> says and as \<open>pcap_file_tests.c\<close> asserts: a new flow
  stays at the end, whatever its order.
\<close>

lemma new_flow_not_sorted:
  "insert_spec sample_args (sample_entry 9) [] [sample_entry 8] = [sample_entry 8, sample_entry 9] \<and>
   \<not> sorted_down sample_args [sample_entry 8, sample_entry 9]"
  by code_simp

text \<open>A period of \<open>2 ^ 32\<close> passes the check of \<open>-t\<close> and becomes 0, by which the order then divides.\<close>

lemma zero_interval:
  "fst (parse_arguments (Inr []) [WithArg CHR ''i'' ''lo'', WithArg CHR ''t'' ''4294967296'']) =
     Inr (sample_args\<lparr>interval := 0, cumulative := 0\<rparr>)"
  "comm_order (sample_args\<lparr>interval := 0\<rparr>) c = stop (Fault DivisionByZero)"
  by code_simp (simp add: comm_order_def sample_args_def cdiv_def)

section \<open>Frames\<close>

text \<open>
  C10. Reading a frame: what was put into an Ethernet frame with an IPv4 header, with any options, is
  what the handler inserts into the list, under the mutex: the text of the two addresses, the name
  of the protocol, the length of the frame as bytes sent, and for TCP and UDP the two ports; the
  ports of all other protocols are 0.
\<close>

theorem packet_handler_ipv4:
  assumes "ok4 macs vhl h ck src dst opts"
    and "if proto \<in> {6, 17} then data = be16 sp @ be16 dp @ rest else sp = 0 \<and> dp = 0"
  shows "packet_handler n a lib g1 g2 len (frame4 macs vhl h proto ck src dst opts data) l =
    bind_fuel (emit Lock) (\<lambda>_. map_option (\<lambda>run. bind_io run (\<lambda>l'. bind_io (emit Unlock) (\<lambda>_. ret l')))
      (insert_communication n a
        \<lparr>src_ip = inet_ntop4 lib src, dst_ip = inet_ntop4 lib dst, src_port = sp, dst_port = dp,
         protocol = (if proto = 6 then ''tcp'' else if proto = 17 then ''udp'' else if proto = 1 then ''icmp''
           else proto_name lib proto),
         Rx = 0, Tx = sint len, packets_sent_Rx = 0, packets_sent_Tx = 1\<rparr> l))"
proof -
  have "read_frame lib (frame4 macs vhl h proto ck src dst opts data) =
    ret (Some (inet_ntop4 lib src, inet_ntop4 lib dst, sp, dp, transport_name lib 1 proto ''icmp''))"
    using assms(2) by (intro read_frame4 [OF assms(1)]) (auto split: if_splits)
  then show ?thesis
    by (simp add: packet_handler_def make_communication_def init_communication_def transport_name_def)
qed

theorem packet_handler_ipv4_witness:
  "\<exists>r. packet_handler 1 sample_args sample_lib 0 0 60
     (frame4 sample_macs 0x45 (replicate 8 0) 6 [0, 0] [10, 0, 0, 1] [10, 0, 0, 2] [] (be16 80 @ be16 90 @ []))
     sample_list = bind_fuel (emit Lock) r"
  by (rule exI, rule packet_handler_ipv4 [OF sample_ok, where sp = 80 and dp = 90 and rest = "[]"]) simp

text \<open>
  C31. A frame that was cut short: the handler never looks at the length of the capture, so a segment of
  TCP or UDP whose capture ends before its ports makes it read past the captured bytes.
\<close>

theorem packet_handler_cut:
  assumes "ok4 macs vhl h ck src dst opts" and "proto \<in> {6, 17}"
    and "k < 14 + unat (vhl AND 0x0F) * 4 + 4"
  shows "packet_handler n a lib g1 g2 len
    (take k (frame4 macs vhl h proto ck src dst opts (be16 sp @ be16 dp @ rest))) l =
    Some (stop (Fault OutOfBounds))"
proof -
  from assms(2) have "proto = 6 \<or> proto = 17" by auto
  from cut_frame4 [OF assms(1) this assms(3)] show ?thesis by (simp add: packet_handler_def)
qed

theorem packet_handler_cut_witness:
  "packet_handler 1 sample_args sample_lib 0 0 60
    (take 37 (frame4 sample_macs 0x45 (replicate 8 0) 17 [0, 0] [10, 0, 0, 1] [10, 0, 0, 2] [] (be16 80 @ be16 90 @ [])))
    sample_list = Some (stop (Fault OutOfBounds))"
  by (rule packet_handler_cut [OF sample_ok]) simp_all

section \<open>The screen and the arguments\<close>

text \<open>The texts that a run puts on the screen, with their places.\<close>

fun text_of :: "top_event \<Rightarrow> (int \<times> int \<times> string) list" where
  "text_of (MvPrint y x s) = [(y, x, s)]"
| "text_of _ = []"

definition texts :: "top_event list \<Rightarrow> (int \<times> int \<times> string) list" where
  "texts w = concat (map text_of w)"

text \<open>
  What the columns are to show. An address and its port take 23 places: an address of more than 17
  characters is cut, and its port then has five digits. The unit of a rate goes by the bytes.
\<close>

definition endpoint :: "string \<Rightarrow> 16 word \<Rightarrow> string" where
  "endpoint ip port =
     pad_right 23
       (if length ip \<le> 17 then ip @ '':'' @ show_nat (unat port)
        else take 17 ip @ '':'' @ zero_fill 5 (show_nat (unat port)))"

definition rate :: "rate_text \<Rightarrow> CLIArguments \<Rightarrow> int \<Rightarrow> string" where
  "rate fp a b =
     take 99
       (if b < 128 then fp (8 * b) 1 1
        else if b < 131072 then fp (8 * b) 1024 (interval a) @ '' K''
        else if b < 134217728 then fp (8 * b) 1048576 (interval a) @ '' M''
        else fp (8 * b) 1073741824 (interval a) @ '' G'')"

definition columns :: "rate_text \<Rightarrow> CLIArguments \<Rightarrow> (int \<times> string \<times> (CommunicationInfo \<Rightarrow> string)) list" where
  "columns fp a =
     [(2, ''Source IP:Port'', \<lambda>c. endpoint (src_ip c) (src_port c)),
      (26, ''Dest IP:Port'', \<lambda>c. endpoint (dst_ip c) (dst_port c)),
      (50, ''Proto'', \<lambda>c. pad_right 6 (take 6 (protocol c))),
      (57, ''Rx b/s'', \<lambda>c. pad_right 8 (rate fp a (Rx c))),
      (66, ''Tx b/s'', \<lambda>c. pad_right 8 (rate fp a (Tx c))),
      (75, ''Rx p/s'', \<lambda>c. pad_right 8 (show_int (packets_sent_Rx c))),
      (84, ''Tx p/s'', \<lambda>c. pad_right 8 (show_int (packets_sent_Tx c)))]"

text \<open>The quotient of two integers in C, and the packets of a line of totals.\<close>

definition quotient :: "int \<Rightarrow> int \<Rightarrow> int" where
  "quotient x y = sgn (x * y) * (\<bar>x\<bar> div \<bar>y\<bar>)"

definition total_text :: "rate_text \<Rightarrow> CLIArguments \<Rightarrow> string \<Rightarrow> int \<Rightarrow> int \<Rightarrow> string" where
  "total_text fp a name b k =
     ''Total '' @ name @ '': '' @ rate fp a b @ '' ('' @
     show_int (if cumulative a = 0 then quotient k (interval a) else k) @ '' p)''"

lemma texts_simps [simp]: "texts [] = []" "texts (e # w) = text_of e @ texts w" "texts (v @ w) = texts v @ texts w"
  by (simp_all add: texts_def)

lemma cdiv_quotient: "y \<noteq> 0 \<Longrightarrow> cdiv x y = ret (quotient x y)"
  unfolding cdiv_def quotient_def sgn_mult by (auto simp: sgn_if)

lemma rate_conversion: "bytes_conversion fp a b = rate fp a b"
  by (auto simp: bytes_conversion_def rate_def Let_def mult.commute)

lemma endpoint_cell: "cell 23 (format_ip_port 24 ip port) = endpoint ip port"
  using length_port [of port] by (simp add: cell_def format_ip_port_def endpoint_def)

lemma texts_row: "texts (row_events fp a row c) = map (\<lambda>(x, _, text). (row, x, text c)) (columns fp a)"
  by (simp add: row_events_def columns_def endpoint_cell rate_conversion) (simp add: cell_def)

lemma texts_rows:
  "texts (rows_events fp a (5 + int k) cs) =
     concat (map (\<lambda>(i, c). map (\<lambda>(x, _, text). (5 + int i, x, text c)) (columns fp a)) (enumerate k cs))"
proof (induction cs arbitrary: k)
  case (Cons c cs)
  have "5 + int k + 1 = 5 + int (Suc k)" by simp
  then show ?case by (simp only: rows_events.simps texts_simps texts_row Cons.IH enumerate_simps list.map concat.simps prod.case)
qed simp

lemma texts_totals:
  assumes "interval a \<noteq> 0"
  shows "texts (snd (print_totals fp a max_y (prx, ptx, rx, tx))) =
    [(max_y - 3, 2, total_text fp a ''Rx'' rx prx), (max_y - 2, 2, total_text fp a ''Tx'' tx ptx)]"
  using assms
  by (simp add: print_totals_def emits_def cdiv_quotient bind_emit total_text_def totals_line_def rate_conversion)

text \<open>
  C32. The screen. A turn of the display clears it and puts these texts on it: the title, the headings, under
  them one row for each of the first entries of the list, at most \<open>count\<close> and as many as fit
  between the headings and the totals, in the columns of their headings; then the bytes and packets received
  and sent, as sums over the rows shown and not over the list.
\<close>

theorem print_llist_shows:
  assumes "rep l ps cs" and "length ps < n" and "interval a \<noteq> 0"
    and "shown = take (nat (min cnt (max_y - 9))) cs"
  shows "\<exists>w. print_llist n fp a (max_y, max_x) cnt l = Some (Inr (), w) \<and> hd w = Clear \<and> List.last w = Refresh \<and>
    texts w =
      (1, quotient (max_x - 16) 2, ''isa-top : xpavlim00'') #
      map (\<lambda>(x, heading, _). (3, x, heading)) (columns fp a) @
      concat (map (\<lambda>(i, c). map (\<lambda>(x, _, text). (5 + int i, x, text c)) (columns fp a)) (enumerate 0 shown)) @
      [(max_y - 3, 2, total_text fp a ''Rx'' (\<Sum>c\<leftarrow>shown. Rx c) (\<Sum>c\<leftarrow>shown. packets_sent_Rx c)),
       (max_y - 2, 2, total_text fp a ''Tx'' (\<Sum>c\<leftarrow>shown. Tx c) (\<Sum>c\<leftarrow>shown. packets_sent_Tx c)),
       (max_y - 2, max_x - 26, ''Press 'Ctrl + C' to quit'')]"
proof -
  from print_llist_rows [OF assms(1-3), where fp = fp and max_y = max_y and max_x = max_x and cnt = cnt] obtain w where
    w: "print_llist n fp a (max_y, max_x) cnt l = Some (Inr (), w)"
      "w = header_events (quotient (max_x - 16) 2) max_x @ rows_events fp a 5 shown @ HLine (max_y - 4) 1 (max_x - 2) #
        snd (print_totals fp a max_y (totals_of shown)) @
        [MvPrint (max_y - 2) (max_x - 26) ''Press 'Ctrl + C' to quit'', ColorOff, Refresh]"
    unfolding assms(4) [symmetric] by (auto simp: cdiv_quotient)
  moreover have "texts (header_events mid max_x) =
      (1, mid, ''isa-top : xpavlim00'') # map (\<lambda>(x, heading, _). (3, x, heading)) (columns fp a)" for mid
    by (simp add: header_events_def columns_def)
  moreover have "hd w = Clear" "List.last w = Refresh" using w(2) by (simp_all add: header_events_def)
  ultimately show ?thesis
    using texts_rows [of fp a 0 shown] by (simp add: texts_totals [OF assms(3)] totals_of_def)
qed

theorem print_llist_shows_witness:
  "\<exists>l w. print_llist 2 (\<lambda>b _ _. show_int b) sample_args (24, 80) 10 l = Some (Inr (), w) \<and>
     (5, 50, ''      '') \<in> set (texts w) \<and> (5, 66, ''64      '') \<in> set (texts w) \<and>
     (22, 2, ''Total Tx: 64 (1 p)'') \<in> set (texts w)"
proof -
  obtain l where l: "rep l [0] [sample_entry 8]" using sample_pair by blast
  let ?fp = "\<lambda>b _ _. show_int b" and ?c = "sample_entry 8"
  from print_llist_shows [OF l _ _ refl, of 2 sample_args ?fp 24 80 10] obtain w where
    w: "print_llist 2 ?fp sample_args (24, 80) 10 l = Some (Inr (), w)"
      "{(5, 50, pad_right 6 (take 6 (protocol ?c))), (5, 66, pad_right 8 (rate ?fp sample_args (Tx ?c))),
        (22, 2, total_text ?fp sample_args ''Tx'' (Tx ?c) (packets_sent_Tx ?c))} \<subseteq> set (texts w)"
    by (auto simp: sample_args_def columns_def)
  moreover have "pad_right 6 (take 6 (protocol ?c)) = ''      ''" by code_simp
  moreover have "pad_right 8 (rate ?fp sample_args (Tx ?c)) = ''64      ''" by code_simp
  moreover have "total_text ?fp sample_args ''Tx'' (Tx ?c) (packets_sent_Tx ?c) = ''Total Tx: 64 (1 p)''" by code_simp
  ultimately show ?thesis by auto
qed

text \<open>
  C33. Arguments: what \<open>parse_arguments\<close> lets through has an interface, a known way to sort, and \<open>-c\<close> as 0 or 1.
  The interval is positive if no period of \<open>-t\<close> is larger than an \<open>int\<close>.
\<close>

theorem parse_arguments_accepts:
  assumes "parse_arguments devs opts = (Inr a, w)"
  shows "interface a \<noteq> None \<and> sort_by a \<in> {CHR ''b'', CHR ''p''} \<and> cumulative a \<in> {0, 1} \<and>
    ((\<forall>opt\<in>set opts. small_period opt) \<longrightarrow> 0 < interval a)"
  using parse_arguments_good [OF assms] by (simp add: good_arguments_def)

theorem parse_arguments_accepts_witness: "interface sample_args \<noteq> None \<and> sort_by sample_args \<in> {CHR ''b'', CHR ''p''}"
  using parse_arguments_accepts [OF sample_arguments_parse] by simp

end
