(* ===== verification/Top_Tests.thy ===== *)
theory Top_Tests
  imports Top_Claims
begin

text \<open>
  \<open>pcap_file_tests.c\<close>: the test program of \<open>isa-top\<close>. The capture files are a parameter: for a name either the
  error of \<open>pcap_open_offline\<close> or the packets that \<open>pcap_next\<close> gives. A failed assertion ends the program
  with \<open>SIGABRT\<close>, the status 134 of a shell.
\<close>

type_synonym pcap_files = "string \<Rightarrow> string + (32 word \<times> u8 list) list"

definition TEST_PCAP_FILE1 :: string where "TEST_PCAP_FILE1 = ''tests/icmp-data.pcap''"
definition TEST_PCAP_FILE2 :: string where "TEST_PCAP_FILE2 = ''tests/test_capture.pcap''"

definition check :: "bool \<Rightarrow> unit top_io" where
  "check b = (if b then ret () else bind_io (emit (Err ''Assertion failed'')) (\<lambda>_. stop (Exit 134)))"

primrec check_all :: "bool list \<Rightarrow> unit top_io" where
  "check_all [] = ret ()"
| "check_all (b # bs) = bind_io (check b) (\<lambda>_. check_all bs)"

section \<open>Setting up\<close>

definition init_test_context :: "char \<Rightarrow> CLIArguments" where
  "init_test_context srt =
     \<lparr>interface = Some ''eth0'', sort_by = srt, interval = 1, cumulative = 0\<rparr>"

primrec read_capture ::
  "nat \<Rightarrow> CLIArguments \<Rightarrow> net_lib \<Rightarrow> 16 word \<Rightarrow> 16 word \<Rightarrow> (32 word \<times> u8 list) list \<Rightarrow> llist \<times> int \<Rightarrow>
   (llist \<times> int) top_io option" where
  "read_capture n a lib g1 g2 [] s = Some (ret s)"
| "read_capture n a lib g1 g2 (pkt # pkts) s =
     (case packet_handler n a lib g1 g2 (fst pkt) (snd pkt) (fst s) of
        None \<Rightarrow> None
      | Some run \<Rightarrow> bind_fuel run (\<lambda>l. bind_fuel (cint (snd s + 1)) (\<lambda>k.
          read_capture n a lib g1 g2 pkts (l, k))))"

text \<open>
  \<open>llist\<close> is the null pointer (\<open>None\<close>) until the first file was opened; the nodes of an earlier list
  stay where they are. The result is \<open>llist\<close> and \<open>count_packets\<close>.
\<close>

definition empty_heap :: llist where
  "empty_heap = \<lparr>heap = (\<lambda>_. None), lhead = None, fresh = 0\<rparr>"

definition init_test ::
  "nat \<Rightarrow> net_lib \<Rightarrow> 16 word \<Rightarrow> 16 word \<Rightarrow> pcap_files \<Rightarrow> char \<Rightarrow> string \<Rightarrow> llist option \<Rightarrow>
   (llist option \<times> int) top_io option" where
  "init_test n lib g1 g2 files srt name l =
     (let a = init_test_context srt in
      case files name of
        Inl e \<Rightarrow> Some (bind_io (emit (Err (''Couldn't open pcap file '' @ name @ '': '' @ e @ [nl]))) (\<lambda>_. ret (l, 0)))
      | Inr pkts \<Rightarrow>
          map_option (\<lambda>run. bind_io run (\<lambda>(l, k). ret (Some l, k)))
            (read_capture n a lib g1 g2 pkts
              (init_llist (case l of None \<Rightarrow> empty_heap | Some l \<Rightarrow> l), 0)))"

section \<open>Looking at the list\<close>

definition the_list :: "llist option \<Rightarrow> llist top_io" where
  "the_list l = (case l of None \<Rightarrow> stop (Fault NullPointer) | Some l \<Rightarrow> ret l)"

text \<open>\<open>p->data\<close>, where the code goes on to read from it.\<close>

definition data_of :: "llist \<Rightarrow> nat option \<Rightarrow> CommunicationInfo top_io" where
  "data_of l p =
     bind_io (deref l p) (\<lambda>nd. case ldata nd of None \<Rightarrow> stop (Fault NullPointer) | Some c \<Rightarrow> ret c)"

definition bytes :: "CommunicationInfo \<Rightarrow> int" where "bytes c = Rx c + Tx c"
definition packets :: "CommunicationInfo \<Rightarrow> int" where "packets c = packets_sent_Rx c + packets_sent_Tx c"

primrec icmpv6_loop :: "nat \<Rightarrow> llist \<Rightarrow> nat option \<Rightarrow> int \<Rightarrow> int top_io option" where
  "icmpv6_loop 0 l cur k = None"
| "icmpv6_loop (Suc n) l cur k =
     (if cur = None then Some (ret k)
      else bind_fuel (data_of l cur) (\<lambda>c. bind_fuel (deref l cur) (\<lambda>nd.
        if protocol c = ''icmpv6''
        then bind_fuel (check (bytes c = 86)) (\<lambda>_. bind_fuel (cint (k + 1)) (\<lambda>k. icmpv6_loop n l (lnext nd) k))
        else icmpv6_loop n l (lnext nd) k)))"

text \<open>\<open>last_bytes\<close> and \<open>last_packets\<close> are \<open>int\<close>, where the counters are \<open>long int\<close>.\<close>

primrec order_loop :: "(CommunicationInfo \<Rightarrow> int) \<Rightarrow> nat \<Rightarrow> llist \<Rightarrow> nat option \<Rightarrow> unit top_io option" where
  "order_loop key 0 l cur = None"
| "order_loop key (Suc n) l cur =
     bind_fuel (deref l cur) (\<lambda>nd.
       if lnext nd = None then Some (ret ())
       else bind_fuel (data_of l cur) (\<lambda>c. bind_fuel (data_of l (lnext nd)) (\<lambda>d.
         bind_fuel (check (to_int (key c) \<ge> key d)) (\<lambda>_. order_loop key n l (lnext nd)))))"

section \<open>The tests\<close>

definition with_list ::
  "(llist option \<times> int) top_io option \<Rightarrow> (llist \<Rightarrow> int \<Rightarrow> 'a top_io option) \<Rightarrow> 'a top_io option" where
  "with_list r f =
     (case r of None \<Rightarrow> None
      | Some run \<Rightarrow> bind_fuel run (\<lambda>(lo, k). bind_fuel (the_list lo) (\<lambda>l. f l k)))"

definition top_of_icmp :: "CommunicationInfo \<Rightarrow> bool list" where
  "top_of_icmp c =
     [src_ip c = ''147.229.12.101'', dst_ip c = ''198.57.179.99'', protocol c = ''icmp'',
      packets c = 14, bytes c = 1372]"

definition second_of_icmp :: "CommunicationInfo \<Rightarrow> bool list" where
  "second_of_icmp c = [protocol c = ''icmp'', bytes c = 392]"

definition test_icmp ::
  "nat \<Rightarrow> net_lib \<Rightarrow> 16 word \<Rightarrow> 16 word \<Rightarrow> pcap_files \<Rightarrow> llist option \<Rightarrow> llist top_io option" where
  "test_icmp n lib g1 g2 files l =
     with_list (init_test n lib g1 g2 files CHR ''b'' TEST_PCAP_FILE1 l) (\<lambda>l count_packets.
       bind_fuel (check_all [lhead l \<noteq> None, count_packets = 38]) (\<lambda>_.
       bind_fuel (data_of l (lhead l)) (\<lambda>c.
       bind_fuel (check_all (top_of_icmp c)) (\<lambda>_.
       bind_fuel (deref l (lhead l)) (\<lambda>nd.
       bind_fuel (data_of l (lnext nd)) (\<lambda>d.
       bind_fuel (check_all (second_of_icmp d)) (\<lambda>_.
         map_option (\<lambda>run. bind_io run (\<lambda>icmpv6_count.
             bind_io (check (icmpv6_count = 20)) (\<lambda>_.
             bind_io (emit (Out (''icmp-data.pcap passed.'' @ [nl]))) (\<lambda>_.
             bind_io (emit PcapClose) (\<lambda>_. ret l)))))
           (icmpv6_loop n l (lhead l) 0))))))))"

text \<open>The checks of the first entry, and the walk over the order.\<close>

definition top_by_bytes :: "CommunicationInfo \<Rightarrow> bool list" where
  "top_by_bytes c =
     [src_ip c = ''192.168.8.126'', dst_ip c = ''23.212.110.8'', bytes c \<ge> 6000, protocol c = ''udp'',
      packets c = 6]"

definition top_by_packets :: "CommunicationInfo \<Rightarrow> bool list" where
  "top_by_packets c =
     [src_ip c = ''192.168.8.126'', dst_ip c = ''34.36.57.103'', protocol c = ''tcp'', packets c = 16]"

definition check_top ::
  "nat \<Rightarrow> llist \<Rightarrow> (CommunicationInfo \<Rightarrow> bool list) \<Rightarrow> (CommunicationInfo \<Rightarrow> int) \<Rightarrow>
   (unit \<Rightarrow> 'a top_io option) \<Rightarrow> 'a top_io option" where
  "check_top n l tests key f =
     bind_fuel (data_of l (lhead l)) (\<lambda>c. bind_fuel (check_all (tests c)) (\<lambda>_.
       case order_loop key n l (lhead l) of None \<Rightarrow> None | Some run \<Rightarrow> bind_fuel run f))"

definition check_bool :: "bool top_io option \<Rightarrow> (unit \<Rightarrow> 'a top_io option) \<Rightarrow> 'a top_io option" where
  "check_bool r f =
     (case r of None \<Rightarrow> None | Some run \<Rightarrow> bind_fuel run (\<lambda>b. bind_fuel (check b) f))"

definition test_arbitrary_capture ::
  "nat \<Rightarrow> net_lib \<Rightarrow> 16 word \<Rightarrow> 16 word \<Rightarrow> pcap_files \<Rightarrow> llist option \<Rightarrow> unit top_io option" where
  "test_arbitrary_capture n lib g1 g2 files l =
     with_list (init_test n lib g1 g2 files CHR ''b'' TEST_PCAP_FILE2 l) (\<lambda>l _.
     check_bool (protocol_exists n l ''udp'') (\<lambda>_.
     check_bool (protocol_exists n l ''tcp'') (\<lambda>_.
     check_bool (port_exists n l 53) (\<lambda>_.
     check_bool (port_exists n l 443) (\<lambda>_.
     check_bool (map_option (\<lambda>run. bind_io run (\<lambda>k. ret (k = 20))) (count_nodes n l)) (\<lambda>_.
     check_top n l top_by_bytes bytes (\<lambda>_.
     with_list (init_test n lib g1 g2 files CHR ''p'' TEST_PCAP_FILE2 (Some l)) (\<lambda>l _.
     check_top n l top_by_packets packets (\<lambda>_.
       Some (bind_io (emit (Out (''Arbitrary pcap test_capture.pcap passed.'' @ [nl]))) (\<lambda>_. emit PcapClose)))))))))))"

definition tests_main :: "nat \<Rightarrow> net_lib \<Rightarrow> 16 word \<Rightarrow> 16 word \<Rightarrow> pcap_files \<Rightarrow> int top_io option" where
  "tests_main n lib g1 g2 files =
     (case test_icmp n lib g1 g2 files None of None \<Rightarrow> None
      | Some run \<Rightarrow> bind_fuel run (\<lambda>l.
          case test_arbitrary_capture n lib g1 g2 files (Some l) of None \<Rightarrow> None
          | Some run \<Rightarrow> bind_fuel run (\<lambda>_.
              Some (bind_io (emit (Out (''All tests passed'' @ [nl]))) (\<lambda>_. ret 0)))))"

section \<open>Runs that pass\<close>

definition passed :: "'a top_io option \<Rightarrow> 'a \<Rightarrow> bool" where
  "passed r x \<longleftrightarrow> (\<exists>w. r = Some (Inr x, w))"

lemma passed_bind: "passed (bind_fuel m f) y \<longleftrightarrow> (\<exists>x w. m = (Inr x, w) \<and> passed (f x) y)"
  by (cases m; cases "fst m") (auto simp: passed_def bind_fuel_def)

lemma passed_simps [simp]:
  "passed (bind_fuel (ret x) f) y \<longleftrightarrow> passed (f x) y"
  "passed (bind_fuel (stop h) f) y \<longleftrightarrow> False"
  "passed None y \<longleftrightarrow> False"
  "passed (Some (ret x)) y \<longleftrightarrow> x = y"
  "passed (Some (stop h)) y \<longleftrightarrow> False"
  by (simp_all add: passed_def)

lemma passed_check [simp]: "passed (bind_fuel (check b) f) y \<longleftrightarrow> b \<and> passed (f ()) y"
  by (simp add: check_def passed_bind) (simp add: bind_emit stop_def)

lemma check_all_ok: "(\<exists>w. check_all bs = (Inr u, w)) \<longleftrightarrow> list_all (\<lambda>b. b) bs"
proof (induction bs)
  case (Cons b bs)
  then show ?case by (cases b) (simp_all add: check_def bind_emit stop_def bind_pair)
qed (simp add: ret_def)

declare check_all.simps [simp del]

lemma passed_check_all [simp]: "passed (bind_fuel (check_all bs) f) y \<longleftrightarrow> list_all (\<lambda>b. b) bs \<and> passed (f ()) y"
  using check_all_ok [of bs "()"] by (auto simp: passed_bind)

lemma passed_case:
  "passed (case r of None \<Rightarrow> None | Some run \<Rightarrow> bind_fuel run f) y \<longleftrightarrow> (\<exists>x. passed r x \<and> passed (f x) y)"
  by (cases r) (auto simp: passed_bind passed_def [of "Some _"])

lemma passed_map:
  "passed (map_option (\<lambda>run. bind_io run g) r) y \<longleftrightarrow> (\<exists>x. passed r x \<and> fst (g x) = Inr y)"
proof (cases r)
  case (Some run)
  then show ?thesis by (cases run; cases "fst run") (auto simp: passed_def bind_io_def prod_eq_iff)
qed simp

lemma passed_check_bool [simp]: "passed (check_bool (Some (ret b)) f) y \<longleftrightarrow> b \<and> passed (f ()) y"
  by (simp add: check_bool_def)

lemma with_list_passed:
  "passed r (lo, k) \<Longrightarrow> passed (with_list r f) y \<longleftrightarrow> (\<exists>l. lo = Some l \<and> passed (f l k) y)"
  by (cases lo) (auto simp: with_list_def passed_def [of r] passed_bind the_list_def)

section \<open>Reading a file\<close>

lemma read_capture_loop:
  assumes "pcap_loop n a lib g1 g2 pkts l = Some (Inr l', w)" and "0 \<le> k" and "k + int (length pkts) \<le> INT_MAX"
  shows "read_capture n a lib g1 g2 pkts (l, k) = Some (Inr (l', k + int (length pkts)), w)"
  using assms
proof (induction pkts arbitrary: l k w)
  case Nil
  then show ?case by (simp add: ret_def)
next
  case (Cons pkt pkts)
  from Cons.prems(1) obtain run where run: "packet_handler n a lib g1 g2 (fst pkt) (snd pkt) l = Some run"
    "bind_fuel run (pcap_loop n a lib g1 g2 pkts) = Some (Inr l', w)"
    by (auto split: option.splits)
  then obtain m u v where m: "run = (Inr m, u)" "pcap_loop n a lib g1 g2 pkts m = Some (Inr l', v)" "w = u @ v"
    by (cases run; cases "fst run") (auto simp: bind_fuel_def)
  have "in_int (k + 1)" using Cons.prems(2,3) by (simp add: in_int_def INT_MIN_def)
  moreover have "read_capture n a lib g1 g2 pkts (m, k + 1) = Some (Inr (l', k + 1 + int (length pkts)), v)"
    by (rule Cons.IH [OF m(2)]) (use Cons.prems in auto)
  ultimately show ?case using run(1) m by (simp add: bind_fuel_ok add.assoc)
qed

lemma init_test_table:
  assumes "files name = Inr pkts" and "length pkts \<le> n" and "\<forall>pkt\<in>set pkts. readable lib pkt"
    and "int (length pkts) \<le> INT_MAX"
  shows "\<exists>l' ps. passed (init_test n lib g1 g2 files srt name l) (Some l', int (length pkts)) \<and>
    rep l' ps (table (init_test_context srt) (communications lib g1 g2 pkts))"
proof -
  let ?l = "init_llist (case l of None \<Rightarrow> empty_heap | Some l \<Rightarrow> l)"
  have "lhead ?l = None" by (simp add: init_llist_def)
  from capture_table [OF this assms(2) _ assms(3), of "init_test_context srt" g1 g2] obtain l' ps w where
    l': "pcap_loop n (init_test_context srt) lib g1 g2 pkts ?l = Some (Inr l', w)"
      "rep l' ps (table (init_test_context srt) (communications lib g1 g2 pkts))"
    by (auto simp: init_test_context_def)
  from read_capture_loop [OF l'(1), of 0] assms(4)
  have "read_capture n (init_test_context srt) lib g1 g2 pkts (?l, 0) = Some (Inr (l', int (length pkts)), w)" by simp
  then have "passed (init_test n lib g1 g2 files srt name l) (Some l', int (length pkts))"
    by (simp add: init_test_def assms(1) passed_def bind_pair)
  with l'(2) show ?thesis by blast
qed

section \<open>The walks\<close>

lemma data_of_stored:
  assumes "stored l p c"
  shows "data_of l (Some p) = ret c"
proof -
  obtain nd where "heap l p = Some nd" "ldata nd = Some c" by (rule stored_node [OF assms])
  then show ?thesis by (simp add: data_of_def set_ok(4))
qed

definition icmpv6 :: "CommunicationInfo \<Rightarrow> bool" where
  "icmpv6 c \<longleftrightarrow> protocol c = ''icmpv6''"

lemma icmpv6_loop_passed:
  assumes "dseg (heap l) f pv ps None e" and "list_all2 (stored l) ps cs" and "length ps < n"
    and "0 \<le> k" and "k + int (length ps) \<le> INT_MAX"
  shows "passed (icmpv6_loop n l f k) r \<longleftrightarrow>
    (\<forall>c\<in>set cs. icmpv6 c \<longrightarrow> bytes c = 86) \<and> r = k + int (length (filter icmpv6 cs))"
  using assms
proof (induction ps arbitrary: f pv n cs k)
  case Nil
  then show ?case by (cases n) auto
next
  case (Cons p ps)
  from Cons.prems(2) obtain d ds where cs: "cs = d # ds" "stored l p d" "list_all2 (stored l) ps ds"
    by (auto simp: list_all2_Cons1)
  from Cons.prems(1) obtain nd where nd: "f = Some p" "heap l p = Some nd" "dseg (heap l) (lnext nd) (Some p) ps None e"
    by auto
  from Cons.prems(3) obtain m where m: "n = Suc m" "length ps < m" by (cases n) auto
  have i: "in_int (k + 1)" using Cons.prems(4,5) by (simp add: in_int_def INT_MIN_def)
  note IH = Cons.IH [OF nd(3) cs(3) m(2)]
  show ?case
    using IH [of k] IH [of "k + 1"] Cons.prems(4,5) i
    by (auto simp: m(1) nd(1) data_of_stored [OF cs(2)] set_ok(4) [OF nd(2)] cs(1) icmpv6_def)
qed

text \<open>No entry is followed by one with a greater key, where the first of the two keys is kept in an \<open>int\<close>.\<close>

fun falling :: "(CommunicationInfo \<Rightarrow> int) \<Rightarrow> CommunicationInfo list \<Rightarrow> bool" where
  "falling key (c # d # cs) = (to_int (key c) \<ge> key d \<and> falling key (d # cs))"
| "falling key _ = True"

lemma order_loop_passed:
  assumes "dseg (heap l) (Some p) pv (p # ps) None e" and "list_all2 (stored l) (p # ps) (c # cs)" and "Suc (length ps) < n"
  shows "passed (order_loop key n l (Some p)) u \<longleftrightarrow> falling key (c # cs)"
  using assms
proof (induction ps arbitrary: p pv n c cs)
  case Nil
  then obtain nd m where "heap l p = Some nd" "lnext nd = None" "n = Suc m" by (cases n) auto
  then show ?case using Nil(2) by (simp add: set_ok(4))
next
  case (Cons q ps)
  from Cons.prems(2) obtain d ds where cs: "cs = d # ds" "stored l p c" "stored l q d" "list_all2 (stored l) (q # ps) (d # ds)"
    by (auto simp: list_all2_Cons1)
  from Cons.prems(1) obtain nd where nd: "heap l p = Some nd" "lnext nd = Some q"
    "dseg (heap l) (Some q) (Some p) (q # ps) None e"
    by auto
  from Cons.prems(3) obtain m where m: "n = Suc m" "Suc (length ps) < m" by (cases n) auto
  show ?case
    using Cons.IH [OF nd(3) cs(4) m(2)]
    by (simp add: m(1) set_ok(4) [OF nd(1)] nd(2) data_of_stored [OF cs(2)] data_of_stored [OF cs(3)] cs(1))
qed

text \<open>The first two entries of a list.\<close>

lemma rep_first:
  assumes "rep l ps (c # cs)"
  obtains p e qs nd where "ps = p # qs" "lhead l = Some p" "dseg (heap l) (Some p) None (p # qs) None e"
    "list_all2 (stored l) (p # qs) (c # cs)" "data_of l (lhead l) = ret c" "deref l (lhead l) = ret nd"
    "lnext nd = (case qs of [] \<Rightarrow> None | q # _ \<Rightarrow> Some q)"
proof -
  from assms obtain p qs where ps: "ps = p # qs" "stored l p c" "list_all2 (stored l) (p # qs) (c # cs)"
    by (auto simp: rep_def list_all2_Cons2)
  from assms ps(1) obtain e nd where d: "lhead l = Some p" "dseg (heap l) (Some p) None (p # qs) None e"
    "heap l p = Some nd" "dseg (heap l) (lnext nd) (Some p) qs None e"
    by (auto simp: rep_def chained_def)
  from d(4) have "lnext nd = (case qs of [] \<Rightarrow> None | q # _ \<Rightarrow> Some q)" by (cases qs) auto
  then show ?thesis using that [of p qs e nd] ps d by (simp add: data_of_stored set_ok(4))
qed

lemma rep_Nil_head: "rep l ps [] \<longleftrightarrow> ps = [] \<and> lhead l = None"
  by (auto simp: rep_def chained_def)

section \<open>What the tests ask for\<close>

text \<open>The expectations of the two tests, on the tables of the specification.\<close>

definition expected_icmp :: "nat \<Rightarrow> CommunicationInfo list \<Rightarrow> bool" where
  "expected_icmp m cs \<longleftrightarrow>
     m = 38 \<and> (case cs of c # d # _ \<Rightarrow> list_all (\<lambda>b. b) (top_of_icmp c @ second_of_icmp d) | _ \<Rightarrow> False)
     \<and> (\<forall>c\<in>set cs. icmpv6 c \<longrightarrow> bytes c = 86) \<and> length (filter icmpv6 cs) = 20"

definition expected_top ::
  "(CommunicationInfo \<Rightarrow> bool list) \<Rightarrow> (CommunicationInfo \<Rightarrow> int) \<Rightarrow> CommunicationInfo list \<Rightarrow> bool" where
  "expected_top tests key cs \<longleftrightarrow> (case cs of [] \<Rightarrow> False | c # _ \<Rightarrow> list_all (\<lambda>b. b) (tests c)) \<and> falling key cs"

definition expected_mix :: "CommunicationInfo list \<Rightarrow> bool" where
  "expected_mix cs \<longleftrightarrow>
     (\<exists>c\<in>set cs. protocol c = ''udp'') \<and> (\<exists>c\<in>set cs. protocol c = ''tcp'')
     \<and> (\<forall>p\<in>{53, 443}. \<exists>c\<in>set cs. src_port c = p \<or> dst_port c = p) \<and> length cs = 20"

lemma check_top_passed:
  assumes "rep l ps cs" and "length ps < n"
  shows "passed (check_top n l tests key f) y \<longleftrightarrow> expected_top tests key cs \<and> passed (f ()) y"
proof (cases cs)
  case Nil
  then have "lhead l = None" using assms(1) by (simp add: rep_Nil_head)
  then show ?thesis using Nil by (simp add: check_top_def data_of_def deref_def expected_top_def)
next
  case (Cons c ds)
  with assms(1) obtain p e qs nd where r: "ps = p # qs" "lhead l = Some p" "dseg (heap l) (Some p) None (p # qs) None e"
    "list_all2 (stored l) (p # qs) (c # ds)" "data_of l (lhead l) = ret c"
    using rep_first [of l ps c ds] by metis
  have "passed (order_loop key n l (lhead l)) u \<longleftrightarrow> falling key (c # ds)" for u
    unfolding r(2) by (rule order_loop_passed [OF r(3,4)]) (use assms(2) r(1) in simp)
  then show ?thesis by (auto simp: check_top_def r(5) passed_case expected_top_def Cons)
qed

section \<open>The program\<close>

definition table_of ::
  "char \<Rightarrow> net_lib \<Rightarrow> 16 word \<Rightarrow> 16 word \<Rightarrow> (32 word \<times> u8 list) list \<Rightarrow> CommunicationInfo list" where
  "table_of srt lib g1 g2 pkts = table (init_test_context srt) (communications lib g1 g2 pkts)"

text \<open>A file that can be read whole: its packets are few enough for \<open>int\<close> and for the fuel.\<close>

definition good_file :: "nat \<Rightarrow> net_lib \<Rightarrow> (32 word \<times> u8 list) list \<Rightarrow> bool" where
  "good_file n lib pkts \<longleftrightarrow>
     length pkts < n \<and> int (length pkts) \<le> INT_MAX \<and> (\<forall>pkt\<in>set pkts. readable lib pkt)"

lemma init_test_rep:
  assumes "files name = Inr pkts" and "good_file n lib pkts"
  obtains l' ps where "passed (init_test n lib g1 g2 files srt name l) (Some l', int (length pkts))"
    "rep l' ps (table_of srt lib g1 g2 pkts)" "length ps < n" "int (length ps) \<le> INT_MAX"
proof -
  from assms obtain l' ps where l': "passed (init_test n lib g1 g2 files srt name l) (Some l', int (length pkts))"
    "rep l' ps (table_of srt lib g1 g2 pkts)"
    using init_test_table [where files = files and name = name and pkts = pkts and n = n and lib = lib and srt = srt
        and l = l and ?g1.0 = g1 and ?g2.0 = g2] by (auto simp: good_file_def table_of_def)
  have "length (table_of srt lib g1 g2 pkts) \<le> length pkts"
    using length_fold_insert [of "init_test_context srt" "communications lib g1 g2 pkts" "[]"]
      length_communications [of lib g1 g2 pkts]
    by (simp add: table_of_def table_def)
  with rep_length [OF l'(2)] assms(2) have "length ps < n" "int (length ps) \<le> INT_MAX"
    by (auto simp: good_file_def)
  with l' that show ?thesis by blast
qed

lemma test_icmp_passed:
  assumes "files TEST_PCAP_FILE1 = Inr pkts" and "good_file n lib pkts"
  shows "(\<exists>l'. passed (test_icmp n lib g1 g2 files l) l') \<longleftrightarrow>
    expected_icmp (length pkts) (table_of CHR ''b'' lib g1 g2 pkts)"
proof -
  let ?cs = "table_of CHR ''b'' lib g1 g2 pkts"
  obtain l1 ps where l1: "passed (init_test n lib g1 g2 files CHR ''b'' TEST_PCAP_FILE1 l) (Some l1, int (length pkts))"
    "rep l1 ps ?cs" "length ps < n" "int (length ps) \<le> INT_MAX"
    by (rule init_test_rep [where files = files and name = TEST_PCAP_FILE1, OF assms])
  note w = with_list_passed [OF l1(1)]
  show ?thesis
  proof (cases ?cs)
    case Nil
    then have "lhead l1 = None" using l1(2) by (simp add: rep_Nil_head)
    then show ?thesis using Nil by (simp add: test_icmp_def w expected_icmp_def)
  next
    case (Cons c ds)
    with l1(2) obtain p e qs nd where r: "ps = p # qs" "lhead l1 = Some p" "dseg (heap l1) (Some p) None (p # qs) None e"
      "list_all2 (stored l1) (p # qs) (c # ds)" "data_of l1 (lhead l1) = ret c" "deref l1 (lhead l1) = ret nd"
      "lnext nd = (case qs of [] \<Rightarrow> None | q # _ \<Rightarrow> Some q)"
      using rep_first [of l1 ps c ds] by metis
    have i: "passed (icmpv6_loop n l1 (lhead l1) 0) k \<longleftrightarrow>
        (\<forall>c\<in>set ?cs. icmpv6 c \<longrightarrow> bytes c = 86) \<and> k = int (length (filter icmpv6 ?cs))" for k
      using icmpv6_loop_passed [OF r(3,4), of n 0 k] l1(3,4) unfolding r(1,2) Cons by simp
    have fin: "fst (bind_io (check (k = 20)) (\<lambda>_. bind_io (emit x) (\<lambda>_. bind_io (emit y) (\<lambda>_. ret l1)))) = Inr z
        \<longleftrightarrow> k = 20 \<and> z = l1" for k :: int and x y z
      by (cases "k = 20") (auto simp: check_def bind_emit bind_pair stop_def)
    show ?thesis
    proof (cases ds)
      case Nil
      then have "lnext nd = None" using r(4,7) by simp
      then have "data_of l1 (lnext nd) = stop (Fault NullPointer)" by (simp add: data_of_def deref_def)
      then show ?thesis using Nil Cons by (simp add: test_icmp_def w expected_icmp_def r(2) r(5,6) [unfolded r(2)])
    next
      case (Cons d es)
      then obtain q qs' where q: "qs = q # qs'" "stored l1 q d" using r(4) by (auto simp: list_all2_Cons2)
      then have "data_of l1 (lnext nd) = ret d" using r(7) by (simp add: data_of_stored)
      then show ?thesis
        using \<open>?cs = c # ds\<close> Cons
        by (auto simp: test_icmp_def w r(2) r(5,6) [unfolded r(2)] passed_map i [unfolded r(2)] fin expected_icmp_def)
    qed
  qed
qed

lemma test_arbitrary_capture_passed:
  assumes "files TEST_PCAP_FILE2 = Inr pkts" and "good_file n lib pkts"
  shows "(\<exists>u. passed (test_arbitrary_capture n lib g1 g2 files l) u) \<longleftrightarrow>
    expected_mix (table_of CHR ''b'' lib g1 g2 pkts)
    \<and> expected_top top_by_bytes bytes (table_of CHR ''b'' lib g1 g2 pkts)
    \<and> expected_top top_by_packets packets (table_of CHR ''p'' lib g1 g2 pkts)"
proof -
  let ?b = "table_of CHR ''b'' lib g1 g2 pkts" and ?p = "table_of CHR ''p'' lib g1 g2 pkts"
  obtain l1 ps where l1: "passed (init_test n lib g1 g2 files CHR ''b'' TEST_PCAP_FILE2 l) (Some l1, int (length pkts))"
    "rep l1 ps ?b" "length ps < n" "int (length ps) \<le> INT_MAX"
    by (rule init_test_rep [where files = files and name = TEST_PCAP_FILE2, OF assms])
  obtain l2 qs where l2: "passed (init_test n lib g1 g2 files CHR ''p'' TEST_PCAP_FILE2 (Some l1)) (Some l2, int (length pkts))"
    "rep l2 qs ?p" "length qs < n" "int (length qs) \<le> INT_MAX"
    by (rule init_test_rep [where files = files and name = TEST_PCAP_FILE2, OF assms])
  note walks = walks_rep [OF l1(2,3,4)]
  show ?thesis
    by (auto simp: test_arbitrary_capture_def with_list_passed [OF l1(1)] with_list_passed [OF l2(1)] walks
        check_top_passed [OF l1(2,3)] check_top_passed [OF l2(2,3)] expected_mix_def)
      (auto simp: passed_def bind_emit)
qed

text \<open>A file that cannot be opened leaves the null pointer, which the test follows.\<close>

lemma missing_file_faults:
  "files TEST_PCAP_FILE1 = Inl e \<Longrightarrow>
    \<exists>w. tests_main n lib g1 g2 files = Some (Inl (Fault NullPointer), w)"
  by (simp add: tests_main_def test_icmp_def with_list_def init_test_def bind_emit the_list_def bind_fuel_def)

text \<open>
  C19. The test program of \<open>isa-top\<close>, from the bytes of the two capture files to its assertions: it returns 0
  exactly when the tables that the specification computes from the captured packets are as
  expected: counts, entries and order by bytes and by packets.
\<close>

theorem tests_main_passes:
  assumes "files TEST_PCAP_FILE1 = Inr pkts1" and "files TEST_PCAP_FILE2 = Inr pkts2"
    and "good_file n lib pkts1" and "good_file n lib pkts2"
  shows "(\<exists>w. tests_main n lib g1 g2 files = Some (Inr 0, w)) \<longleftrightarrow>
    expected_icmp (length pkts1) (table_of CHR ''b'' lib g1 g2 pkts1)
    \<and> expected_mix (table_of CHR ''b'' lib g1 g2 pkts2)
    \<and> expected_top top_by_bytes bytes (table_of CHR ''b'' lib g1 g2 pkts2)
    \<and> expected_top top_by_packets packets (table_of CHR ''p'' lib g1 g2 pkts2)"
proof -
  have "(\<exists>w. tests_main n lib g1 g2 files = Some (Inr 0, w)) \<longleftrightarrow> passed (tests_main n lib g1 g2 files) 0"
    by (simp add: passed_def)
  also have "\<dots> \<longleftrightarrow> (\<exists>l. passed (test_icmp n lib g1 g2 files None) l
      \<and> (\<exists>u. passed (test_arbitrary_capture n lib g1 g2 files (Some l)) u))"
    by (simp add: tests_main_def passed_case) (simp add: passed_def bind_emit)
  finally show ?thesis
    using test_icmp_passed [where files = files, OF assms(1,3)] test_arbitrary_capture_passed [where files = files, OF assms(2,4)]
    by blast
qed

theorem tests_main_passes_witness:
  "\<not> (\<exists>w. tests_main 9 sample_lib 0 0 (\<lambda>_. Inr sample_capture) = Some (Inr 0, w))"
proof -
  have g: "good_file 9 sample_lib sample_capture"
    using sample_capture_readable by (simp add: good_file_def sample_capture_def INT_MAX_def)
  have "length sample_capture \<noteq> 38" by (simp add: sample_capture_def)
  with tests_main_passes [where files = "\<lambda>_. Inr sample_capture", OF refl refl g g] show ?thesis
    by (simp add: expected_icmp_def)
qed

end
