(* ===== verification/Top_Race.thy ===== *)
theory Top_Race
  imports Top_Claims
begin

text \<open>
  The race of the two threads of \<open>isa-top\<close>. \<open>packet_handler\<close> holds the mutex while
  it inserts a communication, but \<open>display_stats\<close> resets the list after it gave the mutex
  back, so that the reset may come between any two accesses of \<open>insert_communication\<close>. Here it comes
  (as a whole) after \<open>get_node\<close> or before \<open>update_node_position\<close>, or at both places.
\<close>

section \<open>An insertion that is interrupted\<close>

definition reset_if :: "CLIArguments \<Rightarrow> bool \<Rightarrow> llist \<Rightarrow> llist" where
  "reset_if a b l = (if b \<and> cumulative a = 0 then init_llist l else l)"

definition insert_interrupted ::
  "bool \<Rightarrow> bool \<Rightarrow> nat \<Rightarrow> CLIArguments \<Rightarrow> CommunicationInfo \<Rightarrow> llist \<Rightarrow> llist top_io option" where
  "insert_interrupted early late fuel a c l =
     (case get_node fuel c l of
        None \<Rightarrow> None
      | Some run \<Rightarrow>
          bind_fuel run (\<lambda>(x, l1).
          let l1 = reset_if a early l1 in
          bind_fuel (deref l1 (Some x)) (\<lambda>nd.
            case ldata nd of
              None \<Rightarrow>
                Some (bind_io (set_data l1 (Some x) (c\<lparr>packets_sent_Tx := 1\<rparr>)) (\<lambda>l2. ret (reset_if a late l2)))
            | Some d \<Rightarrow>
                bind_fuel (set_data l1 (Some x) (add_communications d c)) (\<lambda>l2.
                  update_node_position fuel a (reset_if a late l2) (Some x)))))"

lemma reset_if_simps: "reset_if a False l = l"
  by (simp add: reset_if_def)

text \<open>Without a reset it is the insertion of \<open>stats.c\<close>.\<close>

lemma insert_not_interrupted: "insert_interrupted False False = insert_communication"
  unfolding fun_eq_iff insert_interrupted_def insert_communication_def reset_if_simps Let_def
    bind_ret_right
  by (intro allI refl)

text \<open>The entry of the packet passes all entries before it and becomes the first one.\<close>

definition overtakes :: "CLIArguments \<Rightarrow> CommunicationInfo \<Rightarrow> CommunicationInfo list \<Rightarrow> bool" where
  "overtakes a c cs =
     (let us = takeWhile (\<lambda>d. \<not> compare_communications c (Some d)) cs in
      case dropWhile (\<lambda>d. \<not> compare_communications c (Some d)) cs of
        [] \<Rightarrow> False
      | d # _ \<Rightarrow> us \<noteq> [] \<and> (\<forall>u\<in>set us. rank a u < rank a (add_communications d c)))"

lemma overtakes_hit:
  assumes "\<forall>u\<in>set us. \<not> compare_communications c (Some u)" and "compare_communications c (Some d)"
  shows "overtakes a c (us @ d # vs) \<longleftrightarrow> us \<noteq> [] \<and> (\<forall>u\<in>set us. rank a u < rank a (add_communications d c))"
  using assms
  by (simp add: overtakes_def takeWhile_append dropWhile_append del: compare_communications.simps)

lemma overtakes_miss:
  "\<forall>d\<in>set cs. \<not> compare_communications c (Some d) \<Longrightarrow> \<not> overtakes a c cs"
  by (simp add: overtakes_def dropWhile_eq_Nil_conv [THEN iffD2] del: compare_communications.simps)

section \<open>What does not look at the head\<close>

lemma heap_init [simp]: "heap (init_llist l) = heap l"
  by (simp add: init_llist_def)

lemma deref_init [simp]: "deref (init_llist l) p = deref l p"
  unfolding deref_def heap_init ..

lemma order_init [simp]: "get_nodes_order a (init_llist l) p = get_nodes_order a l p"
  by (simp add: get_nodes_order_def)

lemma place_loop_init [simp]: "place_loop n a (init_llist l) r p = place_loop n a l r p"
  by (induction n arbitrary: p) (simp_all cong: if_cong)

abbreviation then_reset :: "llist top_io \<Rightarrow> llist top_io" where
  "then_reset m \<equiv> bind_io m (\<lambda>l. ret (init_llist l))"

lemma deref_cases: obtains nd where "deref l p = ret nd" | h where "deref l p = stop h"
  by (cases "Option.bind p (heap l)"; cases p) (auto simp: deref_def)

lemma set_node_init: "set_node (init_llist l) p f = then_reset (set_node l p f)"
  by (rule deref_cases [of l p]) (simp_all add: set_node_def, simp add: init_llist_def)

lemmas set_init = set_next_def set_prev_def set_data_def set_node_init

lemma if_io_stop: "if_io (stop h) t e = stop h"
  by (simp add: if_io_def)

lemma unlink_init: "unlink (init_llist l) x = then_reset (unlink l x)"
  by (rule deref_cases [of l x]) (simp_all add: unlink_def set_init bind_assoc)

lemma relink_init: "relink (init_llist l) x (Some p) = then_reset (relink l x (Some p))"
proof (rule deref_cases [of l "Some p"])
  fix nd assume "deref l (Some p) = ret nd"
  then show ?thesis by (cases "lnext nd") (simp_all add: relink_def set_init bind_assoc)
qed (simp add: relink_def)

section \<open>Where the loop stops\<close>

lemma place_of:
  assumes "rep l (ps @ p # qs) (us @ x # ds)" and "length ps = length us" and "length ps < n"
    and "interval a \<noteq> 0" and "us \<noteq> []"
  shows "\<exists>k. place_loop n a l (rank a x) (Some (List.last ps)) = Some (ret k) \<and>
           (k = None \<longleftrightarrow> (\<forall>u\<in>set us. rank a u < rank a x))"
proof -
  obtain cs vs where uv: "us = cs @ vs" "\<forall>d\<in>set vs. rank a d < rank a x"
      "cs = [] \<or> \<not> rank a (List.last cs) < rank a x"
    by (rule move_up_split)
  from assms(1,2) have data: "list_all2 (stored l) ps us" and ch: "chained l (ps @ p # qs)"
    by (auto simp: rep_def list_all2_append)
  from data uv(1) obtain as bs where ab: "ps = as @ bs" "list_all2 (stored l) as cs" "list_all2 (stored l) bs vs"
    by (auto simp: list_all2_append2)
  from assms(2,5) have "ps \<noteq> []" by auto
  from ch obtain e where "dseg (heap l) (lhead l) None ps (Some p) e"
    by (auto simp: chained_def dseg_append)
  with dseg_last [OF this \<open>ps \<noteq> []\<close>] ab(1)
  have seg: "dseg (heap l) (lhead l) None (as @ bs) (Some p) (Some (List.last ps))" by simp
  from place_loop_skip [OF seg ab(3) uv(2) assms(4), of n] ab(1) assms(3)
  obtain m k where mk: "dseg (heap l) (lhead l) None as m k"
      "place_loop n a l (rank a x) (Some (List.last ps)) = place_loop (n - length bs) a l (rank a x) k"
    by auto
  note stop = place_loop_stop [OF mk(1) ab(2) assms(4) uv(3), of "n - length bs"]
  have "k = None \<longleftrightarrow> cs = []" using stop(2) ab(1,2) assms(3) by auto
  also have "\<dots> \<longleftrightarrow> (\<forall>u\<in>set us. rank a u < rank a x)"
    using uv by (cases cs rule: rev_cases) auto
  finally show ?thesis using stop(1) mk(2) ab(1) assms(3) by auto
qed

section \<open>The position after a reset\<close>

lemma update_after_reset:
  assumes "rep l (ps @ p # qs) (us @ x # ds)" and "length ps = length us" and "length ps < n"
    and "interval a \<noteq> 0"
  shows "if us \<noteq> [] \<and> (\<forall>u\<in>set us. rank a u < rank a x)
    then update_node_position n a (init_llist l) (Some p) = Some (stop (Fault NullPointer))
    else \<exists>l'. update_node_position n a (init_llist l) (Some p) = Some (ret l') \<and> rep l' [] []"
proof (cases "us = []")
  case True
  with assms obtain nd where "heap l p = Some nd" "lprev nd = None"
    using chained_prev [of l ps p qs] by (auto simp: rep_def)
  with True show ?thesis
    by (simp add: update_node_position_def set_ok(4) rep_init_llist)
next
  case False
  from assms(1,2) have ch: "chained l (ps @ p # qs)" and x: "stored l p x" and ps: "ps \<noteq> []"
    using False by (auto simp: rep_def list_all2_append)
  obtain nd where nd: "heap l p = Some nd" "lprev nd = Some (List.last ps)"
    using chained_prev [OF ch] ps by auto
  from place_of [OF assms False] obtain k where
    k: "place_loop n a l (rank a x) (Some (List.last ps)) = Some (ret k)"
      "k = None \<longleftrightarrow> (\<forall>u\<in>set us. rank a u < rank a x)"
    by blast
  have run: "update_node_position n a (init_llist l) (Some p) = Some (
      if_io (if k \<noteq> None then bind_io (deref l k) (\<lambda>pd. ret (lnext pd = Some p)) else ret (Some p = lhead (init_llist l)))
        (ret (init_llist l)) (bind_io (unlink (init_llist l) (Some p)) (\<lambda>l1. relink l1 (Some p) k)))"
    by (simp only: update_node_position_def deref_init set_ok(4) [OF nd(1)] bind_fuel_ret nd(2) option.distinct
        if_False order_init get_nodes_order_ok [OF x assms(4)] place_loop_init k(1) option.map bind_ret)
  obtain l1 where l1: "unlink l (Some p) = ret l1" using unlink_chained [of l ps p qs] ch ps by auto
  show ?thesis
  proof (cases k)
    case None
    have "relink (init_llist l1) (Some p) None = stop (Fault NullPointer)"
      by (simp add: relink_def init_llist_def set_prev_def set_node_def deref_def)
    then have "bind_io (unlink (init_llist l) (Some p)) (\<lambda>l1. relink l1 (Some p) None) = stop (Fault NullPointer)"
      by (simp add: unlink_init l1)
    moreover have "lhead (init_llist l) = None" by (simp add: init_llist_def)
    ultimately have "if_io (ret (Some p = lhead (init_llist l))) (ret (init_llist l))
        (bind_io (unlink (init_llist l) (Some p)) (\<lambda>l1. relink l1 (Some p) k)) = stop (Fault NullPointer)"
      using None by simp
    with run None k(2) False show ?thesis by simp
  next
    case (Some q)
    obtain l2 where l2: "update_node_position n a l (Some p) = Some (ret l2)"
      using update_node_position_refines [OF assms] by auto
    have "update_node_position n a l (Some p) = Some (
        if_io (bind_io (deref l k) (\<lambda>pd. ret (lnext pd = Some p))) (ret l)
          (bind_io (unlink l (Some p)) (\<lambda>l1. relink l1 (Some p) k)))"
      using Some
      by (simp add: update_node_position_def set_ok(4) [OF nd(1)] nd(2)
        get_nodes_order_ok [OF x assms(4)] k(1))
    with l2 l1 Some have "if_io (bind_io (deref l k) (\<lambda>pd. ret (lnext pd = Some p))) (ret l)
        (relink l1 (Some p) (Some q)) = ret l2" by simp
    then have "if_io (bind_io (deref l k) (\<lambda>pd. ret (lnext pd = Some p))) (ret (init_llist l))
        (then_reset (relink l1 (Some p) (Some q))) = ret (init_llist l2)"
      by - (rule deref_cases [of l k], auto simp: if_io_stop split: if_splits)
    with run l1 Some k(2) show ?thesis by (auto simp: unlink_init relink_init rep_init_llist)
  qed
qed

section \<open>The insertion\<close>

lemma set_data_init: "set_data (init_llist l) p c = then_reset (set_data l p c)"
  by (simp add: set_data_def set_node_init)

lemma reset_if_cases: obtains "reset_if a b = init_llist" | "reset_if a b = (\<lambda>l. l)"
  by (cases "b \<and> cumulative a = 0") (auto simp: reset_if_def fun_eq_iff)

lemma reset_if_ok [simp]:
  "deref (reset_if a b l) p = deref l p"
  "set_data (reset_if a b l) p c = bind_io (set_data l p c) (\<lambda>l. ret (reset_if a b l))"
  by (rule reset_if_cases [of a b]; simp add: set_data_init)+

lemma reset_once: "early \<or> late \<Longrightarrow> cumulative a = 0 \<Longrightarrow> reset_if a late (reset_if a early l) = init_llist l"
  by (auto simp: reset_if_def init_llist_def)

lemma interrupted_result:
  assumes "rep l ps cs" and "length ps < n" and "interval a \<noteq> 0" and "early \<or> late" and "cumulative a = 0"
  shows "if overtakes a c cs then insert_interrupted early late n a c l = Some (stop (Fault NullPointer))
    else \<exists>l'. insert_interrupted early late n a c l = Some (ret l') \<and> rep l' [] []"
  using insert_spec_split [of cs c a "[]"]
proof (elim disjE exE conjE)
  assume no: "\<forall>d\<in>set cs. \<not> compare_communications c (Some d)"
  from get_node_new [OF assms(1,2) no] obtain l1 x nd where
    1: "get_node n c l = Some (ret (x, l1))" "heap l1 x = Some nd" "ldata nd = None"
    by auto
  then show ?thesis
    by (simp add: overtakes_miss [OF no] insert_interrupted_def set_ok(3,4) [OF 1(2)] reset_once [OF assms(4,5)]
        rep_init_llist)
next
  fix us d vs
  assume cs: "cs = us @ d # vs" and no: "\<forall>u\<in>set us. \<not> compare_communications c (Some u)"
    and hit: "compare_communications c (Some d)"
  from assms(1) cs obtain qs p rs where ps: "ps = qs @ p # rs" "list_all2 (stored l) qs us" "stored l p d"
      "list_all2 (stored l) rs vs"
    by (auto simp: rep_def list_all2_append2 list_all2_Cons2)
  note len = list_all2_lengthD [OF ps(2)]
  from ps(3) obtain nd where nd: "heap l p = Some nd" "ldata nd = Some d" "p < fresh l" by (rule stored_node)
  have get: "get_node n c l = Some (ret (p, l))"
    using assms(1,2) cs ps(1) len no hit by (intro get_node_old) auto
  from set_data_rep [of l qs p rs us vs nd "add_communications d c"] assms(1) ps nd obtain l1 where
    l1: "set_data l (Some p) (add_communications d c) = ret l1"
      "rep l1 (qs @ p # rs) (us @ add_communications d c # vs)"
    by (auto simp: rep_def)
  have "insert_interrupted early late n a c l = update_node_position n a (init_llist l1) (Some p)"
    by (simp add: insert_interrupted_def get set_ok(4) [OF nd(1)] nd(2) l1(1) reset_once [OF assms(4,5)])
  with update_after_reset [OF l1(2) len _ assms(3), of n] assms(2) ps(1) show ?thesis
    by (simp add: cs overtakes_hit [OF no hit])
qed

text \<open>
  C18. What the reset outside the mutex does to an insertion, at either place or at both: if the packet's entry
  would pass all entries before it, \<open>update_node_position\<close> follows the null head of the new list;
  otherwise the program goes on, and the packet is in no table: the new list is empty. Without a
  reset the definition is \<open>insert_communication\<close> itself.
\<close>

theorem reset_race:
  assumes "rep l ps cs" and "length ps < n" and "interval a \<noteq> 0" and "early \<or> late" and "cumulative a = 0"
  shows "insert_interrupted False False = insert_communication \<and>
    (if overtakes a c cs then insert_interrupted early late n a c l = Some (stop (Fault NullPointer))
     else (\<exists>l'. insert_interrupted early late n a c l = Some (ret l') \<and> rep l' [] []))"
  by (rule conjI [OF insert_not_interrupted interrupted_result [OF assms]])

definition two_entries :: llist where
  "two_entries =
     \<lparr>heap = [0 \<mapsto> \<lparr>ldata = Some (sample_entry 8), lnext = Some 1, lprev = None\<rparr>,
             1 \<mapsto> \<lparr>ldata = Some (sample_entry 9), lnext = None, lprev = Some 0\<rparr>],
      lhead = Some 0, fresh = 2\<rparr>"

text \<open>Another packet of the second of two flows, and the display thread in the middle of it.\<close>

theorem reset_race_witness:
  "insert_interrupted False True 3 (sample_args\<lparr>cumulative := 0\<rparr>) (sample_entry 9) two_entries = Some (stop (Fault NullPointer))"
proof -
  have "rep two_entries [0, 1] [sample_entry 8, sample_entry 9]"
    by (simp add: rep_def chained_def stored_def two_entries_def)
  moreover have "overtakes (sample_args\<lparr>cumulative := 0\<rparr>) (sample_entry 9) [sample_entry 8, sample_entry 9]"
    by (simp add: overtakes_def sample_entry_def init_communication_def show_nat.simps digit_char_def add_communications_def
        rank_def sample_args_def)
  ultimately show ?thesis
    using reset_race [of two_entries "[0, 1]" "[sample_entry 8, sample_entry 9]" 3 "sample_args\<lparr>cumulative := 0\<rparr>" False True "sample_entry 9"]
    by (simp add: sample_args_def)
qed

end
