(* ===== verification/Chat_Base.thy ===== *)
theory Chat_Base
  imports Format
begin

unbundle bit_operations_syntax

text \<open>
  \<open>ipk/1\<close>, a chat client: what its parts share. Characters are bytes, read as \<open>signed char\<close> where they
  become an \<open>int\<close>. A string that was built inside the program is the list of its characters; a
  buffer that comes from outside keeps its size and its uninitialised cells.
\<close>

section \<open>Events\<close>

datatype chat_event =
    Print "u8 list" | PrintErr "u8 list"
  | SendTo "16 word" "u8 list" | SendTcp "u8 list"
  | CloseSocket | CloseStdin

type_synonym 'a chat_io = "(chat_event, 'a) io"

definition bytes_of :: "string \<Rightarrow> u8 list" where
  "bytes_of s = map of_char s"

definition emits :: "chat_event list \<Rightarrow> unit chat_io" where
  "emits es = (Inr (), es)"

section \<open>Strings in buffers\<close>

text \<open>The string at an address of a buffer.\<close>

fun read_cstr :: "u8 option list \<Rightarrow> u8 list chat_io" where
  "read_cstr [] = stop (Fault OutOfBounds)"
| "read_cstr (None # r) = stop (Fault Uninitialised)"
| "read_cstr (Some b # r) = (if b = 0 then ret [] else bind_io (read_cstr r) (\<lambda>s. ret (b # s)))"

definition cstring_at :: "u8 option list \<Rightarrow> nat \<Rightarrow> u8 list chat_io" where
  "cstring_at buf i = read_cstr (drop i buf)"

lemma read_cstr_ok: "0 \<notin> set s \<Longrightarrow> read_cstr (map Some s @ Some 0 # r) = ret s"
  by (induction s) auto

lemma read_cstr_unterminated: "0 \<notin> set s \<Longrightarrow> read_cstr (map Some s @ None # r) = stop (Fault Uninitialised)"
  by (induction s) auto

lemma read_cstr_events: "snd (read_cstr buf) = []"
  by (induction buf rule: read_cstr.induct) (auto simp: bind_io_def split: sum.splits)

section \<open>Splitting strings\<close>

text \<open>
  \<open>strtok\<close>: the next token and the string that the next call goes on with. There is no token (the null
  pointer) where nothing but delimiters is left.
\<close>

definition strtok :: "u8 list \<Rightarrow> u8 list \<Rightarrow> u8 list option \<times> u8 list" where
  "strtok delims s =
     (let t = dropWhile (\<lambda>c. c \<in> set delims) s; u = takeWhile (\<lambda>c. c \<notin> set delims) t in
      if t = [] then (None, []) else (Some u, drop (Suc (length u)) t))"

lemma strtok_length:
  assumes "strtok delims s = (Some u, r)"
  shows "length u + length r \<le> length s" and "length r + length u < length s \<or> r = []" and "u \<noteq> []"
proof -
  let ?t = "dropWhile (\<lambda>c. c \<in> set delims) s"
  from assms have t: "?t \<noteq> []" "u = takeWhile (\<lambda>c. c \<notin> set delims) ?t" "r = drop (Suc (length u)) ?t"
    by (auto simp: strtok_def Let_def split: if_splits)
  have "length u \<le> length ?t" unfolding t(2) by (rule length_takeWhile_le)
  moreover have "length ?t \<le> length s" by (rule length_dropWhile_le)
  ultimately show "length u + length r \<le> length s" "length r + length u < length s \<or> r = []"
    using t(3) by auto
  have "hd ?t \<notin> set delims" using hd_dropWhile [OF t(1)] by simp
  with t show "u \<noteq> []" by (cases ?t) auto
qed

lemma strtok_token:
  assumes "set u \<inter> set delims = {}" and "u \<noteq> []" and "d \<in> set delims"
  shows "strtok delims (u @ d # r) = (Some u, r)" and "strtok delims u = (Some u, [])"
proof -
  obtain a v where u: "u = a # v" using assms(2) by (cases u) auto
  then have a: "a \<notin> set delims" using assms(1) by auto
  have d: "dropWhile (\<lambda>c. c \<in> set delims) (u @ x) = u @ x" for x using u a by simp
  have t2: "takeWhile (\<lambda>c. c \<notin> set delims) u = u" using assms(1) by (auto simp: takeWhile_eq_all_conv)
  have t1: "takeWhile (\<lambda>c. c \<notin> set delims) (u @ d # r) = u"
    using assms(1,3) by (subst takeWhile_append2) auto
  show "strtok delims (u @ d # r) = (Some u, r)" using assms(2) d [of "d # r"] t1 by (simp add: strtok_def Let_def)
  show "strtok delims u = (Some u, [])" using assms(2) d [of "[]"] by (simp only: strtok_def Let_def d [of "[]", simplified] t2) simp
qed

end
