(* ===== verification/Chat_Codec.thy ===== *)
theory Chat_Codec
  imports Chat_Base
begin

text \<open>
  \<open>udp_handler.c\<close> without its sockets: building and reading the messages of the UDP variant, and the
  array of the message ids that were received.
\<close>

section \<open>Building messages\<close>

primrec put_string :: "u8 option list \<Rightarrow> int \<Rightarrow> u8 list \<Rightarrow> (u8 option list \<times> int) chat_io" where
  "put_string m i [] = ret (m, i)"
| "put_string m i (c # cs) = bind_io (arr_set m i c) (\<lambda>m'. put_string m' (i + 1) cs)"

text \<open>A string and its terminating zero.\<close>

definition put_field :: "u8 option list \<Rightarrow> int \<Rightarrow> u8 list \<Rightarrow> (u8 option list \<times> int) chat_io" where
  "put_field m i s =
     bind_io (put_string m i s) (\<lambda>(m', j). bind_io (arr_set m' j 0) (\<lambda>m''. ret (m'', j + 1)))"

definition put_head :: "u8 option list \<Rightarrow> u8 \<Rightarrow> u8 \<times> u8 \<Rightarrow> u8 option list chat_io" where
  "put_head m t i =
     bind_io (arr_set m 0 t) (\<lambda>m. bind_io (arr_set m 1 (fst i)) (\<lambda>m. arr_set m 2 (snd i)))"

text \<open>\<open>ref >> 8\<close> rounds down, and both bytes are cut to a character.\<close>

definition construct_confirm_udp :: "u8 option list \<Rightarrow> int \<Rightarrow> (u8 option list \<times> int) chat_io" where
  "construct_confirm_udp m ref =
     bind_io (arr_set m 0 0x00) (\<lambda>m.
     bind_io (arr_set m 1 (word_of_int (ref div 256))) (\<lambda>m.
     bind_io (arr_set m 2 (word_of_int (ref mod 256))) (\<lambda>m. ret (m, 3))))"

definition construct_reply_udp ::
  "u8 option list \<Rightarrow> u8 \<times> u8 \<Rightarrow> u8 \<Rightarrow> u8 \<times> u8 \<Rightarrow> u8 list \<Rightarrow> (u8 option list \<times> int) chat_io" where
  "construct_reply_udp m i result ref content =
     bind_io (put_head m 0x01 i) (\<lambda>m.
     bind_io (arr_set m 3 result) (\<lambda>m.
     bind_io (arr_set m 4 (fst ref)) (\<lambda>m.
     bind_io (arr_set m 5 (snd ref)) (\<lambda>m. put_field m 6 content))))"

definition construct_auth_udp ::
  "u8 option list \<Rightarrow> u8 \<times> u8 \<Rightarrow> u8 list \<Rightarrow> u8 list \<Rightarrow> u8 list \<Rightarrow> (u8 option list \<times> int) chat_io" where
  "construct_auth_udp m i username display_name password =
     bind_io (put_head m 0x02 i) (\<lambda>m.
     bind_io (put_field m 3 username) (\<lambda>(m, j).
     bind_io (put_field m j display_name) (\<lambda>(m, k). put_field m k password)))"

text \<open>The channel may be the null pointer; its length is then taken from it.\<close>

definition construct_join_udp ::
  "u8 option list \<Rightarrow> u8 \<times> u8 \<Rightarrow> u8 list option \<Rightarrow> u8 list \<Rightarrow> (u8 option list \<times> int) chat_io" where
  "construct_join_udp m i channel display_name =
     bind_io (put_head m 0x03 i) (\<lambda>m.
       case channel of
         None \<Rightarrow> stop (Fault NullPointer)
       | Some c \<Rightarrow> bind_io (put_field m 3 c) (\<lambda>(m, j). put_field m j display_name))"

definition construct_msg_udp ::
  "u8 option list \<Rightarrow> u8 \<times> u8 \<Rightarrow> u8 list \<Rightarrow> u8 list \<Rightarrow> (u8 option list \<times> int) chat_io" where
  "construct_msg_udp m i display_name content =
     bind_io (put_head m 0x04 i) (\<lambda>m.
     bind_io (put_field m 3 display_name) (\<lambda>(m, j). put_field m j content))"

definition construct_err_udp ::
  "u8 option list \<Rightarrow> u8 \<times> u8 \<Rightarrow> u8 list \<Rightarrow> u8 list \<Rightarrow> (u8 option list \<times> int) chat_io" where
  "construct_err_udp m i display_name content =
     bind_io (put_head m 0xFE i) (\<lambda>m.
     bind_io (put_field m 3 display_name) (\<lambda>(m, j). put_field m j content))"

definition construct_bye_udp :: "u8 option list \<Rightarrow> u8 \<times> u8 \<Rightarrow> (u8 option list \<times> int) chat_io" where
  "construct_bye_udp m i = bind_io (put_head m 0xFF i) (\<lambda>m. ret (m, 3))"

section \<open>Reading messages\<close>

text \<open>\<open>(a << 8) | b\<close> on signed characters, which are extended to \<open>int\<close> before the shift.\<close>

definition id_int :: "u8 \<Rightarrow> u8 \<Rightarrow> int" where
  "id_int a b = sint (push_bit 8 (scast a :: 32 word) OR (scast b :: 32 word))"

definition get_id :: "u8 option list \<Rightarrow> int \<Rightarrow> int chat_io" where
  "get_id buf i = bind_io (arr_get buf i) (\<lambda>a. bind_io (arr_get buf (i + 1)) (\<lambda>b. ret (id_int a b)))"

text \<open>Strings inside a response are pointers into the buffer, here its indices.\<close>

record ReplyResponseUDP =
  reply_message_id :: int
  reply_result :: int
  reply_ref_message_id :: int
  reply_content :: nat

record MessageResponseUDP =
  msg_message_id :: int
  msg_display_name :: nat
  msg_content :: nat

record ErrResponseUDP =
  err_message_id :: int
  err_display_name :: nat
  err_content :: nat

definition processReplyCmdUDP :: "u8 option list \<Rightarrow> ReplyResponseUDP chat_io" where
  "processReplyCmdUDP buf =
     bind_io (get_id buf 1) (\<lambda>i. bind_io (arr_get buf 3) (\<lambda>r. bind_io (get_id buf 4) (\<lambda>ref.
       ret \<lparr>reply_message_id = i, reply_result = sint r, reply_ref_message_id = ref, reply_content = 6\<rparr>)))"

definition processMsgCmdUDP :: "u8 option list \<Rightarrow> MessageResponseUDP chat_io" where
  "processMsgCmdUDP buf =
     bind_io (get_id buf 1) (\<lambda>i. bind_io (cstring_at buf 3) (\<lambda>name.
       ret \<lparr>msg_message_id = i, msg_display_name = 3, msg_content = 4 + length name\<rparr>))"

definition processErrCmdUDP :: "u8 option list \<Rightarrow> ErrResponseUDP chat_io" where
  "processErrCmdUDP buf =
     bind_io (get_id buf 1) (\<lambda>i. bind_io (cstring_at buf 3) (\<lambda>name.
       ret \<lparr>err_message_id = i, err_display_name = 3, err_content = 4 + length name\<rparr>))"

definition processMessageID :: "u8 option list \<Rightarrow> (u8 \<times> u8) chat_io" where
  "processMessageID buf = bind_io (arr_get buf 1) (\<lambda>a. bind_io (arr_get buf 2) (\<lambda>b. ret (a, b)))"

section \<open>Received ids\<close>

record received =
  ids :: "(u8 \<times> u8) option list"
  ids_index :: int

primrec check_ids :: "nat \<Rightarrow> (u8 \<times> u8) option list \<Rightarrow> int \<Rightarrow> u8 \<times> u8 \<Rightarrow> bool chat_io" where
  "check_ids 0 xs i x = ret False"
| "check_ids (Suc n) xs i x = bind_io (arr_get xs i) (\<lambda>y. if y = x then ret True else check_ids n xs (i + 1) x)"

definition check_received_message_id :: "received \<Rightarrow> u8 \<times> u8 \<Rightarrow> bool chat_io" where
  "check_received_message_id r x = check_ids (nat (ids_index r)) (ids r) 0 x"

definition add_received_message_id :: "received \<Rightarrow> u8 \<times> u8 \<Rightarrow> received chat_io" where
  "add_received_message_id r x =
     bind_io (arr_set (ids r) (ids_index r) x) (\<lambda>xs. ret (r\<lparr>ids := xs, ids_index := ids_index r + 1\<rparr>))"

definition processConfirmCmdUDP :: "u8 option list \<Rightarrow> received \<Rightarrow> (int \<times> received) chat_io" where
  "processConfirmCmdUDP buf r =
     bind_io (get_id buf 1) (\<lambda>ref.
     bind_io (arr_get buf 1) (\<lambda>a. bind_io (arr_get buf 2) (\<lambda>b.
     bind_io (add_received_message_id r (a, b)) (\<lambda>r'. ret (ref, r')))))"

definition no_ids :: received where
  "no_ids = \<lparr>ids = replicate 100 (Some (0, 0)), ids_index = 0\<rparr>"

section \<open>Lemmas\<close>

lemma arr_set_append:
  "length xs = i \<Longrightarrow> arr_set (xs @ y # ys) (int i) c = ret (xs @ Some c # ys)"
  by (simp add: arr_set_def list_update_append)

lemma put_string_ok:
  assumes "length xs = i" and "length s \<le> length ys"
  shows "put_string (xs @ ys) (int i) s = ret (xs @ map Some s @ drop (length s) ys, int (i + length s))"
  using assms
proof (induction s arbitrary: xs ys i)
  case (Cons c s)
  then obtain y zs where ys: "ys = y # zs" "length s \<le> length zs" by (cases ys) auto
  from Cons.IH [of "xs @ [Some c]" "Suc i" zs] Cons.prems ys show ?case
    by (simp add: list_update_append add.commute)
qed simp

lemma put_field_ok:
  assumes "length xs = i" and "length s < length ys"
  shows "put_field (xs @ ys) (int i) s =
    ret (xs @ map Some (s @ [0]) @ drop (Suc (length s)) ys, int (i + Suc (length s)))"
proof -
  obtain z zs where "drop (length s) ys = z # zs" using assms(2) by (cases "drop (length s) ys") auto
  moreover from this have "drop (Suc (length s)) ys = zs" by (metis drop_Suc tl_drop drop_Suc_Cons list.sel(3))
  ultimately show ?thesis
    using put_string_ok [OF assms(1), of s ys] assms arr_set_append [of "xs @ map Some s" "i + length s" z zs 0]
    by (simp add: put_field_def)
qed

lemma put_field_overflow:
  assumes "length xs = i" and "length ys \<le> length s"
  shows "put_field (xs @ ys) (int i) s = stop (Fault OutOfBounds)"
  using assms
proof (induction s arbitrary: xs ys i)
  case Nil
  then show ?case by (simp add: put_field_def arr_set_def)
next
  case (Cons c s)
  show ?case
  proof (cases ys)
    case Nil
    with Cons.prems show ?thesis by (simp add: put_field_def arr_set_def)
  next
    case (Cons y zs)
    with Cons.IH [of "xs @ [Some c]" "Suc i" zs] Cons.prems show ?thesis
      by (simp add: put_field_def list_update_append add.commute)
  qed
qed

lemma put_field_eq:
  assumes "length xs = i"
  shows "put_field (xs @ ys) (int i) s =
    (if length s < length ys
     then ret (xs @ map Some (s @ [0]) @ drop (Suc (length s)) ys, int (i + Suc (length s)))
     else stop (Fault OutOfBounds))"
  using put_field_ok [OF assms] put_field_overflow [OF assms] by simp

text \<open>The bytes of a message: type, id and fields.\<close>

definition fields_bytes :: "u8 list list \<Rightarrow> u8 list" where
  "fields_bytes fs = concat (map (\<lambda>s. s @ [0]) fs)"

definition msg_bytes :: "u8 \<Rightarrow> u8 \<times> u8 \<Rightarrow> u8 list list \<Rightarrow> u8 list" where
  "msg_bytes t i fs = [t, fst i, snd i] @ fields_bytes fs"

text \<open>A buffer that starts with some bytes, and the number of these.\<close>

definition built :: "u8 option list \<Rightarrow> u8 list \<Rightarrow> (u8 option list \<times> int) chat_io" where
  "built m s =
     (if length s \<le> length m then ret (map Some s @ drop (length s) m, int (length s))
      else stop (Fault OutOfBounds))"

lemma put_head_eq:
  "put_head m t i = (if 3 \<le> length m then ret (map Some [t, fst i, snd i] @ drop 3 m) else stop (Fault OutOfBounds))"
proof (cases "3 \<le> length m")
  case True
  then obtain a b c r where "m = a # b # c # r"
    by (metis Suc_le_length_iff numeral_3_eq_3)
  then show ?thesis by (simp add: put_head_def)
next
  case False
  then have "length m = 0 \<or> length m = 1 \<or> length m = 2" by linarith
  then consider "m = []" | a where "m = [a]" | a b where "m = [a, b]"
    by (auto simp: length_Suc_conv numeral_2_eq_2)
  then show ?thesis by cases (simp_all add: put_head_def arr_set_def)
qed

lemma put_fields_eq:
  assumes "length xs = i"
  shows "bind_io (put_field (map Some xs @ ys) (int i) s) (\<lambda>(m, j). put_field m j t) =
      (if length s + length t + 2 \<le> length ys
       then ret (map Some (xs @ fields_bytes [s, t]) @ drop (length (fields_bytes [s, t])) ys,
                 int (length (xs @ fields_bytes [s, t])))
       else stop (Fault OutOfBounds))"
  using assms put_field_eq [of "map Some xs" i ys s]
    put_field_eq [of "map Some (xs @ s @ [0])" "i + Suc (length s)" "drop (Suc (length s)) ys" t]
  by (auto simp: fields_bytes_def add.commute add.left_commute drop_drop)

lemma construct_two_fields:
  "bind_io (put_head m t i) (\<lambda>m. bind_io (put_field m 3 s) (\<lambda>(m, j). put_field m j u)) =
     built m (msg_bytes t i [s, u])"
  using put_fields_eq [of "[t, fst i, snd i]" 3 "drop 3 m" s u]
  by (auto simp: put_head_eq built_def msg_bytes_def fields_bytes_def numeral_eq_Suc)

lemma construct_msg_eq: "construct_msg_udp m i d c = built m (msg_bytes 0x04 i [d, c])"
  and construct_err_eq: "construct_err_udp m i d c = built m (msg_bytes 0xFE i [d, c])"
  and construct_join_eq: "construct_join_udp m i (Some ch) d = built m (msg_bytes 0x03 i [ch, d])"
  unfolding construct_msg_udp_def construct_err_udp_def construct_join_udp_def option.case
  by (rule construct_two_fields)+

lemma construct_auth_eq: "construct_auth_udp m i u d p = built m (msg_bytes 0x02 i [u, d, p])"
proof -
  let ?h = "[2, fst i, snd i] :: u8 list"
  have "bind_io (put_field (map Some ?h @ drop 3 m) 3 u) (\<lambda>(m, j). bind_io (put_field m j d) (\<lambda>(m, k). put_field m k p)) =
      built m (msg_bytes 2 i [u, d, p])" if "3 \<le> length m"
    using that put_field_eq [of "map Some ?h" 3 "drop 3 m" u]
      put_fields_eq [of "?h @ u @ [0]" "Suc (length u) + 3" "drop (Suc (length u)) (drop 3 m)" d p]
    by (auto simp: built_def msg_bytes_def fields_bytes_def drop_drop add.commute add.left_commute numeral_eq_Suc)
  then show ?thesis
    by (auto simp: construct_auth_udp_def put_head_eq built_def msg_bytes_def)
qed

lemma construct_bye_eq: "construct_bye_udp m i = built m (msg_bytes 0xFF i [])"
  by (auto simp: construct_bye_udp_def put_head_eq built_def msg_bytes_def fields_bytes_def numeral_eq_Suc)

section \<open>Round trips\<close>

lemma arr_get_head:
  "arr_get (a # b # m) 1 = (case b of None \<Rightarrow> stop (Fault Uninitialised) | Some x \<Rightarrow> ret x)"
  "arr_get (a # b # c # m) 2 = (case c of None \<Rightarrow> stop (Fault Uninitialised) | Some x \<Rightarrow> ret x)"
  "arr_get (a # b # c # d # m) 3 = (case d of None \<Rightarrow> stop (Fault Uninitialised) | Some x \<Rightarrow> ret x)"
  "arr_get (a # b # c # d # e # m) 4 = (case e of None \<Rightarrow> stop (Fault Uninitialised) | Some x \<Rightarrow> ret x)"
  "arr_get (a # b # c # d # e # f # m) 5 = (case f of None \<Rightarrow> stop (Fault Uninitialised) | Some x \<Rightarrow> ret x)"
  by (simp_all add: arr_get_def split: option.splits)

lemma process_msg_built:
  assumes "0 \<notin> set d" and "0 \<notin> set c"
  shows "processMsgCmdUDP (map Some (msg_bytes 0x04 i [d, c]) @ rest) =
      ret \<lparr>msg_message_id = id_int (fst i) (snd i), msg_display_name = 3, msg_content = 4 + length d\<rparr>"
    and "processErrCmdUDP (map Some (msg_bytes 0xFE i [d, c]) @ rest) =
      ret \<lparr>err_message_id = id_int (fst i) (snd i), err_display_name = 3, err_content = 4 + length d\<rparr>"
    and "cstring_at (map Some (msg_bytes t i [d, c]) @ rest) 3 = ret d"
    and "cstring_at (map Some (msg_bytes t i [d, c]) @ rest) (4 + length d) = ret c"
proof -
  show name: "cstring_at (map Some (msg_bytes t i [d, c]) @ rest) 3 = ret d" for t
    using read_cstr_ok [OF assms(1)] by (simp add: cstring_at_def msg_bytes_def fields_bytes_def)
  have "drop (4 + length d) (map Some (msg_bytes t i [d, c]) @ rest) = map Some c @ Some 0 # rest"
    by (simp add: msg_bytes_def fields_bytes_def numeral_eq_Suc)
  then show "cstring_at (map Some (msg_bytes t i [d, c]) @ rest) (4 + length d) = ret c"
    using read_cstr_ok [OF assms(2)] by (simp add: cstring_at_def)
  show "processMsgCmdUDP (map Some (msg_bytes 0x04 i [d, c]) @ rest) =
      ret \<lparr>msg_message_id = id_int (fst i) (snd i), msg_display_name = 3, msg_content = 4 + length d\<rparr>"
    by (simp add: processMsgCmdUDP_def name) (simp add: get_id_def msg_bytes_def arr_get_head)
  show "processErrCmdUDP (map Some (msg_bytes 0xFE i [d, c]) @ rest) =
      ret \<lparr>err_message_id = id_int (fst i) (snd i), err_display_name = 3, err_content = 4 + length d\<rparr>"
    by (simp add: processErrCmdUDP_def name) (simp add: get_id_def msg_bytes_def arr_get_head)
qed

section \<open>Signed ids\<close>

text \<open>What is left of an id when it is sent back: a low byte from 128 on fills the high byte with ones.\<close>

definition echo_high :: "u8 \<Rightarrow> u8 \<Rightarrow> u8" where
  "echo_high a b = (if bit b 7 then 0xFF else a)"

lemma below8: "n < 8 \<Longrightarrow> 7 \<le> n \<Longrightarrow> n = (7 :: nat)"
  by simp

lemma id_int_low: "word_of_int (id_int a b mod 256) = b"
proof -
  have "word_of_int (id_int a b mod 256) = (word_of_int (take_bit 8 (id_int a b)) :: u8)"
    by (simp add: take_bit_eq_mod)
  also have "\<dots> = b"
    by (rule bit_word_eqI)
      (auto simp: id_int_def bit_word_of_int_iff bit_take_bit_iff bit_sint_iff bit_or_iff bit_push_bit_iff
        bit_signed_iff min_def dest: below8)
  finally show ?thesis .
qed

lemma id_int_high: "word_of_int (id_int a b div 256) = echo_high a b"
proof -
  have "word_of_int (id_int a b div 256) = (word_of_int (drop_bit 8 (id_int a b)) :: u8)"
    by (simp add: drop_bit_eq_div)
  also have "\<dots> = (if bit b 7 then - 1 else a)"
    by (rule bit_word_eqI)
      (auto simp: id_int_def bit_word_of_int_iff bit_drop_bit_eq bit_sint_iff bit_or_iff bit_push_bit_iff
        bit_signed_iff min_def dest: below8)
  finally show ?thesis by (simp add: echo_high_def)
qed

lemma confirm_echo:
  assumes "3 \<le> length m"
  shows "construct_confirm_udp m (id_int a b) = ret (map Some [0, echo_high a b, b] @ drop 3 m, 3)"
proof -
  obtain x y z r where "m = x # y # z # r" using assms by (metis Suc_le_length_iff numeral_3_eq_3)
  then show ?thesis by (simp add: construct_confirm_udp_def id_int_low id_int_high)
qed

end
