(* ===== verification/Chat_Cli.thy ===== *)
theory Chat_Cli
  imports Chat_Base
begin

text \<open>
  \<open>cli.c\<close>: the arguments of the chat client and the commands that the user types. What \<open>getopt\<close> finds
  in the argument vector is a parameter.
\<close>

section \<open>Arguments\<close>

datatype TransportProtocol = TCP | UDP

record CLIArguments =
  transport_protocol :: "TransportProtocol option"
  server_ip :: "string option"
  server_port :: "16 word"
  udp_timeout :: "16 word"
  udp_retransmissions :: u8

definition DEFAULT_SERVER_PORT :: "16 word" where "DEFAULT_SERVER_PORT = 4567"
definition DEFAULT_UDP_TIMEOUT :: "16 word" where "DEFAULT_UDP_TIMEOUT = 250"

text \<open>An option with its argument, \<open>-h\<close>, and anything else.\<close>

datatype chat_option = Opt char string | Opt_h | Opt_other

definition to_lower :: "char \<Rightarrow> char" where
  "to_lower c = (if 65 \<le> (of_char c :: nat) \<and> (of_char c :: nat) \<le> 90 then char_of ((of_char c :: nat) + 32) else c)"

definition strcaseeq :: "string \<Rightarrow> string \<Rightarrow> bool" where
  "strcaseeq s t \<longleftrightarrow> map to_lower s = map to_lower t"

definition usage :: "string \<Rightarrow> u8 list" where
  "usage prog = bytes_of (''Usage: '' @ prog @
     '' -t <tcp|udp> -s <server_ip> -p <server_port> -d <udp_timeout> -r <udp_retransmissions> -h'' @ [CHR 0x0A])"

text \<open>The \<open>int\<close> of \<open>atoi\<close> is cut to the width of the field.\<close>

fun cli_option :: "string \<Rightarrow> CLIArguments \<Rightarrow> chat_option \<Rightarrow> CLIArguments chat_io" where
  "cli_option prog a (Opt c arg) =
     (if c = CHR ''t'' then
        (if strcaseeq arg ''tcp'' then ret (a\<lparr>transport_protocol := Some TCP\<rparr>)
         else if strcaseeq arg ''udp'' then ret (a\<lparr>transport_protocol := Some UDP\<rparr>)
         else ret a)
      else if c = CHR ''s'' then ret (a\<lparr>server_ip := Some arg\<rparr>)
      else if c = CHR ''p'' then bind_io (atoi arg) (\<lambda>n. ret (a\<lparr>server_port := word_of_int n\<rparr>))
      else if c = CHR ''d'' then bind_io (atoi arg) (\<lambda>n. ret (a\<lparr>udp_timeout := word_of_int n\<rparr>))
      else if c = CHR ''r'' then bind_io (atoi arg) (\<lambda>n. ret (a\<lparr>udp_retransmissions := word_of_int n\<rparr>))
      else bind_io (emit (PrintErr (usage prog))) (\<lambda>_. stop (Exit 1)))"
| "cli_option prog a Opt_h = bind_io (emit (Print (usage prog))) (\<lambda>_. stop (Exit 0))"
| "cli_option prog a Opt_other = bind_io (emit (PrintErr (usage prog))) (\<lambda>_. stop (Exit 1))"

primrec cli_options :: "string \<Rightarrow> chat_option list \<Rightarrow> CLIArguments \<Rightarrow> CLIArguments chat_io" where
  "cli_options prog [] a = ret a"
| "cli_options prog (opt # opts) a = bind_io (cli_option prog a opt) (cli_options prog opts)"

definition default_args :: CLIArguments where
  "default_args = \<lparr>transport_protocol = None, server_ip = None, server_port = DEFAULT_SERVER_PORT,
     udp_timeout = DEFAULT_UDP_TIMEOUT, udp_retransmissions = 3\<rparr>"

definition get_cli_arguments :: "string \<Rightarrow> chat_option list \<Rightarrow> CLIArguments chat_io" where
  "get_cli_arguments prog opts =
     bind_io (cli_options prog opts default_args) (\<lambda>a.
       if transport_protocol a = None \<or> server_ip a = None
       then bind_io (emit (PrintErr (usage prog))) (\<lambda>_. stop (Exit 1))
       else if server_port a < 1024
       then bind_io (emit (PrintErr (bytes_of (''Invalid server port. Must be in range 1024 - 65535.'' @ [CHR 0x0A]))))
         (\<lambda>_. stop (Exit 1))
       else ret a)"

section \<open>Commands\<close>

datatype UserCommand = AUTHENTICATE | JOIN | RENAME | HELP | MESSAGE | UNKNOWN

definition parse_command :: "u8 list \<Rightarrow> UserCommand" where
  "parse_command s =
     (if take 5 s = bytes_of ''/auth'' then AUTHENTICATE
      else if take 5 s = bytes_of ''/join'' then JOIN
      else if take 7 s = bytes_of ''/rename'' then RENAME
      else if take 5 s = bytes_of ''/help'' then HELP
      else if take 1 s = bytes_of ''/'' then UNKNOWN
      else MESSAGE)"

definition show_help :: "unit chat_io" where
  "show_help = emits (map (\<lambda>s. Print (bytes_of (s @ [CHR 0x0A])))
     [''Available commands:'',
      [CHR 0x09] @ ''/auth <username> <password> <display_name> - authenticate user'',
      [CHR 0x09] @ ''/join <channel_id> - join a chat channel'',
      [CHR 0x09] @ ''/rename <new_display_name> - change display name'',
      [CHR 0x09] @ ''/help - print this help message'',
      [CHR 0x09] @ ''<message> - send a message to the current chat channel''])"

record AuthResponse =
  display_name :: "u8 list option"
  username :: "u8 list option"
  password :: "u8 list option"

definition blank :: "u8 list" where "blank = [32]"

text \<open>The display name is all that is left of the line, up to a newline that is not its first character.\<close>

definition cut_newline :: "u8 list \<Rightarrow> u8 list" where
  "cut_newline s = (let t = takeWhile (\<lambda>c. c \<noteq> 10) s in if t = [] then s else t)"

definition processAuthCmd :: "u8 list \<Rightarrow> AuthResponse" where
  "processAuthCmd line =
     (case strtok blank line of (_, r1) \<Rightarrow>
      case strtok blank r1 of (u, r2) \<Rightarrow>
      case strtok blank r2 of (p, r3) \<Rightarrow>
      case strtok [] r3 of (d, _) \<Rightarrow>
        \<lparr>display_name = map_option cut_newline d, username = u, password = p\<rparr>)"

section \<open>Lemmas\<close>

lemma get_cli_arguments_ok:
  assumes "get_cli_arguments prog opts = (Inr a, w)"
  shows "transport_protocol a \<noteq> None \<and> server_ip a \<noteq> None \<and> 1024 \<le> server_port a"
  using assms by (auto simp: get_cli_arguments_def bind_ok_iff not_less split: if_splits)

lemma length_cut_newline: "length (cut_newline s) \<le> length s"
  by (simp add: cut_newline_def Let_def length_takeWhile_le)

lemma strtok_first_length:
  assumes "strtok delims s = (Some u, r)" and "\<forall>c\<in>set (take n s). c \<notin> set delims" and "0 < n" and "n \<le> length s"
  shows "n \<le> length u"
proof -
  obtain a v where s: "s = a # v" using assms(3,4) by (cases s) auto
  then have "a \<notin> set delims" using assms(2,3) by (cases n) auto
  with assms(1) s have u: "u = takeWhile (\<lambda>c. c \<notin> set delims) s"
    by (auto simp: strtok_def Let_def)
  have "takeWhile (\<lambda>c. c \<notin> set delims) (take n s @ drop n s) = take n s @ takeWhile (\<lambda>c. c \<notin> set delims) (drop n s)"
    using assms(2) by (intro takeWhile_append2) auto
  with u have "u = take n s @ takeWhile (\<lambda>c. c \<notin> set delims) (drop n s)" by simp
  then have "length u = n + length (takeWhile (\<lambda>c. c \<notin> set delims) (drop n s))"
    using assms(4) by simp
  then show ?thesis by simp
qed

text \<open>The three parts of \<open>/auth\<close> fit into the line they come from, beside the command and three blanks.\<close>

lemma processAuthCmd_length:
  assumes "processAuthCmd line = \<lparr>display_name = Some d, username = Some u, password = Some p\<rparr>"
    and "take 5 line = bytes_of ''/auth''"
  shows "length u + length p + length d + 8 \<le> length line"
proof -
  obtain c r1 where 1: "strtok blank line = (c, r1)" by fastforce
  obtain v r2 where 2: "strtok blank r1 = (v, r2)" by fastforce
  obtain q r3 where 3: "strtok blank r2 = (q, r3)" by fastforce
  obtain e r4 where 4: "strtok [] r3 = (e, r4)" by fastforce
  from assms(1) 1 2 3 4 have eq: "v = Some u" "q = Some p" "map_option cut_newline e = Some d"
    by (simp_all add: processAuthCmd_def)
  from eq(3) obtain e' where e: "e = Some e'" "d = cut_newline e'" by auto
  from 4 e(1) have d: "length d \<le> length r3" "r3 \<noteq> []"
    using strtok_length(1) [of "[]" r3 e' r4] length_cut_newline [of e'] e(2)
    by (auto simp: strtok_def split: if_splits)
  from 3 eq(2) d(2) have "length p + length r3 < length r2" using strtok_length(2) [of blank r2 p r3] by auto
  moreover from this 2 eq(1) have "length u + length r2 < length r1" using strtok_length(2) [of blank r1 u r2] by auto
  moreover have "length r1 + 5 < length line"
  proof -
    from calculation have r1: "r1 \<noteq> []" by auto
    with 1 obtain c' where c: "c = Some c'" by (auto simp: strtok_def Let_def split: if_splits)
    have "5 \<le> length line" using arg_cong [OF assms(2), of length] by (simp add: bytes_of_def)
    moreover have "\<forall>c\<in>set (take 5 line). c \<notin> set blank" unfolding assms(2) by code_simp
    ultimately have "5 \<le> length c'" using strtok_first_length [of blank line c' r1 5] 1 c by simp
    with strtok_length(2) [of blank line c' r1] 1 c r1 show ?thesis by simp
  qed
  ultimately show ?thesis using d(1) by linarith
qed

end
