(* ===== verification/Chat_Udp.thy ===== *)
theory Chat_Udp
  imports Chat_Codec Chat_Cli
begin

text \<open>
  \<open>fsm_udp.c\<close> and the sockets of \<open>udp_handler.c\<close>: one call of \<open>fsm_udp\<close> for one event, as a function of
  the global state. What the server sends while a call waits for a confirmation is a stream in
  that state, and so is whether \<open>errno\<close> says that a call would have blocked. Time is not modelled:
  a wait ends as the stream says, whatever its time-out.
\<close>

section \<open>State\<close>

datatype FSMState = START | AUTH | OPEN | ERROR | END

text \<open>How \<open>recv\<close> ends: nothing came in time, another error, or a datagram.\<close>

datatype recv_result = TimedOut | RecvError | Datagram "u8 list"

record udp_state =
  curr_state_u :: FSMState
  message_id :: "u8 \<times> u8"
  received_ids :: received
  DISPLAYNAME :: "u8 list"
  would_block :: bool
  arriving :: "recv_result list"
  errnos :: "bool option list"

definition udp_init :: "bool option list \<Rightarrow> recv_result list \<Rightarrow> udp_state" where
  "udp_init es rs = \<lparr>curr_state_u = START, message_id = (0, 0), received_ids = no_ids, DISPLAYNAME = [],
     would_block = False, arriving = rs, errnos = es\<rparr>"

text \<open>
  The calls between one wait and the next, of which \<open>getaddrinfo\<close> in \<open>get_ip\<close> is the last that may do so,
  leave \<open>errno\<close> alone (\<open>None\<close>) or set it; \<open>errnos\<close> says what each call of \<open>udp_send\<close> finds before its loop.
\<close>

definition find_errno :: "udp_state \<Rightarrow> udp_state" where
  "find_errno s =
     (case errnos s of
        [] \<Rightarrow> s
      | e # es \<Rightarrow> s\<lparr>errnos := es, would_block := (case e of None \<Rightarrow> would_block s | Some b \<Rightarrow> b)\<rparr>)"

text \<open>
  An event of \<open>epoll\<close>: standard input at its end, with nothing to read, or with some bytes; or a datagram at
  the socket and the port it came from.
\<close>

datatype chat_input = StdinEof | StdinAgain | StdinRead "u8 list" | SockRead "16 word" "u8 list"

datatype UDPMessageType = CONFIRM_UDP | REPLY_UDP | AUTH_UDP | JOIN_UDP | MSG_UDP | ERR_UDP | BYE_UDP

fun udp_message_hex :: "UDPMessageType \<Rightarrow> int" where
  "udp_message_hex CONFIRM_UDP = 0x00"
| "udp_message_hex REPLY_UDP = 0x01"
| "udp_message_hex AUTH_UDP = 0x02"
| "udp_message_hex JOIN_UDP = 0x03"
| "udp_message_hex MSG_UDP = 0x04"
| "udp_message_hex ERR_UDP = 0xFE"
| "udp_message_hex BYE_UDP = 0xFF"

section \<open>Sending\<close>

text \<open>
  The second \<open>setsockopt\<close> of \<open>udp_send\<close> asks for \<open>udp_timeout * 1000\<close> microseconds. It refuses
  a second and more of them: it then sets \<open>errno\<close> to \<open>EDOM\<close>, and the time-out stays at \<open>udp_timeout\<close> seconds,
  which the first \<open>setsockopt\<close> has set. A call that succeeds leaves \<open>errno\<close> as it was.
\<close>

definition timeout_accepted :: "16 word \<Rightarrow> bool" where
  "timeout_accepted tmo \<longleftrightarrow> uint tmo * 1000 < 1000000"

text \<open>
  The loop of \<open>udp_send\<close>: after every transmission it waits for one datagram. Only a refused time-out
  resets \<open>errno\<close> before \<open>recv\<close>; transmissions succeed.
\<close>

primrec send_loop ::
  "nat \<Rightarrow> 16 word \<Rightarrow> 16 word \<Rightarrow> u8 list \<Rightarrow> recv_result list \<times> bool \<Rightarrow> (recv_result list \<times> bool) chat_io" where
  "send_loop 0 tmo port data st = stop (Exit 1)"
| "send_loop (Suc n) tmo port data st =
     bind_io (emit (SendTo port data)) (\<lambda>_.
       if hd data = 0 then ret st
       else (case st of (rs, blocked0) \<Rightarrow>
         let blocked = blocked0 \<and> timeout_accepted tmo in
         case rs of
           [] \<Rightarrow> send_loop n tmo port data ([], True)
         | TimedOut # r \<Rightarrow> send_loop n tmo port data (r, True)
         | RecvError # r \<Rightarrow> stop (Fault Uninitialised)
         | Datagram d # r \<Rightarrow>
             if blocked then send_loop n tmo port data (r, blocked)
             else (case d of
                 [] \<Rightarrow> stop (Fault Uninitialised)
               | b # _ \<Rightarrow> if b = 0 then ret (r, blocked) else send_loop n tmo port data (r, blocked))))"

text \<open>
  \<open>resolves\<close>: the server's name has an address (\<open>get_ip\<close>). The first \<open>len\<close> bytes of the buffer are sent.
\<close>

definition buffer_bytes :: "u8 option list \<Rightarrow> int \<Rightarrow> u8 list chat_io" where
  "buffer_bytes m len =
     (if length m < nat len then stop (Fault OutOfBounds)
      else if None \<in> set (take (nat len) m) then stop (Fault Uninitialised)
      else ret (map the (take (nat len) m)))"

definition get_ip_failed :: "'a chat_io" where
  "get_ip_failed = bind_io (emit (PrintErr (bytes_of ''getaddrinfo''))) (\<lambda>_. stop (Exit 1))"

definition udp_send ::
  "bool \<Rightarrow> CLIArguments \<Rightarrow> u8 option list \<times> int \<Rightarrow> udp_state \<Rightarrow> udp_state chat_io" where
  "udp_send resolves args m s =
     (if \<not> resolves then get_ip_failed
      else bind_io (buffer_bytes (fst m) (snd m)) (\<lambda>data.
           let s = find_errno s in
           bind_io (send_loop (unat (udp_retransmissions args)) (udp_timeout args) (server_port args) data
               (arriving s, would_block s)) (\<lambda>st.
             ret (s\<lparr>arriving := fst st, would_block := snd st\<rparr>))))"

definition udp_send2 :: "bool \<Rightarrow> CLIArguments \<Rightarrow> u8 option list \<times> int \<Rightarrow> unit chat_io" where
  "udp_send2 resolves args m =
     (if \<not> resolves then get_ip_failed
      else bind_io (buffer_bytes (fst m) (snd m)) (\<lambda>data. emit (SendTo (server_port args) data)))"

definition increment_message_id :: "udp_state \<Rightarrow> udp_state" where
  "increment_message_id s =
     (case message_id s of (a, b) \<Rightarrow>
       if b = 0xFF then s\<lparr>message_id := (a + 1, 0x00)\<rparr> else s\<lparr>message_id := (a, b + 1)\<rparr>)"

definition send_confirm_udp :: "bool \<Rightarrow> CLIArguments \<Rightarrow> int \<Rightarrow> udp_state \<Rightarrow> udp_state chat_io" where
  "send_confirm_udp rv args i s =
     bind_io (construct_confirm_udp (replicate 3 None) i) (\<lambda>m. udp_send rv args m s)"

definition send_bye_udp :: "bool \<Rightarrow> CLIArguments \<Rightarrow> udp_state \<Rightarrow> udp_state chat_io" where
  "send_bye_udp rv args s =
     bind_io (construct_bye_udp (replicate 3 None) (message_id s)) (\<lambda>m. udp_send rv args m s)"

definition send_err_udp :: "bool \<Rightarrow> CLIArguments \<Rightarrow> udp_state \<Rightarrow> udp_state chat_io" where
  "send_err_udp rv args s =
     bind_io (construct_err_udp (replicate 1000 None) (message_id s) (DISPLAYNAME s) (bytes_of ''Error message''))
       (\<lambda>m. udp_send rv args m s)"

section \<open>Standard input\<close>

text \<open>The line in the buffer of 256 bytes: up to a newline, or to the zeros behind what was read.\<close>

definition stdin_line :: "u8 list \<Rightarrow> u8 list chat_io" where
  "stdin_line bs =
     (let buffer = take 256 bs @ replicate (256 - length bs) 0; line = takeWhile (\<lambda>c. c \<noteq> 10 \<and> c \<noteq> 0) buffer in
      if length line = 256 then stop (Fault OutOfBounds) else ret line)"

text \<open>\<open>strcpy\<close> into the 256 bytes of \<open>DISPLAYNAME\<close>, from a pointer that may be null.\<close>

definition set_DISPLAYNAME :: "u8 list option \<Rightarrow> u8 list chat_io" where
  "set_DISPLAYNAME d =
     (case d of None \<Rightarrow> stop (Fault NullPointer)
      | Some n \<Rightarrow> if length n < 256 then ret n else stop (Fault OutOfBounds))"

definition err_line :: "string \<Rightarrow> chat_event" where
  "err_line s = PrintErr (bytes_of (s @ [CHR 0x0A]))"

definition start_stdin :: "bool \<Rightarrow> CLIArguments \<Rightarrow> u8 list \<Rightarrow> udp_state \<Rightarrow> udp_state chat_io" where
  "start_stdin rv args line s =
     (if parse_command line = AUTHENTICATE then
        (let r = processAuthCmd line in
         case (username r, display_name r, password r) of
           (Some u, Some d, Some p) \<Rightarrow>
             bind_io (set_DISPLAYNAME (Some d)) (\<lambda>n.
             bind_io (construct_auth_udp (replicate 256 None) (message_id s) u d p) (\<lambda>m.
               udp_send rv args m (increment_message_id (s\<lparr>DISPLAYNAME := n\<rparr>))))
         | _ \<Rightarrow> bind_io (emit (err_line ''ERR: Username, password and display name cannot be empty.'')) (\<lambda>_. ret s))
      else bind_io (emit (err_line ''ERR: First, you have to authenticate.'')) (\<lambda>_. ret s))"

definition open_stdin :: "bool \<Rightarrow> CLIArguments \<Rightarrow> u8 list \<Rightarrow> udp_state \<Rightarrow> udp_state chat_io" where
  "open_stdin rv args line s =
     (case parse_command line of
        MESSAGE \<Rightarrow>
          bind_io (construct_msg_udp (replicate 1000 None) (message_id s) (DISPLAYNAME s) line) (\<lambda>m.
            udp_send rv args m (increment_message_id s))
      | RENAME \<Rightarrow>
          bind_io (set_DISPLAYNAME (fst (strtok blank (snd (strtok blank line))))) (\<lambda>n. ret (s\<lparr>DISPLAYNAME := n\<rparr>))
      | JOIN \<Rightarrow>
          bind_io (construct_join_udp (replicate 600 None) (message_id s)
            (fst (strtok blank (snd (strtok blank line)))) (DISPLAYNAME s)) (\<lambda>m.
            udp_send rv args m (increment_message_id s))
      | AUTHENTICATE \<Rightarrow> bind_io (emit (err_line ''ERR: Cannot authenticate twice.'')) (\<lambda>_. ret s)
      | _ \<Rightarrow> ret s)"

section \<open>The socket\<close>

text \<open>The response buffer after \<open>recvfrom\<close> of at most 100 bytes.\<close>

definition response_of :: "u8 list \<Rightarrow> u8 option list" where
  "response_of d = map Some (take 100 d) @ replicate (1024 - length (take 100 d)) None"

definition print_from :: "(u8 list \<Rightarrow> chat_event) \<Rightarrow> string \<Rightarrow> u8 list \<Rightarrow> string \<Rightarrow> u8 list \<Rightarrow> unit chat_io" where
  "print_from ev pre name mid content =
     emit (ev (bytes_of pre @ name @ bytes_of mid @ content @ [10]))"

definition handle_reply :: "bool \<Rightarrow> CLIArguments \<Rightarrow> u8 option list \<Rightarrow> udp_state \<Rightarrow> udp_state chat_io" where
  "handle_reply rv args resp s =
     bind_io (processReplyCmdUDP resp) (\<lambda>r.
     bind_io (cstring_at resp (reply_content r)) (\<lambda>content.
       if reply_result r = 1 then
         bind_io (print_from PrintErr ''Success: '' [] '''' content) (\<lambda>_.
         bind_io (send_confirm_udp rv args (reply_message_id r) s) (\<lambda>s'. ret (s'\<lparr>curr_state_u := OPEN\<rparr>)))
       else
         bind_io (print_from PrintErr ''Failure: '' [] '''' content) (\<lambda>_.
           send_confirm_udp rv args (reply_message_id r) s)))"

definition handle_err :: "bool \<Rightarrow> CLIArguments \<Rightarrow> u8 option list \<Rightarrow> udp_state \<Rightarrow> udp_state chat_io" where
  "handle_err rv args resp s =
     bind_io (processErrCmdUDP resp) (\<lambda>e.
     bind_io (cstring_at resp (err_display_name e)) (\<lambda>name.
     bind_io (cstring_at resp (err_content e)) (\<lambda>content.
     bind_io (print_from PrintErr ''ERR FROM '' name '': '' content) (\<lambda>_.
     bind_io (send_confirm_udp rv args (err_message_id e) s) (\<lambda>s1.
     bind_io (send_bye_udp rv args s1) (\<lambda>s2. ret (s2\<lparr>curr_state_u := END\<rparr>)))))))"

definition handle_msg :: "bool \<Rightarrow> CLIArguments \<Rightarrow> u8 option list \<Rightarrow> udp_state \<Rightarrow> udp_state chat_io" where
  "handle_msg rv args resp s =
     bind_io (processMsgCmdUDP resp) (\<lambda>m.
     bind_io (cstring_at resp (msg_display_name m)) (\<lambda>name.
     bind_io (cstring_at resp (msg_content m)) (\<lambda>content.
     bind_io (print_from Print '''' name '': '' content) (\<lambda>_.
       send_confirm_udp rv args (msg_message_id m) s))))"

definition handle_invalid :: "bool \<Rightarrow> CLIArguments \<Rightarrow> u8 option list \<Rightarrow> udp_state \<Rightarrow> udp_state chat_io" where
  "handle_invalid rv args resp s =
     bind_io (emit (err_line ''ERR: Server sent invalid message.'')) (\<lambda>_.
     bind_io (processConfirmCmdUDP resp (received_ids s)) (\<lambda>(ref, rec).
     bind_io (send_confirm_udp rv args ref (s\<lparr>received_ids := rec\<rparr>)) (\<lambda>s1.
     bind_io (send_err_udp rv args s1) (\<lambda>s2.
     bind_io (send_bye_udp rv args s2) (\<lambda>s3. ret (s3\<lparr>curr_state_u := END\<rparr>))))))"

definition start_sock :: "bool \<Rightarrow> CLIArguments \<Rightarrow> u8 option list \<Rightarrow> udp_state \<Rightarrow> udp_state chat_io" where
  "start_sock rv args resp s =
     bind_io (arr_get resp 0) (\<lambda>t.
       if t = 0x01 then handle_reply rv args resp s
       else if t = 0xFE then handle_err rv args resp s
       else if t = 0x00 then ret s
       else bind_io (send_bye_udp rv args s) (\<lambda>s'. ret (s'\<lparr>curr_state_u := END\<rparr>)))"

definition open_sock :: "bool \<Rightarrow> CLIArguments \<Rightarrow> u8 option list \<Rightarrow> udp_state \<Rightarrow> udp_state chat_io" where
  "open_sock rv args resp s =
     bind_io (arr_get resp 0) (\<lambda>t.
       if t = 0x04 then handle_msg rv args resp s
       else if t = 0xFE then handle_err rv args resp s
       else if t = 0x01 then handle_reply rv args resp s
       else if t = 0x00 then ret s
       else if t = 0xFF then ret (s\<lparr>curr_state_u := END\<rparr>)
       else handle_invalid rv args resp s)"

text \<open>
  The check of the message id: a message other than \<open>CONFIRM\<close> that was received before is dropped, and the
  others are entered into the array. \<open>None\<close> means dropped.
\<close>

definition receive_id :: "u8 option list \<Rightarrow> udp_state \<Rightarrow> udp_state option chat_io" where
  "receive_id resp s =
     bind_io (arr_get resp 0) (\<lambda>t.
       if t = 0x00 then ret (Some s)
       else bind_io (processMessageID resp) (\<lambda>i.
            if_io (check_received_message_id (received_ids s) i)
              (ret None)
              (bind_io (add_received_message_id (received_ids s) i) (\<lambda>rec.
                ret (Some (s\<lparr>received_ids := rec\<rparr>))))))"

section \<open>The state machine\<close>

text \<open>The port of the server's datagram is the destination for this call only: \<open>args\<close> is passed by value.\<close>

definition fsm_udp :: "bool \<Rightarrow> CLIArguments \<Rightarrow> chat_input \<Rightarrow> udp_state \<Rightarrow> udp_state chat_io" where
  "fsm_udp rv args ev s =
     (case ev of
        StdinEof \<Rightarrow> ret (s\<lparr>curr_state_u := END\<rparr>)
      | StdinAgain \<Rightarrow> ret (s\<lparr>curr_state_u := END, would_block := True\<rparr>)
      | StdinRead bs \<Rightarrow>
          bind_io (stdin_line bs) (\<lambda>line.
            case curr_state_u s of
              START \<Rightarrow> start_stdin rv args line s
            | OPEN \<Rightarrow> open_stdin rv args line s
            | _ \<Rightarrow> ret s)
      | SockRead port d \<Rightarrow>
          (let args = args\<lparr>server_port := port\<rparr>; s0 = (if d = [] then s\<lparr>curr_state_u := END\<rparr> else s); resp = response_of d in
           bind_io (receive_id resp s0) (\<lambda>r.
             case r of
               None \<Rightarrow> ret s0
             | Some s1 \<Rightarrow>
                 (case curr_state_u s1 of
                    START \<Rightarrow> start_sock rv args resp s1
                  | OPEN \<Rightarrow> open_sock rv args resp s1
                  | _ \<Rightarrow> ret s1))))"

text \<open>The calls that the loop of \<open>main\<close> makes.\<close>

primrec run_udp :: "bool \<Rightarrow> CLIArguments \<Rightarrow> chat_input list \<Rightarrow> udp_state \<Rightarrow> udp_state chat_io" where
  "run_udp rv args [] s = ret s"
| "run_udp rv args (ev # evs) s = bind_io (fsm_udp rv args ev s) (run_udp rv args evs)"

end
