(* ===== verification/Chat_Runs.thy ===== *)
theory Chat_Runs
  imports Chat_Udp
begin

text \<open>
  Lemmas about the UDP client: a small calculus for what a piece of code may do (\<open>always\<close>), the waiting
  of \<open>udp_send\<close>, the order of states and messages, and the buffers.
\<close>

section \<open>What code may do\<close>

text \<open>Every event of the run satisfies \<open>E\<close>, a value it returns \<open>Q\<close>, and a halt \<open>H\<close>.\<close>

definition always :: "('ev \<Rightarrow> bool) \<Rightarrow> (halt \<Rightarrow> bool) \<Rightarrow> ('a \<Rightarrow> bool) \<Rightarrow> ('ev, 'a) io \<Rightarrow> bool" where
  "always E H Q m \<longleftrightarrow> list_all E (snd m) \<and> (case fst m of Inl h \<Rightarrow> H h | Inr x \<Rightarrow> Q x)"

named_theorems always_intros "rules of always for the io combinators"

lemma always_ret [always_intros]: "Q x \<Longrightarrow> always E H Q (ret x)"
  by (simp add: always_def)

lemma always_stop [always_intros]: "H h \<Longrightarrow> always E H Q (stop h)"
  by (simp add: always_def)

lemma always_emit [always_intros]: "E e \<Longrightarrow> Q () \<Longrightarrow> always E H Q (emit e)"
  by (simp add: always_def)

lemma always_bind:
  "always E H R m \<Longrightarrow> (\<And>x. R x \<Longrightarrow> always E H Q (f x)) \<Longrightarrow> always E H Q (bind_io m f)"
  by (cases "fst m") (fastforce simp: always_def bind_io_def split: sum.splits)+

lemma always_bind_val:
  "always E H (\<lambda>_. True) m \<Longrightarrow> (\<And>x w. m = (Inr x, w) \<Longrightarrow> always E H Q (f x)) \<Longrightarrow> always E H Q (bind_io m f)"
  by (cases m) (auto simp: always_def bind_io_def split: sum.splits)

lemma always_if_io:
  "always E H (\<lambda>_. True) b \<Longrightarrow> always E H Q t \<Longrightarrow> always E H Q e \<Longrightarrow> always E H Q (if_io b t e)"
  unfolding if_io_def by (rule always_bind) auto

lemma always_mono:
  "always E H R m \<Longrightarrow> (\<And>x. R x \<Longrightarrow> Q x) \<Longrightarrow> always E H Q m"
  by (auto simp: always_def split: sum.splits)

lemma always_arr_get: "H (Fault OutOfBounds) \<Longrightarrow> H (Fault Uninitialised) \<Longrightarrow> always E H (\<lambda>_. True) (arr_get a i)"
  by (auto simp: arr_get_def always_def split: option.splits)

lemma always_arr_set: "H (Fault OutOfBounds) \<Longrightarrow> always E H (\<lambda>_. True) (arr_set a i x)"
  by (auto simp: arr_set_def always_def)

lemma always_read_cstr:
  "H (Fault OutOfBounds) \<Longrightarrow> H (Fault Uninitialised) \<Longrightarrow> always E H (\<lambda>_. True) (read_cstr b)"
  by (induction b rule: read_cstr.induct) (auto intro!: always_intros always_bind [where R = "\<lambda>_. True"])

lemma always_cstring: "H (Fault OutOfBounds) \<Longrightarrow> H (Fault Uninitialised) \<Longrightarrow> always E H (\<lambda>_. True) (cstring_at b i)"
  unfolding cstring_at_def by (rule always_read_cstr)

section \<open>Message ids\<close>

definition id_value :: "u8 \<times> u8 \<Rightarrow> int" where
  "id_value i = uint (fst i) * 256 + uint (snd i)"

lemma increment_value:
  "id_value (message_id (increment_message_id s)) = (id_value (message_id s) + 1) mod 65536"
proof -
  obtain a b where i: "message_id s = (a, b)" by fastforce
  have r: "0 \<le> uint a" "uint a < 256" "0 \<le> uint b" "uint b < 256"
    using uint_lt2p [of a] uint_lt2p [of b] by simp_all
  show ?thesis
  proof (cases "b = 0xFF")
    case True
    have "uint (a + 1) = (uint a + 1) mod 256" by (simp add: uint_word_ariths)
    moreover have "((uint a + 1) mod 256) * 256 = (uint a * 256 + 256) mod 65536"
      using r by (cases "uint a = 255") simp_all
    moreover have "uint b = 255" unfolding True by code_simp
    ultimately show ?thesis using True i by (simp only: increment_message_id_def id_value_def) (simp add: add.commute)
  next
    case False
    then have "uint b \<noteq> 255" by (simp add: word_uint_eq_iff)
    then have "uint (b + 1) = uint b + 1" using r by (simp add: uint_word_ariths)
    with False i r \<open>uint b \<noteq> 255\<close> show ?thesis by (simp add: increment_message_id_def id_value_def)
  qed
qed

section \<open>Waiting for a confirmation\<close>

lemma bind_emit_replicate:
  "snd m = replicate n e \<Longrightarrow> bind_io (emit e) (\<lambda>_. m) = (fst m, replicate (Suc n) e)"
  by (simp add: bind_emit)

text \<open>
  Once \<open>errno\<close> says that a call would have blocked, nothing that arrives is looked at, unless the time-out
  is refused.
\<close>

lemma send_loop_blocked:
  assumes "hd data \<noteq> 0" and "RecvError \<notin> set (take n rs)" and "timeout_accepted tmo"
  shows "send_loop n tmo port data (rs, True) = (Inl (Exit 1), replicate n (SendTo port data))"
  using assms(1,2)
proof (induction n arbitrary: rs)
  case (Suc n)
  show ?case
  proof (cases rs)
    case Nil
    with Suc.IH [of "[]"] Suc.prems show ?thesis by (simp add: bind_emit)
  next
    case (Cons x r)
    with Suc.IH [of r] Suc.prems assms(3) show ?thesis by (cases x) (simp_all add: bind_emit)
  qed
qed (simp add: stop_def)

text \<open>What ends a wait, but does not confirm: a time-out, or a datagram that is not a \<open>CONFIRM\<close>.\<close>

fun no_confirm :: "recv_result \<Rightarrow> bool" where
  "no_confirm TimedOut \<longleftrightarrow> True"
| "no_confirm RecvError \<longleftrightarrow> False"
| "no_confirm (Datagram d) \<longleftrightarrow> d \<noteq> [] \<and> hd d \<noteq> 0"

text \<open>\<open>deaf\<close>: after these waits \<open>errno\<close> keeps the next datagram from being looked at.\<close>

definition deaf :: "16 word \<Rightarrow> bool \<Rightarrow> recv_result list \<Rightarrow> bool" where
  "deaf tmo blocked xs \<longleftrightarrow> timeout_accepted tmo \<and> (blocked \<or> TimedOut \<in> set xs)"

lemma send_loop_waits:
  assumes "hd data \<noteq> 0" and "list_all no_confirm xs" and "length xs \<le> n"
  shows "\<exists>b. (timeout_accepted tmo \<longrightarrow> b = deaf tmo blocked xs) \<and>
    send_loop n tmo port data (xs @ rs, blocked) =
    (fst (send_loop (n - length xs) tmo port data (rs, b)),
     replicate (length xs) (SendTo port data) @ snd (send_loop (n - length xs) tmo port data (rs, b)))"
  using assms
proof (induction xs arbitrary: n blocked)
  case Nil
  then show ?case by (intro exI [of _ blocked]) (simp add: deaf_def)
next
  case (Cons x xs)
  then obtain m where n: "n = Suc m" by (cases n) auto
  define b where "b \<longleftrightarrow> x = TimedOut \<or> blocked \<and> timeout_accepted tmo"
  have step: "send_loop n tmo port data ((x # xs) @ rs, blocked) =
      bind_io (emit (SendTo port data)) (\<lambda>_. send_loop m tmo port data (xs @ rs, b))"
  proof (cases x)
    case (Datagram d)
    then obtain c d' where "d = c # d'" "c \<noteq> 0" using Cons.prems by (cases d) auto
    with Cons.prems(1) Datagram n show ?thesis by (simp add: b_def Let_def)
  qed (use Cons.prems n in \<open>simp_all add: b_def\<close>)
  from Cons.IH [of m b] Cons.prems n obtain c where
    c: "timeout_accepted tmo \<longrightarrow> c = deaf tmo b xs"
      "send_loop m tmo port data (xs @ rs, b) =
        (fst (send_loop (m - length xs) tmo port data (rs, c)),
         replicate (length xs) (SendTo port data) @ snd (send_loop (m - length xs) tmo port data (rs, c)))"
    by auto
  have "timeout_accepted tmo \<longrightarrow> c = deaf tmo blocked (x # xs)"
    using c(1) by (auto simp: deaf_def b_def)
  then show ?case unfolding step c(2) by (intro exI [of _ c]) (simp add: bind_emit n)
qed

lemma send_loop_heard:
  assumes "hd data \<noteq> 0" and "list_all no_confirm xs" and "length xs < n" and "\<not> deaf tmo blocked xs"
  shows "send_loop n tmo port data (xs @ Datagram (0 # x) # rs, blocked) =
    (Inr (rs, False), replicate (Suc (length xs)) (SendTo port data))"
proof -
  obtain m where m: "n - length xs = Suc m" using assms(3) by (cases "n - length xs") auto
  have "replicate (length xs) (SendTo port data) @ [SendTo port data] = replicate (Suc (length xs)) (SendTo port data)"
    by (simp add: replicate_append_same)
  with send_loop_waits [OF assms(1,2), of n tmo blocked port "Datagram (0 # x) # rs"] assms m show ?thesis
    by (auto simp: bind_emit)
qed

lemma send_loop_deaf:
  assumes "hd data \<noteq> 0" and "list_all no_confirm xs" and "length xs < n" and "deaf tmo blocked xs"
    and "RecvError \<notin> set (take n rs)"
  shows "send_loop n tmo port data (xs @ Datagram (0 # x) # rs, blocked) =
    (Inl (Exit 1), replicate n (SendTo port data))"
proof -
  obtain m where m: "n - length xs = Suc m" using assms(3) by (cases "n - length xs") auto
  have "RecvError \<notin> set (take (n - length xs) (Datagram (0 # x) # rs))"
  proof -
    have "m \<le> n" using m by simp
    then show ?thesis using assms(5) set_take_subset_set_take [of m n rs] m by auto
  qed
  from send_loop_blocked [OF assms(1) this, of tmo port] assms(4)
  have "send_loop (n - length xs) tmo port data (Datagram (0 # x) # rs, True) =
      (Inl (Exit 1), replicate (n - length xs) (SendTo port data))"
    by (simp add: deaf_def)
  moreover obtain b where "b = deaf tmo blocked xs"
      "send_loop n tmo port data (xs @ Datagram (0 # x) # rs, blocked) =
        (fst (send_loop (n - length xs) tmo port data (Datagram (0 # x) # rs, b)),
         replicate (length xs) (SendTo port data) @
         snd (send_loop (n - length xs) tmo port data (Datagram (0 # x) # rs, b)))"
    using send_loop_waits [OF assms(1,2), of n tmo blocked port "Datagram (0 # x) # rs"] assms(3,4)
    by (auto simp: deaf_def)
  ultimately show ?thesis using assms(3,4) by (simp add: replicate_add [symmetric])
qed

lemma send_loop_confirm: "0 < n \<Longrightarrow> hd data = 0 \<Longrightarrow> send_loop n tmo port data st = (Inr st, [SendTo port data])"
  by (cases n) (simp_all add: bind_emit)

text \<open>A failing \<open>recv\<close> or an empty datagram leaves the buffer that is looked at uninitialised.\<close>

definition unfilled :: "recv_result list \<Rightarrow> bool" where
  "unfilled rs \<longleftrightarrow> RecvError \<in> set rs \<or> Datagram [] \<in> set rs"

lemma always_send_loop:
  assumes "E (SendTo port data)" and "H (Exit 1)" and "unfilled (fst st) \<Longrightarrow> H (Fault Uninitialised)"
  shows "always E H (\<lambda>_. True) (send_loop n tmo port data st)"
  using assms(3)
proof (induction n arbitrary: st)
  case 0
  then show ?case using assms by (simp add: always_def)
next
  case (Suc n)
  obtain rs b where st: "st = (rs, b)" by fastforce
  have IH: "always E H (\<lambda>_. True) (send_loop n tmo port data (r, c))" if "set r \<subseteq> set rs" for r c
    using that Suc.prems unfolding st by (intro Suc.IH) (auto simp: unfilled_def)
  show ?case
    using assms(1,2) Suc.prems IH unfolding st
    by (auto simp: Let_def unfilled_def subset_insertI intro!: always_bind [where R = "\<lambda>_. True"] always_intros
        split: list.splits recv_result.splits)
qed

end
