(* ===== verification/Chat_Safety.thy ===== *)
theory Chat_Safety
  imports Chat_Runs
begin

text \<open>
  What the UDP client does with its buffers and states: which messages leave it before it is let in,
  and that a line from standard input never overflows a buffer.
\<close>

section \<open>Sending what was built\<close>

lemma length_msg_bytes [simp]: "length (msg_bytes t i fs) = 3 + (\<Sum>s\<leftarrow>fs. length s + 1)"
  by (simp add: msg_bytes_def fields_bytes_def length_concat comp_def)

definition keeps :: "udp_state \<Rightarrow> udp_state \<Rightarrow> bool" where
  "keeps s s' \<longleftrightarrow> curr_state_u s' = curr_state_u s \<and> message_id s' = message_id s \<and>
     received_ids s' = received_ids s \<and> DISPLAYNAME s' = DISPLAYNAME s"

lemma buffer_bytes_built: "buffer_bytes (map Some bs @ r) (int (length bs)) = ret bs"
  by (auto simp: buffer_bytes_def comp_def)

lemma send_built:
  "bind_io (built m bs) (\<lambda>m. udp_send rv args m s) =
     (if length m < length bs then stop (Fault OutOfBounds)
      else if \<not> rv then get_ip_failed
      else bind_io (send_loop (unat (udp_retransmissions args)) (udp_timeout args) (server_port args) bs
               (arriving (find_errno s), would_block (find_errno s)))
             (\<lambda>st. ret (find_errno s\<lparr>arriving := fst st, would_block := snd st\<rparr>)))"
  by (simp add: built_def udp_send_def buffer_bytes_built Let_def)

lemma arriving_errno [simp]: "arriving (find_errno s) = arriving s"
  by (simp add: find_errno_def split: list.split)

lemma keeps_errno: "keeps s (find_errno s)"
  by (simp add: keeps_def find_errno_def split: list.split)

lemma always_send_built:
  assumes "E (SendTo (server_port args) bs)" and "\<And>x. E (PrintErr x)" and "H (Exit 1)"
    and "unfilled (arriving s) \<Longrightarrow> H (Fault Uninitialised)" and "length m < length bs \<Longrightarrow> H (Fault OutOfBounds)"
  shows "always E H (keeps s) (bind_io (built m bs) (\<lambda>m. udp_send rv args m s))"
proof -
  have "always E H (keeps s) get_ip_failed"
    unfolding get_ip_failed_def using assms(2,3) by (intro always_bind [where R = "\<lambda>_. True"] always_intros) simp_all
  moreover have "always E H (keeps s)
      (bind_io (send_loop n tmo (server_port args) bs (arriving (find_errno s), b))
        (\<lambda>st. ret (find_errno s\<lparr>arriving := fst st, would_block := snd st\<rparr>)))" for n tmo b
    using assms(1,3,4) keeps_errno [of s]
    by (intro always_bind [where R = "\<lambda>_. True"] always_send_loop always_ret) (simp_all add: keeps_def)
  moreover have "always E H (keeps s) (stop (Fault OutOfBounds))" if "length m < length bs"
    using assms(5) [OF that] by (rule always_stop)
  ultimately show ?thesis unfolding send_built by simp
qed

lemma construct_confirm_built:
  "\<exists>a b. construct_confirm_udp (replicate 3 None) i = built (replicate 3 None) [0, a, b]"
  by (simp add: construct_confirm_udp_def built_def numeral_3_eq_3)

lemma always_confirm:
  assumes "\<And>a b. E (SendTo (server_port args) [0, a, b])" and "\<And>x. E (PrintErr x)" and "H (Exit 1)"
    and "H (Fault Uninitialised)"
  shows "always E H (keeps s) (send_confirm_udp rv args i s)"
proof -
  obtain a b where ab: "construct_confirm_udp (replicate 3 None) i = built (replicate 3 None) [0, a, b]"
    using construct_confirm_built by blast
  show ?thesis unfolding send_confirm_udp_def ab by (rule always_send_built) (use assms in auto)
qed

lemma always_bye:
  assumes "\<And>i. E (SendTo (server_port args) (msg_bytes 0xFF i []))" and "\<And>x. E (PrintErr x)" and "H (Exit 1)"
    and "H (Fault Uninitialised)"
  shows "always E H (keeps s) (send_bye_udp rv args s)"
  unfolding send_bye_udp_def construct_bye_eq
  by (rule always_send_built) (use assms in simp_all)

lemma always_err:
  assumes "\<And>i fs. E (SendTo (server_port args) (msg_bytes 0xFE i fs))" and "\<And>x. E (PrintErr x)" and "H (Exit 1)"
    and "H (Fault Uninitialised)" and "H (Fault OutOfBounds)"
  shows "always E H (keeps s) (send_err_udp rv args s)"
  unfolding send_err_udp_def construct_err_eq by (rule always_send_built) (use assms in auto)

section \<open>Standard input\<close>

definition named :: "udp_state \<Rightarrow> udp_state \<Rightarrow> bool" where
  "named s s' \<longleftrightarrow> curr_state_u s' = curr_state_u s \<and> length (DISPLAYNAME s') < 256"

lemma stdin_line_length:
  assumes "stdin_line bs = (Inr line, w)"
  shows "length line < 256" and "0 \<notin> set line"
proof -
  let ?b = "take 256 bs @ replicate (256 - length bs) 0"
  have line: "line = takeWhile (\<lambda>c. c \<noteq> 10 \<and> c \<noteq> 0) ?b" "length line \<noteq> 256"
    using assms by (auto simp: stdin_line_def Let_def split: if_splits)
  have "length line \<le> length ?b" unfolding line(1) by (rule length_takeWhile_le)
  then show "length line < 256" using line(2) by simp
  show "0 \<notin> set line" unfolding line(1) using set_takeWhileD by fastforce
qed

lemma stdin_line_short:
  assumes "length bs < 256 \<or> 10 \<in> set (take 256 bs) \<or> 0 \<in> set (take 256 bs)"
  shows "\<exists>line. stdin_line bs = ret line"
proof -
  let ?b = "take 256 bs @ replicate (256 - length bs) 0"
  have "\<exists>x\<in>set ?b. \<not> (x \<noteq> 10 \<and> x \<noteq> 0)"
    using assms by (cases "length bs < 256") auto
  then have "takeWhile (\<lambda>c. c \<noteq> 10 \<and> c \<noteq> 0) ?b \<noteq> ?b" unfolding takeWhile_eq_all_conv by blast
  moreover have "takeWhile (\<lambda>c. c \<noteq> 10 \<and> c \<noteq> 0) ?b = take (length (takeWhile (\<lambda>c. c \<noteq> 10 \<and> c \<noteq> 0) ?b)) ?b"
    by (rule takeWhile_eq_take)
  moreover have "length ?b = 256" by simp
  ultimately have "length (takeWhile (\<lambda>c. c \<noteq> 10 \<and> c \<noteq> 0) ?b) \<noteq> 256" by (metis take_all order_refl)
  then show ?thesis by (simp add: stdin_line_def Let_def)
qed

lemma stdin_line_long:
  assumes "256 \<le> length bs" and "10 \<notin> set (take 256 bs)" and "0 \<notin> set (take 256 bs)"
  shows "stdin_line bs = stop (Fault OutOfBounds)"
proof -
  have all: "takeWhile (\<lambda>c. c \<noteq> 10 \<and> c \<noteq> 0) (take 256 bs) = take 256 bs"
    unfolding takeWhile_eq_all_conv using assms(2,3) by auto
  show ?thesis using assms(1) by (simp add: stdin_line_def Let_def all)
qed

lemma increment_keeps: "curr_state_u (increment_message_id s) = curr_state_u s"
  "DISPLAYNAME (increment_message_id s) = DISPLAYNAME s"
  "received_ids (increment_message_id s) = received_ids s"
  "arriving (increment_message_id s) = arriving s"
  "would_block (find_errno (increment_message_id s)) = would_block (find_errno s)"
  by (simp_all add: increment_message_id_def find_errno_def split: prod.splits list.splits option.splits)

lemma always_start_stdin:
  assumes "\<And>x. E (PrintErr x)" and "\<And>i fs. E (SendTo (server_port args) (msg_bytes 0x02 i fs))"
    and "H (Exit 1)" and "unfilled (arriving s) \<Longrightarrow> H (Fault Uninitialised)"
    and "length line < 256" and "length (DISPLAYNAME s) < 256"
  shows "always E H (named s) (start_stdin rv args line s)"
proof -
  let ?r = "processAuthCmd line"
  have send: "always E H (named s)
      (bind_io (set_DISPLAYNAME (Some d)) (\<lambda>n. bind_io (construct_auth_udp (replicate 256 None) (message_id s) u d p)
        (\<lambda>m. udp_send rv args m (increment_message_id (s\<lparr>DISPLAYNAME := n\<rparr>)))))"
    if cmd: "take 5 line = bytes_of ''/auth''" and r: "username ?r = Some u" "display_name ?r = Some d" "password ?r = Some p" for u d p
  proof -
    have "processAuthCmd line = \<lparr>display_name = Some d, username = Some u, password = Some p\<rparr>"
      using r by (cases ?r) simp
    from processAuthCmd_length [OF this cmd] assms(5) have len: "length u + length p + length d < 248" by simp
    have "always E H (keeps (increment_message_id (s\<lparr>DISPLAYNAME := d\<rparr>)))
        (bind_io (built (replicate 256 None) (msg_bytes 2 (message_id s) [u, d, p]))
          (\<lambda>m. udp_send rv args m (increment_message_id (s\<lparr>DISPLAYNAME := d\<rparr>))))"
      using assms(1-4) len by (intro always_send_built) (simp_all add: increment_keeps)
    then show ?thesis
      using len by (auto simp: set_DISPLAYNAME_def construct_auth_eq keeps_def named_def increment_keeps elim: always_mono)
  qed
  have msg: "always E H (named s) (bind_io (emit (err_line t)) (\<lambda>_. ret s))" for t
    using assms by (auto simp: err_line_def named_def intro!: always_intros always_bind [where R = "\<lambda>_. True"])
  show ?thesis
    using send msg
    by (auto simp: start_stdin_def Let_def parse_command_def split: option.splits if_splits)
qed

text \<open>\<open>/join\<close> and \<open>/rename\<close> want a second word.\<close>

definition argument_missing :: "u8 list \<Rightarrow> bool" where
  "argument_missing line \<longleftrightarrow>
     parse_command line \<in> {JOIN, RENAME} \<and> fst (strtok blank (snd (strtok blank line))) = None"

lemma always_open_stdin:
  assumes "\<And>e. E e" and "H (Exit 1)" and "unfilled (arriving s) \<Longrightarrow> H (Fault Uninitialised)"
    and "argument_missing line \<Longrightarrow> H (Fault NullPointer)"
    and "length line < 256" and "length (DISPLAYNAME s) < 256"
  shows "always E H (named s) (open_stdin rv args line s)"
proof -
  obtain t1 r1 where 1: "strtok blank line = (t1, r1)" by fastforce
  obtain t2 r2 where 2: "strtok blank r1 = (t2, r2)" by fastforce
  have r1: "length r1 \<le> length line"
    using strtok_length(1) [of blank line _ r1] 1 by (cases t1) (fastforce simp: strtok_def Let_def split: if_splits)+
  have t2: "length c < 256" if "t2 = Some c" for c
    using strtok_length(1) [of blank r1 c r2] that 2 r1 assms(5) by simp
  have sent: "always E H (named s) (bind_io (built m bs) (\<lambda>m. udp_send rv args m (increment_message_id s)))"
    if "length bs \<le> length m" for m bs
    by (rule always_mono [OF always_send_built])
      (use assms that in \<open>auto simp: keeps_def named_def increment_keeps\<close>)
  show ?thesis
  proof (cases "parse_command line")
    case MESSAGE
    then show ?thesis using sent assms(5,6) by (simp add: open_stdin_def construct_msg_eq)
  next
    case JOIN
    show ?thesis
    proof (cases t2)
      case None
      have "construct_join_udp (replicate 600 None) (message_id s) None (DISPLAYNAME s) = stop (Fault NullPointer)"
        by (simp add: construct_join_udp_def put_head_eq)
      with JOIN None 1 2 assms(4) show ?thesis by (simp add: open_stdin_def always_stop argument_missing_def)
    next
      case (Some c)
      with JOIN sent assms(6) t2 1 2 show ?thesis by (simp add: open_stdin_def construct_join_eq)
    qed
  next
    case RENAME
    then show ?thesis using assms(4,5) t2 1 2
      by (cases t2) (auto simp: open_stdin_def set_DISPLAYNAME_def named_def argument_missing_def intro!: always_intros)
  next
    case AUTHENTICATE
    then show ?thesis using assms
      by (auto simp: open_stdin_def named_def intro!: always_intros always_bind [where R = "\<lambda>_. True"])
  qed (use assms(6) in \<open>auto simp: open_stdin_def named_def intro!: always_intros\<close>)
qed

section \<open>Before the client is let in\<close>

text \<open>A datagram that lets the client in: a \<open>REPLY\<close> with result 1.\<close>

definition positive_reply :: "u8 list \<Rightarrow> bool" where
  "positive_reply d \<longleftrightarrow> 4 \<le> length d \<and> d ! 0 = 0x01 \<and> d ! 3 = 1"

text \<open>Neither \<open>JOIN\<close> nor \<open>MSG\<close> is sent, and nothing is shown as a message.\<close>

fun before_open :: "chat_event \<Rightarrow> bool" where
  "before_open (SendTo p d) \<longleftrightarrow> hd d \<noteq> 0x03 \<and> hd d \<noteq> 0x04"
| "before_open (Print t) \<longleftrightarrow> False"
| "before_open _ \<longleftrightarrow> True"

definition outside_open :: "udp_state \<Rightarrow> bool" where
  "outside_open s \<longleftrightarrow> curr_state_u s = START \<or> curr_state_u s = END"

lemma outside_keeps: "keeps s s' \<Longrightarrow> outside_open s' \<longleftrightarrow> outside_open s"
  by (simp add: keeps_def outside_open_def)

lemma always_True: "always (\<lambda>_. True) (\<lambda>_. True) (\<lambda>_. True) m"
  by (auto simp: always_def list_all_iff split: sum.splits)

lemma response_byte:
  assumes "arr_get (response_of d) (int i) = ret b" and "i < 100"
  shows "i < length d \<and> d ! i = b"
  using assms
  by (auto simp: arr_get_def response_of_def nth_append min_def split: if_splits option.splits)

text \<open>What the events of the three kinds of answers are.\<close>

lemma always_quiet_sends:
  "always before_open (\<lambda>_. True) (keeps s) (send_confirm_udp rv args i s)"
  "always before_open (\<lambda>_. True) (keeps s) (send_bye_udp rv args s)"
  by (rule always_confirm always_bye; simp add: msg_bytes_def)+

lemma snd_get_id: "snd (get_id buf i) = []"
  by (auto simp: get_id_def bind_io_def arr_get_def split: sum.splits option.splits)

lemma always_no_events: "snd m = [] \<Longrightarrow> always E (\<lambda>_. True) (\<lambda>_. True) m"
  by (auto simp: always_def split: sum.splits)

lemma snd_bind_Nil: "snd m = [] \<Longrightarrow> (\<And>x. snd (f x) = []) \<Longrightarrow> snd (bind_io m f) = []"
  by (auto simp: bind_io_def split: sum.splits)

lemma snd_arr: "snd (arr_get a i) = []" "snd (arr_set b j x) = []" "snd (cstring_at c k) = []"
  by (auto simp: arr_get_def arr_set_def cstring_at_def read_cstr_events split: option.splits)

lemma silent_process:
  "snd (processReplyCmdUDP b) = []" "snd (processErrCmdUDP b) = []" "snd (processMsgCmdUDP b) = []"
  "snd (processMessageID b) = []" "snd (add_received_message_id r x) = []"
  unfolding processReplyCmdUDP_def processErrCmdUDP_def processMsgCmdUDP_def processMessageID_def
    add_received_message_id_def
  by (intro snd_bind_Nil snd_get_id snd_arr; simp)+

lemma snd_check_ids: "snd (check_ids n xs i x) = []"
  by (induction n arbitrary: i) (auto intro!: snd_bind_Nil snd_arr)

lemmas always_silent = always_bind [where R = "\<lambda>_. True", OF always_no_events]

lemma always_any: "always E H Q m \<Longrightarrow> always E H (\<lambda>_. True) m"
  by (rule always_mono) simp_all

lemmas always_sends = always_bind [where R = "\<lambda>_. True", OF always_any]

lemma always_quiet_err:
  assumes "outside_open s"
  shows "always before_open (\<lambda>_. True) outside_open (handle_err rv args resp s)"
  unfolding handle_err_def print_from_def
  by (rule always_silent [OF silent_process(2)], rule always_silent [OF snd_arr(3)],
      rule always_silent [OF snd_arr(3)], rule always_sends [OF always_emit], simp, rule TrueI,
      rule always_sends [OF always_quiet_sends(1)], rule always_sends [OF always_quiet_sends(2)],
      rule always_ret, simp add: outside_open_def)

lemma always_quiet_reply:
  assumes "outside_open s" and "\<not> positive_reply d" and "arr_get (response_of d) 0 = ret 1"
  shows "always before_open (\<lambda>_. True) outside_open (handle_reply rv args (response_of d) s)"
  unfolding handle_reply_def
proof (rule always_bind_val)
  fix r w
  assume r: "processReplyCmdUDP (response_of d) = (Inr r, w)"
  then obtain b where b: "arr_get (response_of d) 3 = ret b" "reply_result r = sint b"
    by (auto simp: processReplyCmdUDP_def bind_ok_iff arr_get_def ret_def stop_def split: if_splits option.splits)
  have "reply_result r \<noteq> 1"
  proof
    assume "reply_result r = 1"
    then have "sint b = sint (1 :: u8)" using b(2) by simp
    then have "b = 1" by (metis signed_word_eqI)
    with response_byte [of d 3 b] response_byte [of d 0 1] b(1) assms(2,3) show False
      by (auto simp: positive_reply_def)
  qed
  moreover have "always before_open (\<lambda>_. True) outside_open (send_confirm_udp rv args i s)" for i
    by (rule always_mono [OF always_quiet_sends(1)]) (simp add: outside_keeps assms(1))
  ultimately show "always before_open (\<lambda>_. True) outside_open
      (bind_io (cstring_at (response_of d) (reply_content r)) (\<lambda>content.
        if reply_result r = 1 then
          bind_io (print_from PrintErr ''Success: '' [] '''' content) (\<lambda>_.
          bind_io (send_confirm_udp rv args (reply_message_id r) s) (\<lambda>s'. ret (s'\<lparr>curr_state_u := OPEN\<rparr>)))
        else
          bind_io (print_from PrintErr ''Failure: '' [] '''' content) (\<lambda>_.
            send_confirm_udp rv args (reply_message_id r) s)))"
    by (simp only: if_False print_from_def)
      (rule always_silent [OF snd_arr(3)], rule always_sends [OF always_emit], simp, rule TrueI, assumption)
qed (intro always_no_events silent_process)

lemma always_quiet_start:
  assumes "outside_open s" and "\<not> positive_reply d"
  shows "always before_open (\<lambda>_. True) outside_open (start_sock rv args (response_of d) s)"
  unfolding start_sock_def
proof (rule always_bind_val)
  fix t w
  assume t: "arr_get (response_of d) 0 = (Inr t, w)"
  then have "arr_get (response_of d) 0 = ret t"
    by (auto simp: arr_get_def ret_def stop_def split: if_splits option.splits)
  moreover have "always before_open (\<lambda>_. True) outside_open
      (bind_io (send_bye_udp rv args s) (\<lambda>s'. ret (s'\<lparr>curr_state_u := END\<rparr>)))"
    by (intro always_bind [where R = "keeps s"] always_quiet_sends always_intros) (simp add: outside_open_def)
  ultimately show "always before_open (\<lambda>_. True) outside_open
      (if t = 0x01 then handle_reply rv args (response_of d) s
       else if t = 0xFE then handle_err rv args (response_of d) s
       else if t = 0x00 then ret s
       else bind_io (send_bye_udp rv args s) (\<lambda>s'. ret (s'\<lparr>curr_state_u := END\<rparr>)))"
    using always_quiet_reply [OF assms] always_quiet_err [OF assms(1)] assms(1)
    by (auto intro: always_ret)
qed (intro always_no_events snd_arr)

lemma always_receive_id:
  "always E (\<lambda>_. True) (\<lambda>r. \<forall>s'. r = Some s' \<longrightarrow> curr_state_u s' = curr_state_u s \<and> DISPLAYNAME s' = DISPLAYNAME s)
     (receive_id resp s)"
  unfolding receive_id_def check_received_message_id_def
  by (auto intro!: always_bind [where R = "\<lambda>_. True"] always_no_events silent_process snd_arr snd_check_ids
      always_intros always_if_io)

theorem fsm_quiet:
  assumes "outside_open s" and "\<And>port d. ev = SockRead port d \<Longrightarrow> \<not> positive_reply d"
  shows "always before_open (\<lambda>_. True) outside_open (fsm_udp rv args ev s)"
proof (cases ev)
  case (StdinRead bs)
  have "always before_open (\<lambda>_. True) outside_open (start_stdin rv args line s)"
    if "curr_state_u s = START" "length line < 256" for line
  proof -
    have err: "always before_open (\<lambda>_. True) outside_open (bind_io (emit (err_line t)) (\<lambda>_. ret s))" for t
      using assms(1) by (auto simp: err_line_def intro!: always_intros always_bind [where R = "\<lambda>_. True"])
    have "always before_open (\<lambda>_. True) outside_open
       (bind_io (set_DISPLAYNAME (Some d)) (\<lambda>n.
        bind_io (construct_auth_udp (replicate 256 None) (message_id s) u d p) (\<lambda>m.
          udp_send rv args m (increment_message_id (s\<lparr>DISPLAYNAME := n\<rparr>)))))" for u d p
      unfolding construct_auth_eq
      by (rule always_bind [where R = "\<lambda>_. True"], simp add: set_DISPLAYNAME_def always_def,
          rule always_mono [OF always_send_built])
        (use assms(1) in \<open>simp_all add: msg_bytes_def keeps_def increment_keeps outside_open_def\<close>)
    with err show ?thesis by (auto simp: start_stdin_def Let_def split: option.splits)
  qed
  then have "always before_open (\<lambda>_. True) outside_open
      (case curr_state_u s of START \<Rightarrow> start_stdin rv args line s | OPEN \<Rightarrow> open_stdin rv args line s | _ \<Rightarrow> ret s)"
    if "stdin_line bs = (Inr line, w)" for line w
    using assms(1) stdin_line_length(1) [OF that] by (auto simp: outside_open_def intro!: always_ret)
  moreover have "snd (stdin_line bs) = []" by (simp add: stdin_line_def Let_def)
  ultimately show ?thesis
    unfolding StdinRead fsm_udp_def chat_input.case by (intro always_bind_val always_no_events)
next
  case (SockRead port d)
  let ?s0 = "if d = [] then s\<lparr>curr_state_u := END\<rparr> else s"
  have s0: "outside_open ?s0" using assms(1) by (simp add: outside_open_def)
  show ?thesis
    unfolding SockRead fsm_udp_def chat_input.case Let_def
  proof (rule always_bind [OF always_receive_id])
    fix r :: "udp_state option"
    assume r: "\<forall>s'. r = Some s' \<longrightarrow> curr_state_u s' = curr_state_u ?s0 \<and> DISPLAYNAME s' = DISPLAYNAME ?s0"
    show "always before_open (\<lambda>_. True) outside_open
      (case r of None \<Rightarrow> ret ?s0
       | Some s1 \<Rightarrow> (case curr_state_u s1 of
           START \<Rightarrow> start_sock rv (args\<lparr>server_port := port\<rparr>) (response_of d) s1
         | OPEN \<Rightarrow> open_sock rv (args\<lparr>server_port := port\<rparr>) (response_of d) s1
         | _ \<Rightarrow> ret s1))"
    proof (cases r)
      case (Some s1)
      with r s0 have s1: "outside_open s1" by (simp add: outside_open_def)
      from always_quiet_start [OF this assms(2) [OF SockRead]] s1 Some show ?thesis
        by (auto simp: outside_open_def intro!: always_ret split: FSMState.splits)
    qed (use s0 in \<open>simp add: always_ret\<close>)
  qed
qed (use assms(1) in \<open>auto simp: fsm_udp_def outside_open_def intro!: always_ret\<close>)

lemma run_quiet:
  assumes "outside_open s" and "\<And>port d. SockRead port d \<in> set evs \<Longrightarrow> \<not> positive_reply d"
  shows "always before_open (\<lambda>_. True) outside_open (run_udp rv args evs s)"
  using assms
proof (induction evs arbitrary: s)
  case (Cons ev evs)
  then show ?case
    by (auto intro!: always_bind [where R = outside_open] fsm_quiet)
qed (simp add: always_ret)

end
