(* ===== verification/Chat_Receive.thy ===== *)
theory Chat_Receive
  imports Chat_Safety
begin

text \<open>
  What the UDP client does with datagrams: the array of message ids, messages received twice, messages
  that are shown and confirmed, and messages that are longer than the 100 bytes it receives.
\<close>

section \<open>The array of ids\<close>

definition ids_ok :: "received \<Rightarrow> bool" where
  "ids_ok r \<longleftrightarrow> (\<exists>xs. ids r = map Some xs \<and> length xs = 100) \<and> 0 \<le> ids_index r \<and> ids_index r \<le> 100"

definition seen :: "received \<Rightarrow> u8 \<times> u8 \<Rightarrow> bool" where
  "seen r i \<longleftrightarrow> Some i \<in> set (take (nat (ids_index r)) (ids r))"

lemma check_ids_eq:
  "j + n \<le> length xs \<Longrightarrow> check_ids n (map Some xs) (int j) x = ret (x \<in> set (take n (drop j xs)))"
proof (induction n arbitrary: j)
  case (Suc n)
  then have j: "j < length xs" by simp
  have "take (Suc n) (drop j xs) = xs ! j # take n (drop (Suc j) xs)"
    using j by (simp add: Cons_nth_drop_Suc [symmetric])
  moreover have "check_ids n (map Some xs) (int (Suc j)) x = ret (x \<in> set (take n (drop (Suc j) xs)))"
    using Suc.IH [of "Suc j"] Suc.prems by simp
  ultimately show ?case using j by (auto simp: arr_get_def add.commute)
qed simp

lemma check_received_eq:
  assumes "ids_ok r"
  shows "check_received_message_id r i = ret (seen r i)"
proof -
  obtain xs where xs: "ids r = map Some xs" "length xs = 100" using assms by (auto simp: ids_ok_def)
  then have "check_ids (nat (ids_index r)) (map Some xs) (int 0) i = ret (i \<in> set (take (nat (ids_index r)) xs))"
    using assms check_ids_eq [of 0 "nat (ids_index r)" xs i] by (simp add: ids_ok_def nat_le_iff)
  moreover have "Some i \<in> Some ` A \<longleftrightarrow> i \<in> A" for A by auto
  ultimately show ?thesis using xs by (simp add: seen_def check_received_message_id_def take_map)
qed

lemma add_received_eq:
  assumes "ids_ok r"
  shows "add_received_message_id r i =
    (if ids_index r < 100 then ret (r\<lparr>ids := (ids r)[nat (ids_index r) := Some i], ids_index := ids_index r + 1\<rparr>)
     else stop (Fault OutOfBounds))"
  using assms by (auto simp: ids_ok_def add_received_message_id_def arr_set_def)

lemma add_received_ok:
  assumes "ids_ok r" and "add_received_message_id r i = (Inr r', w)"
  shows "ids_ok r'" and "seen r' i" and "seen r j \<Longrightarrow> seen r' j" and "w = []"
proof -
  obtain xs where xs: "ids r = map Some xs" "length xs = 100" using assms(1) by (auto simp: ids_ok_def)
  let ?n = "nat (ids_index r)"
  from assms add_received_eq [OF assms(1)] xs have
    *: "ids_index r < 100" "r' = r\<lparr>ids := map Some (xs[?n := i]), ids_index := ids_index r + 1\<rparr>" "w = []"
    by (auto simp: map_update split: if_splits)
  have n: "nat (ids_index r + 1) = Suc ?n" "?n < length xs" using assms(1) *(1) xs(2) by (auto simp: ids_ok_def)
  show "w = []" by (rule *(3))
  show "ids_ok r'" using assms(1) * xs by (auto simp: ids_ok_def)
  have t: "take (Suc ?n) (xs[?n := i]) = take ?n xs @ [i]"
    using n(2) by (simp add: take_Suc_conv_app_nth)
  show "seen r' i" "seen r j \<Longrightarrow> seen r' j"
    using *(2) n(1) t xs(1) by (auto simp: seen_def take_map)
qed

definition knows :: "u8 \<times> u8 \<Rightarrow> udp_state \<Rightarrow> bool" where
  "knows i s \<longleftrightarrow> ids_ok (received_ids s) \<and> seen (received_ids s) i"

lemma keeps_knows: "keeps s s' \<Longrightarrow> knows i s' \<longleftrightarrow> knows i s"
  by (simp add: keeps_def knows_def)

abbreviation may :: "('a \<Rightarrow> bool) \<Rightarrow> 'a chat_io \<Rightarrow> bool" where
  "may Q m \<equiv> always (\<lambda>_. True) (\<lambda>_. True) Q m"

lemma may_sends:
  "may (keeps s) (send_confirm_udp rv args i s)" "may (keeps s) (send_bye_udp rv args s)"
  "may (keeps s) (send_err_udp rv args s)"
  by (rule always_confirm always_bye always_err; simp)+

lemma may_confirm_knows: "knows i s \<Longrightarrow> may (knows i) (send_confirm_udp rv args n s)"
  and may_bye_knows: "knows i s \<Longrightarrow> may (knows i) (send_bye_udp rv args s)"
  and may_err_knows: "knows i s \<Longrightarrow> may (knows i) (send_err_udp rv args s)"
  by (rule always_mono [OF may_sends(1)] always_mono [OF may_sends(2)] always_mono [OF may_sends(3)];
      simp add: keeps_knows)+

lemma may_any: "may (\<lambda>_. True) m"
  by (rule always_True)

lemmas may_step = always_bind [where R = "\<lambda>_. True", OF may_any]

lemma knows_state: "knows i (s\<lparr>curr_state_u := x\<rparr>) = knows i s"
  by (simp add: knows_def)

lemma may_handle:
  assumes "knows i s"
  shows "may (knows i) (handle_reply rv args resp s)" and "may (knows i) (handle_err rv args resp s)"
    and "may (knows i) (handle_msg rv args resp s)" and "may (knows i) (handle_invalid rv args resp s)"
proof -
  have up: "may (knows i) (bind_io (send_confirm_udp rv args n s) (\<lambda>s'. ret (s'\<lparr>curr_state_u := OPEN\<rparr>)))" for n
    by (rule always_bind [OF may_confirm_knows [OF assms]]) (simp add: always_ret knows_state)
  show "may (knows i) (handle_reply rv args resp s)"
    unfolding handle_reply_def
    by (rule may_step)+ (auto intro!: may_step up may_confirm_knows assms)
  show "may (knows i) (handle_err rv args resp s)"
    unfolding handle_err_def
    by (rule may_step, rule may_step, rule may_step, rule may_step,
        rule always_bind [OF may_confirm_knows [OF assms]], rule always_bind [OF may_bye_knows], assumption,
        simp add: always_ret knows_state)
  show "may (knows i) (handle_msg rv args resp s)"
    unfolding handle_msg_def
    by (rule may_step, rule may_step, rule may_step, rule may_step, rule may_confirm_knows [OF assms])
  have added: "may (\<lambda>rec. knows i (s\<lparr>received_ids := rec\<rparr>)) (add_received_message_id (received_ids s) x)" for x
  proof (cases "add_received_message_id (received_ids s) x")
    case (Pair r w)
    show ?thesis
    proof (cases r)
      case (Inr rec)
      from assms have k: "ids_ok (received_ids s)" "seen (received_ids s) i" by (simp_all add: knows_def)
      note a = add_received_ok [OF k(1) Pair [unfolded Inr]]
      have "knows i (s\<lparr>received_ids := rec\<rparr>)" using a(1) a(3) [OF k(2)] by (simp add: knows_def)
      with Pair Inr show ?thesis by (simp add: always_def list_all_iff)
    qed (use Pair in \<open>simp add: always_def list_all_iff\<close>)
  qed
  have confirm: "may (\<lambda>(ref, rec). knows i (s\<lparr>received_ids := rec\<rparr>)) (processConfirmCmdUDP resp (received_ids s))"
    unfolding processConfirmCmdUDP_def
    by (rule may_step, rule may_step, rule may_step, rule always_bind [OF added]) (simp add: always_ret)
  show "may (knows i) (handle_invalid rv args resp s)"
    unfolding handle_invalid_def
  proof (rule may_step, rule always_bind [OF confirm], clarify)
    fix ref rec
    assume "knows i (s\<lparr>received_ids := rec\<rparr>)"
    then show "may (knows i)
        (bind_io (send_confirm_udp rv args ref (s\<lparr>received_ids := rec\<rparr>)) (\<lambda>s1.
         bind_io (send_err_udp rv args s1) (\<lambda>s2.
         bind_io (send_bye_udp rv args s2) (\<lambda>s3. ret (s3\<lparr>curr_state_u := END\<rparr>)))))"
      by (intro always_bind [OF may_confirm_knows] always_bind [OF may_err_knows] always_bind [OF may_bye_knows]
          always_ret) (simp_all add: knows_state)
  qed
qed

lemma may_sock:
  assumes "knows i s"
  shows "may (knows i) (start_sock rv args resp s)" and "may (knows i) (open_sock rv args resp s)"
proof -
  have bye: "may (knows i) (bind_io (send_bye_udp rv args s) (\<lambda>s'. ret (s'\<lparr>curr_state_u := END\<rparr>)))"
    by (rule always_bind [OF may_bye_knows [OF assms]]) (simp add: always_ret knows_state)
  have ended: "may (knows i) (ret (s\<lparr>curr_state_u := END\<rparr>))"
    using assms by (simp add: always_ret knows_state)
  show "may (knows i) (start_sock rv args resp s)"
    unfolding start_sock_def by (rule may_step) (auto intro: may_handle [OF assms] bye always_ret assms)
  show "may (knows i) (open_sock rv args resp s)"
    unfolding open_sock_def
    by (rule may_step) (auto intro: may_handle [OF assms] ended always_ret assms)
qed

section \<open>Messages received twice\<close>

text \<open>The first three bytes of a datagram that is not \<open>CONFIRM\<close>.\<close>

definition message_of :: "u8 list \<Rightarrow> u8 \<times> u8 \<Rightarrow> bool" where
  "message_of d i \<longleftrightarrow> (\<exists>t r. d = t # fst i # snd i # r \<and> t \<noteq> 0)"

lemma receive_id_eq:
  assumes "message_of d i" and "ids_ok (received_ids s)"
  shows "receive_id (response_of d) s =
    (if seen (received_ids s) i then ret None
     else bind_io (add_received_message_id (received_ids s) i) (\<lambda>rec. ret (Some (s\<lparr>received_ids := rec\<rparr>))))"
proof -
  obtain t r where d: "d = t # fst i # snd i # r" "t \<noteq> 0" using assms(1) by (auto simp: message_of_def)
  then have "response_of d = Some t # Some (fst i) # Some (snd i) # map Some (take 97 r) @
      replicate (1024 - length (take 100 d)) None"
    by (simp add: response_of_def)
  with d(2) check_received_eq [OF assms(2)] show ?thesis
    by (simp add: receive_id_def processMessageID_def arr_get_head)
qed

lemma receive_new:
  assumes "message_of d i" and "ids_ok (received_ids s)" and "receive_id (response_of d) s = (Inr (Some s'), w)"
  shows "knows i s'" and "curr_state_u s' = curr_state_u s" and "w = []"
proof -
  from assms(3) obtain rec where rec: "add_received_message_id (received_ids s) i = (Inr rec, w)"
      "s' = s\<lparr>received_ids := rec\<rparr>"
    unfolding receive_id_eq [OF assms(1,2)] by (auto simp: bind_ok_iff split: if_splits)
  from add_received_ok [OF assms(2) rec(1)] rec(2)
  show "knows i s'" "curr_state_u s' = curr_state_u s" "w = []" by (simp_all add: knows_def)
qed

theorem duplicate_dropped:
  assumes "message_of d i" and "ids_ok (received_ids s)" and "fsm_udp rv args (SockRead port d) s = (Inr s', w)"
  shows "fsm_udp rv args (SockRead port' d) s' = (Inr s', [])"
proof -
  have d: "d \<noteq> []" using assms(1) by (auto simp: message_of_def)
  let ?args = "args\<lparr>server_port := port\<rparr>"
  let ?f = "\<lambda>r. case r of None \<Rightarrow> ret s | Some s1 \<Rightarrow> (case curr_state_u s1 of
           START \<Rightarrow> start_sock rv ?args (response_of d) s1
         | OPEN \<Rightarrow> open_sock rv ?args (response_of d) s1
         | _ \<Rightarrow> ret s1)"
  have "bind_io (receive_id (response_of d) s) ?f = (Inr s', w)"
    using assms(3) d by (simp add: fsm_udp_def Let_def)
  then obtain r u v where r: "receive_id (response_of d) s = (Inr r, u)"
      "?f r = (Inr s', v)"
    unfolding bind_ok_iff by blast
  have "knows i s'"
  proof (cases r)
    case None
    then have "seen (received_ids s) i"
      using r(1) unfolding receive_id_eq [OF assms(1,2)] by (auto simp: bind_ok_iff split: if_splits)
    with None r(2) assms(2) show ?thesis by (simp add: knows_def)
  next
    case (Some s1)
    have s1: "knows i s1" by (rule receive_new(1) [OF assms(1,2) r(1) [unfolded Some]])
    have "may (knows i) (case curr_state_u s1 of
           START \<Rightarrow> start_sock rv ?args (response_of d) s1
         | OPEN \<Rightarrow> open_sock rv ?args (response_of d) s1
         | _ \<Rightarrow> ret s1)"
      using may_sock [OF s1] s1 by (auto intro: always_ret split: FSMState.splits)
    with Some r(2) show ?thesis by (simp add: always_def)
  qed
  then have "receive_id (response_of d) s' = ret None"
    using receive_id_eq [OF assms(1), of s'] by (simp add: knows_def)
  with d have "fsm_udp rv args (SockRead port' d) s' = ret s'"
    by (simp add: fsm_udp_def Let_def)
  then show ?thesis by (simp add: ret_def)
qed

section \<open>Messages\<close>

lemma response_short: "length d \<le> 100 \<Longrightarrow> response_of d = map Some d @ replicate (1024 - length d) None"
  by (simp add: response_of_def)

lemma message_of_bytes: "t \<noteq> 0 \<Longrightarrow> message_of (msg_bytes t i fs) i"
  by (simp add: message_of_def msg_bytes_def)

lemma send_confirm_eq:
  assumes "0 < unat (udp_retransmissions args)"
  shows "send_confirm_udp True args (id_int a b) s = (Inr (find_errno s), [SendTo (server_port args) [0, echo_high a b, b]])"
proof -
  have *: "construct_confirm_udp (replicate 3 None) (id_int a b) = ret (map Some [0, echo_high a b, b], 3)"
    using confirm_echo [of "replicate 3 None" a b] by simp
  have "buffer_bytes (map Some [0, echo_high a b, b]) 3 = ret [0, echo_high a b, b]"
    by (simp add: buffer_bytes_def)
  with * send_loop_confirm [OF assms, of "[0, echo_high a b, b]"] show ?thesis
    by (simp add: send_confirm_udp_def udp_send_def bind_pair)
qed

theorem message_shown:
  assumes "curr_state_u s = OPEN" and "ids_ok (received_ids s)" and "\<not> seen (received_ids s) i"
    and "ids_index (received_ids s) < 100" and "0 < unat (udp_retransmissions args)"
    and "0 \<notin> set name" and "0 \<notin> set content" and "length name + length content + 5 \<le> 100"
  shows "\<exists>s'. fsm_udp True args (SockRead port (msg_bytes 0x04 i [name, content])) s =
      (Inr s', [Print (name @ bytes_of '': '' @ content @ [10]),
                SendTo port [0, echo_high (fst i) (snd i), snd i]]) \<and> knows i s' \<and> curr_state_u s' = OPEN"
proof -
  let ?d = "msg_bytes 0x04 i [name, content]"
  let ?args = "args\<lparr>server_port := port\<rparr>"
  have resp: "response_of ?d = map Some ?d @ replicate (1024 - length ?d) None"
    using assms(8) by (intro response_short) simp
  have m: "message_of ?d i" by (rule message_of_bytes) simp
  have nonempty: "?d \<noteq> []" by (simp add: msg_bytes_def)
  obtain rec where rec: "add_received_message_id (received_ids s) i = ret rec"
    using add_received_eq [OF assms(2)] assms(4) by simp
  then have "add_received_message_id (received_ids s) i = (Inr rec, [])" by (simp add: ret_def)
  note new = add_received_ok [OF assms(2) this]
  let ?s = "s\<lparr>received_ids := rec\<rparr>"
  have r: "receive_id (response_of ?d) s = ret (Some ?s)"
    unfolding receive_id_eq [OF m assms(2)] using rec assms(3) by simp
  have t: "arr_get (response_of ?d) 0 = (ret 4 :: u8 chat_io)"
    by (simp add: resp) (simp add: msg_bytes_def arr_get_def)
  have "handle_msg True ?args (response_of ?d) ?s =
      (Inr (find_errno ?s), [Print (name @ bytes_of '': '' @ content @ [10]), SendTo port [0, echo_high (fst i) (snd i), snd i]])"
    using process_msg_built [OF assms(6,7)] send_confirm_eq [of ?args] assms(5)
    by (simp add: handle_msg_def resp print_from_def bind_emit bytes_of_def)
  with r t assms(1) have "fsm_udp True args (SockRead port ?d) s =
      (Inr (find_errno ?s), [Print (name @ bytes_of '': '' @ content @ [10]), SendTo port [0, echo_high (fst i) (snd i), snd i]])"
    using nonempty by (simp add: fsm_udp_def Let_def open_sock_def)
  with new assms(1) keeps_errno [of ?s] show ?thesis by (auto simp: knows_def keeps_def)
qed

text \<open>A message that does not fit into the bytes received is read past them.\<close>

theorem long_message_faults:
  assumes "curr_state_u s = OPEN" and "ids_ok (received_ids s)" and "\<not> seen (received_ids s) i"
    and "ids_index (received_ids s) < 100" and "0 \<notin> set name" and "0 \<notin> set content"
    and "100 < length name + length content + 5"
  shows "fsm_udp rv args (SockRead port (msg_bytes 0x04 i [name, content])) s = stop (Fault Uninitialised)"
proof -
  let ?d = "msg_bytes 0x04 i [name, content]"
  have len: "length (take 100 ?d) = 100" using assms(7) by simp
  have resp: "response_of ?d = map Some (take 100 ?d) @ replicate 924 None"
    unfolding response_of_def len by simp
  have m: "message_of ?d i" by (rule message_of_bytes) simp
  have nonempty: "?d \<noteq> []" by (simp add: msg_bytes_def)
  obtain rec where rec: "add_received_message_id (received_ids s) i = ret rec"
    using add_received_eq [OF assms(2)] assms(4) by simp
  let ?s = "s\<lparr>received_ids := rec\<rparr>"
  have r: "receive_id (response_of ?d) s = ret (Some ?s)"
    unfolding receive_id_eq [OF m assms(2)] using rec assms(3) by simp
  have d: "take 100 ?d = [4, fst i, snd i] @ take 97 (name @ 0 # content @ [0])"
    by (simp add: msg_bytes_def fields_bytes_def)
  have t: "arr_get (response_of ?d) 0 = (ret 4 :: u8 chat_io)" and id: "get_id (response_of ?d) 1 = ret (id_int (fst i) (snd i))"
    by (simp_all add: resp d arr_get_head get_id_def)
  have rep: "replicate 924 (None :: u8 option) = None # replicate 923 None" by (simp add: numeral_eq_Suc)
  have three: "drop 3 (response_of ?d) = map Some (take 97 (name @ 0 # content @ [0])) @ None # replicate 923 None"
    unfolding resp d rep by (simp add: numeral_3_eq_3)
  have "handle_msg rv a (response_of ?d) ?s = stop (Fault Uninitialised)" for a
  proof (cases "97 \<le> length name")
    case True
    have "0 \<notin> set (take 97 name)" using assms(5) by (meson in_set_takeD)
    then have "cstring_at (response_of ?d) 3 = stop (Fault Uninitialised)"
      using True by (simp add: cstring_at_def three read_cstr_unterminated)
    then show ?thesis by (simp add: handle_msg_def processMsgCmdUDP_def id)
  next
    case False
    define k where "k = 96 - length name"
    have k: "take 97 (name @ 0 # content @ [0]) = name @ 0 # take k (content @ [0])"
      using False by (simp add: k_def take_Cons' Suc_diff_le)
    have kc: "take k (content @ [0]) = take k content" using assms(7) by (simp add: k_def)
    have name: "cstring_at (response_of ?d) 3 = ret name"
      unfolding cstring_at_def three k by (simp add: read_cstr_ok [OF assms(5)])
    have "drop (4 + length name) (response_of ?d) = drop (1 + length name) (drop 3 (response_of ?d))"
      by (simp add: drop_drop numeral_eq_Suc)
    also have "\<dots> = map Some (take k content) @ None # replicate 923 None"
      unfolding three k kc by simp
    finally have "cstring_at (response_of ?d) (4 + length name) =
        read_cstr (map Some (take k content) @ None # replicate 923 None)"
      by (simp add: cstring_at_def)
    moreover have "0 \<notin> set (take k content)" using assms(6) by (meson in_set_takeD)
    ultimately have "cstring_at (response_of ?d) (4 + length name) = stop (Fault Uninitialised)"
      by (simp add: read_cstr_unterminated)
    with name show ?thesis by (simp add: handle_msg_def processMsgCmdUDP_def id)
  qed
  with r t assms(1) show ?thesis
    using nonempty by (simp add: fsm_udp_def Let_def open_sock_def)
qed

end
