(* ===== verification/Chat_Tcp.thy ===== *)
theory Chat_Tcp
  imports Chat_Receive
begin

text \<open>
  The TCP variant of the chat client, \<open>tcp_handler.c\<close> and \<open>fsm_tcp.c\<close>, the test server
  \<open>tcp_server.c\<close>, and \<open>main\<close> with \<open>epoll_handler.c\<close>. \<open>read_from_server\<close> returns a pointer to its own
  array, which is gone when the caller reads it: what such a read gives is the parameter \<open>dead\<close>.
  The answers of the operating system are parameters. Of \<open>perror\<close> only the given text is kept.
\<close>

section \<open>Messages\<close>

definition crlf :: "u8 list" where "crlf = [13, 10]"

definition AUTH_MESSAGE :: "u8 list \<Rightarrow> u8 list \<Rightarrow> u8 list \<Rightarrow> u8 list" where
  "AUTH_MESSAGE u d p = bytes_of ''AUTH '' @ u @ bytes_of '' AS '' @ d @ bytes_of '' USING '' @ p @ crlf"

definition JOIN_MESSAGE :: "u8 list \<Rightarrow> u8 list \<Rightarrow> u8 list" where
  "JOIN_MESSAGE c d = bytes_of ''JOIN '' @ c @ bytes_of '' AS '' @ d @ crlf"

definition MSG_MESSAGE :: "u8 list \<Rightarrow> u8 list \<Rightarrow> u8 list" where
  "MSG_MESSAGE d c = bytes_of ''MSG FROM '' @ d @ bytes_of '' IS '' @ c @ crlf"

definition ERR_MESSAGE :: "u8 list \<Rightarrow> u8 list" where
  "ERR_MESSAGE d = bytes_of ''ERR FROM '' @ d @ bytes_of '' IS Unknown command'' @ crlf"

definition BYE_MESSAGE :: "u8 list" where "BYE_MESSAGE = bytes_of ''BYE'' @ crlf"

text \<open>\<open>snprintf\<close> into a buffer of \<open>n\<close> bytes keeps one for the zero.\<close>

definition snprintf :: "nat \<Rightarrow> u8 list \<Rightarrow> u8 list" where
  "snprintf n s = take (n - 1) s"

record ReplyResponse =
  is_ok :: bool
  reply_message :: "u8 list"

record TextResponse =
  from_name :: "u8 list option"
  text_content :: "u8 list"

record JoinResponse =
  join_channel :: "u8 list option"
  join_name :: "u8 list option"

text \<open>\<open>strcmp\<close> and \<open>strcpy\<close> do not take the null pointer; the contents have 1400 bytes.\<close>

definition copy_1400 :: "u8 list option \<Rightarrow> u8 list chat_io" where
  "copy_1400 m =
     (case m of None \<Rightarrow> stop (Fault NullPointer)
      | Some c \<Rightarrow> if length c < 1400 then ret c else stop (Fault OutOfBounds))"

definition extract_reply :: "u8 list \<Rightarrow> ReplyResponse chat_io" where
  "extract_reply s =
     (case strtok blank s of (_, r1) \<Rightarrow>
      case strtok blank r1 of (status, r2) \<Rightarrow>
      case strtok blank r2 of (_, r3) \<Rightarrow>
      case strtok crlf r3 of (m, _) \<Rightarrow>
        (case status of None \<Rightarrow> stop (Fault NullPointer)
         | Some st \<Rightarrow> bind_io (copy_1400 m) (\<lambda>c. ret \<lparr>is_ok = (st = bytes_of ''OK''), reply_message = c\<rparr>)))"

text \<open>\<open>extract_err\<close> and \<open>extract_msg\<close> have the same body.\<close>

definition extract_text :: "u8 list \<Rightarrow> TextResponse chat_io" where
  "extract_text s =
     (case strtok blank s of (_, r1) \<Rightarrow>
      case strtok blank r1 of (_, r2) \<Rightarrow>
      case strtok blank r2 of (name, r3) \<Rightarrow>
      case strtok blank r3 of (_, r4) \<Rightarrow>
      case strtok crlf r4 of (m, _) \<Rightarrow>
        bind_io (copy_1400 m) (\<lambda>c. ret \<lparr>from_name = name, text_content = c\<rparr>))"

definition extract_err :: "u8 list \<Rightarrow> TextResponse chat_io" where
  "extract_err s = extract_text s"

definition extract_msg :: "u8 list \<Rightarrow> TextResponse chat_io" where
  "extract_msg s = extract_text s"

definition extract_auth :: "u8 list \<Rightarrow> AuthResponse" where
  "extract_auth s =
     (case strtok blank s of (_, r1) \<Rightarrow>
      case strtok blank r1 of (u, r2) \<Rightarrow>
      case strtok blank r2 of (_, r3) \<Rightarrow>
      case strtok blank r3 of (d, r4) \<Rightarrow>
      case strtok blank r4 of (_, r5) \<Rightarrow>
      case strtok crlf r5 of (p, _) \<Rightarrow> \<lparr>display_name = d, username = u, password = p\<rparr>)"

definition extract_join :: "u8 list \<Rightarrow> JoinResponse" where
  "extract_join s =
     (case strtok blank s of (_, r1) \<Rightarrow>
      case strtok blank r1 of (c, r2) \<Rightarrow>
      case strtok blank r2 of (_, r3) \<Rightarrow>
      case strtok crlf r3 of (d, _) \<Rightarrow> \<lparr>join_channel = c, join_name = d\<rparr>)"

section \<open>The state machine\<close>

record tcp_state =
  curr_state :: FSMState
  tcp_DISPLAYNAME :: "u8 list"

definition tcp_init :: tcp_state where
  "tcp_init = \<lparr>curr_state = START, tcp_DISPLAYNAME = []\<rparr>"

text \<open>Standard input as for UDP; at the socket, the bytes that \<open>recv\<close> would give, none at the end.\<close>

datatype tcp_input = TcpEof | TcpAgain | TcpLine "u8 list" | TcpSock "u8 list"

definition MAX_BUFFER_SIZE :: nat where "MAX_BUFFER_SIZE = 1024"

definition read_from_server :: "u8 list \<Rightarrow> u8 option list chat_io" where
  "read_from_server d =
     bind_io (if d = [] then emit (Print (bytes_of ''Server disconnected'' @ [10])) else ret ()) (\<lambda>_.
       ret (map Some (take MAX_BUFFER_SIZE d) @ replicate (MAX_BUFFER_SIZE - length d) None))"

definition lower_byte :: "u8 \<Rightarrow> u8" where
  "lower_byte b = (if 65 \<le> uint b \<and> uint b \<le> 90 then b + 32 else b)"

definition strncaseeq :: "u8 list \<Rightarrow> string \<Rightarrow> nat \<Rightarrow> bool" where
  "strncaseeq s t n \<longleftrightarrow> map lower_byte (take n s) = map lower_byte (take n (bytes_of t))"

definition authenticate :: "u8 list \<Rightarrow> tcp_state \<Rightarrow> (int \<times> tcp_state) chat_io" where
  "authenticate line s =
     (let r = processAuthCmd line in
      case (username r, display_name r, password r) of
        (Some u, Some d, Some p) \<Rightarrow>
          bind_io (set_DISPLAYNAME (Some d)) (\<lambda>n.
          bind_io (emit (SendTcp (snprintf 500 (AUTH_MESSAGE u d p)))) (\<lambda>_. ret (0, s\<lparr>tcp_DISPLAYNAME := n\<rparr>)))
      | _ \<Rightarrow>
          bind_io (emit (err_line ''ERR: Invalid /auth command. Usage: /auth <username> <password> <display_name>''))
            (\<lambda>_. ret (-1, s)))"

definition tcp_start :: "u8 list \<Rightarrow> tcp_state \<Rightarrow> tcp_state chat_io" where
  "tcp_start line s =
     (if parse_command line = MESSAGE
      then bind_io (emit (err_line ''ERR: You cannot send messages before authentication.'')) (\<lambda>_. ret s)
      else if parse_command line \<noteq> AUTHENTICATE
      then bind_io (emit (err_line ''ERR: First, you have to authenticate.'')) (\<lambda>_. ret s)
      else bind_io (authenticate line s) (\<lambda>(rc, s'). ret (if rc = 0 then s'\<lparr>curr_state := AUTH\<rparr> else s')))"

definition show_reply :: "ReplyResponse \<Rightarrow> unit chat_io" where
  "show_reply r =
     emit (PrintErr (bytes_of (if is_ok r then ''Success: '' else ''Failure: '') @ reply_message r @ [10]))"

text \<open>\<open>%s\<close> with a null pointer is undefined.\<close>

definition show_text :: "(u8 list \<Rightarrow> chat_event) \<Rightarrow> string \<Rightarrow> TextResponse \<Rightarrow> unit chat_io" where
  "show_text ev pre t =
     (case from_name t of None \<Rightarrow> stop (Fault NullPointer)
      | Some n \<Rightarrow> emit (ev (bytes_of pre @ n @ bytes_of '': '' @ text_content t @ [10])))"

definition tcp_auth_sock ::
  "(u8 option list \<Rightarrow> u8 list chat_io) \<Rightarrow> u8 list \<Rightarrow> tcp_state \<Rightarrow> tcp_state chat_io" where
  "tcp_auth_sock dead d s =
     bind_io (read_from_server d) (\<lambda>buf.
     bind_io (dead buf) (\<lambda>m.
       if strncaseeq m ''REPLY'' 5 then
         bind_io (extract_reply m) (\<lambda>r.
         bind_io (show_reply r) (\<lambda>_. ret (s\<lparr>curr_state := (if is_ok r then OPEN else START)\<rparr>)))
       else if strncaseeq m ''ERR'' 3 then
         bind_io (extract_err m) (\<lambda>t.
         bind_io (show_text PrintErr ''ERR FROM '' t) (\<lambda>_.
         bind_io (emit (SendTcp BYE_MESSAGE)) (\<lambda>_. ret s)))
       else ret s))"

definition tcp_open_sock ::
  "(u8 option list \<Rightarrow> u8 list chat_io) \<Rightarrow> u8 list \<Rightarrow> tcp_state \<Rightarrow> tcp_state chat_io" where
  "tcp_open_sock dead d s =
     bind_io (read_from_server d) (\<lambda>buf.
     bind_io (dead buf) (\<lambda>m.
       if strncaseeq m ''MSG'' 3 then
         bind_io (extract_msg m) (\<lambda>t. bind_io (show_text Print '''' t) (\<lambda>_. ret s))
       else if strncaseeq m ''ERR'' 3 then
         bind_io (extract_err m) (\<lambda>t. bind_io (show_text PrintErr ''ERR FROM '' t) (\<lambda>_. ret s))
       else if strncaseeq m ''REPLY'' 5 then
         bind_io (extract_reply m) (\<lambda>r. bind_io (show_reply r) (\<lambda>_. ret s))
       else
         bind_io (emit (err_line ''ERR: Unknown command.'')) (\<lambda>_.
         bind_io (emit (SendTcp (snprintf 600 (ERR_MESSAGE (tcp_DISPLAYNAME s))))) (\<lambda>_. ret s))))"

definition tcp_open_stdin :: "u8 list \<Rightarrow> tcp_state \<Rightarrow> tcp_state chat_io" where
  "tcp_open_stdin line s =
     (case parse_command line of
        MESSAGE \<Rightarrow> bind_io (emit (SendTcp (snprintf 1000 (MSG_MESSAGE (tcp_DISPLAYNAME s) line)))) (\<lambda>_. ret s)
      | JOIN \<Rightarrow>
          (case fst (strtok blank (snd (strtok blank line))) of
             None \<Rightarrow> stop (Fault NullPointer)
           | Some c \<Rightarrow> bind_io (emit (SendTcp (snprintf 600 (JOIN_MESSAGE c (tcp_DISPLAYNAME s))))) (\<lambda>_. ret s))
      | RENAME \<Rightarrow>
          bind_io (set_DISPLAYNAME (fst (strtok blank (snd (strtok blank line))))) (\<lambda>n.
            ret (s\<lparr>tcp_DISPLAYNAME := n\<rparr>))
      | AUTHENTICATE \<Rightarrow> bind_io (emit (err_line ''ERR: You are already authenticated.'')) (\<lambda>_. ret s)
      | _ \<Rightarrow> bind_io show_help (\<lambda>_. ret s))"

definition tcp_end :: "tcp_state chat_io" where
  "tcp_end =
     bind_io (emits [Print BYE_MESSAGE, SendTcp BYE_MESSAGE, CloseSocket, CloseStdin]) (\<lambda>_. stop (Exit 0))"

definition tcp_bye :: "tcp_state \<Rightarrow> tcp_state chat_io" where
  "tcp_bye s = bind_io (emit (SendTcp BYE_MESSAGE)) (\<lambda>_. ret (s\<lparr>curr_state := END\<rparr>))"

fun fsm_tcp ::
  "(u8 option list \<Rightarrow> u8 list chat_io) \<Rightarrow> tcp_input \<Rightarrow> tcp_state \<Rightarrow> tcp_state chat_io" where
  "fsm_tcp dead TcpEof s = tcp_end"
| "fsm_tcp dead TcpAgain s = tcp_end"
| "fsm_tcp dead (TcpLine bs) s =
     bind_io (stdin_line bs) (\<lambda>line.
       case curr_state s of
         START \<Rightarrow> tcp_start line s
       | OPEN \<Rightarrow> tcp_open_stdin line s
       | END \<Rightarrow> tcp_end
       | _ \<Rightarrow> ret s)"
| "fsm_tcp dead (TcpSock d) s =
     (case curr_state s of
        START \<Rightarrow> tcp_bye s
      | AUTH \<Rightarrow> tcp_auth_sock dead d s
      | OPEN \<Rightarrow> tcp_open_sock dead d s
      | END \<Rightarrow> tcp_end
      | ERROR \<Rightarrow> ret s)"

primrec run_tcp ::
  "(u8 option list \<Rightarrow> u8 list chat_io) \<Rightarrow> tcp_input list \<Rightarrow> tcp_state \<Rightarrow> tcp_state chat_io" where
  "run_tcp dead [] s = ret s"
| "run_tcp dead (ev # evs) s = bind_io (fsm_tcp dead ev s) (run_tcp dead evs)"

section \<open>The test server\<close>

text \<open>One client; \<open>None\<close> is a failing \<open>recv\<close>.\<close>

fun server_loop :: "u8 list option list \<Rightarrow> unit chat_io" where
  "server_loop [] = ret ()"
| "server_loop (None # _) = bind_io (emit (PrintErr (bytes_of ''recv''))) (\<lambda>_. stop (Exit 1))"
| "server_loop (Some d # ds) =
     (if d = [] then emit (Print (bytes_of ''Client disconnected'' @ [10]))
      else (let buffer = map Some (take MAX_BUFFER_SIZE d @ replicate (MAX_BUFFER_SIZE - length d) 0) in
        bind_io (cstring_at buffer 0) (\<lambda>s.
        bind_io (emit (Print s)) (\<lambda>_.
        bind_io (if take 4 s = bytes_of ''AUTH'' then emit (SendTcp (bytes_of ''REPLY OK IS Auth success'' @ crlf))
                 else ret ()) (\<lambda>_. server_loop ds)))))"

record server_env =
  server_socket_ok :: bool
  bind_ok :: bool
  listen_ok :: bool
  accept_ok :: bool

definition die :: "string \<Rightarrow> 'a chat_io" where
  "die m = bind_io (emit (PrintErr (bytes_of m))) (\<lambda>_. stop (Exit 1))"

definition tcp_server :: "server_env \<Rightarrow> u8 list option list \<Rightarrow> int chat_io" where
  "tcp_server env ds =
     (if \<not> server_socket_ok env then die ''socket failed''
      else if \<not> bind_ok env then die ''bind failed''
      else if \<not> listen_ok env then die ''listen''
      else bind_io (emit (Print (bytes_of ''Server listening on port 4564'' @ [10]))) (\<lambda>_.
        if \<not> accept_ok env then die ''accept''
        else bind_io (emit (Print (bytes_of ''Client connected'' @ [10]))) (\<lambda>_.
             bind_io (server_loop ds) (\<lambda>_. bind_io (emits [CloseSocket, CloseSocket]) (\<lambda>_. ret 0)))))"

end
