(* ===== verification/Chat_Main.thy ===== *)
theory Chat_Main
  imports Chat_Tcp
begin

text \<open>
  \<open>epoll_handler.c\<close> and \<open>main\<close> of \<open>ipkchat24-client.c\<close>, and lemmas about the TCP variant: what is built for one
  side is read by the other.
\<close>

section \<open>The client\<close>

record os_env =
  sigaction_ok :: bool
  epoll_create_ok :: bool
  socket_ok :: bool
  epoll_ctl_ok :: bool
  name_resolves :: bool
  connect_ok :: bool
  lookup_errnos :: "bool option list"

definition get_epoll_fd :: "os_env \<Rightarrow> unit chat_io" where
  "get_epoll_fd env = (if epoll_create_ok env then ret () else die ''epoll_create1'')"

definition get_sock_fd :: "os_env \<Rightarrow> CLIArguments \<Rightarrow> unit chat_io" where
  "get_sock_fd env args =
     (case transport_protocol args of
        Some TCP \<Rightarrow>
          (if \<not> socket_ok env then die ''socket''
           else if \<not> epoll_ctl_ok env then die ''epoll_ctl''
           else if \<not> name_resolves env then get_ip_failed
           else if \<not> connect_ok env then die ''connect''
           else ret ())
      | Some UDP \<Rightarrow>
          (if \<not> socket_ok env then die ''socket''
           else if \<not> epoll_ctl_ok env then die ''epoll_ctl''
           else ret ())
      | None \<Rightarrow> die (''Invalid transport protocol'' @ [CHR 0x0A]))"

text \<open>An event that \<open>epoll_wait\<close> reports: the server hung up, or one for the state machine of the protocol.\<close>

datatype main_event = Hup | OnTcp tcp_input | OnUdp chat_input

definition main_step ::
  "(u8 option list \<Rightarrow> u8 list chat_io) \<Rightarrow> bool \<Rightarrow> CLIArguments \<Rightarrow> main_event \<Rightarrow> tcp_state \<times> udp_state \<Rightarrow>
   (tcp_state \<times> udp_state) chat_io" where
  "main_step dead rv args ev st =
     (case ev of
        Hup \<Rightarrow> bind_io (emit (err_line ''Server disconnected'')) (\<lambda>_. stop (Exit 0))
      | OnTcp i \<Rightarrow>
          if transport_protocol args = Some TCP
          then bind_io (fsm_tcp dead i (fst st)) (\<lambda>t. ret (t, snd st)) else ret st
      | OnUdp i \<Rightarrow>
          if transport_protocol args = Some UDP
          then bind_io (fsm_udp rv args i (snd st)) (\<lambda>u. ret (fst st, u)) else ret st)"

primrec main_loop ::
  "(u8 option list \<Rightarrow> u8 list chat_io) \<Rightarrow> bool \<Rightarrow> CLIArguments \<Rightarrow> main_event list \<Rightarrow> tcp_state \<times> udp_state \<Rightarrow>
   (tcp_state \<times> udp_state) chat_io" where
  "main_loop dead rv args [] st = ret st"
| "main_loop dead rv args (ev # evs) st = bind_io (main_step dead rv args ev st) (main_loop dead rv args evs)"

text \<open>\<open>evs\<close> are the events before the signal that sets \<open>exit_flag\<close>.\<close>

definition chat_main ::
  "os_env \<Rightarrow> (u8 option list \<Rightarrow> u8 list chat_io) \<Rightarrow> string \<Rightarrow> chat_option list \<Rightarrow> recv_result list \<Rightarrow>
   main_event list \<Rightarrow> int chat_io" where
  "chat_main env dead prog opts rs evs =
     (if \<not> sigaction_ok env then die ''sigaction''
      else bind_io (get_cli_arguments prog opts) (\<lambda>args.
           bind_io (get_epoll_fd env) (\<lambda>_.
           bind_io (get_sock_fd env args) (\<lambda>_.
           bind_io (main_loop dead (name_resolves env) args evs (tcp_init, udp_init (lookup_errnos env) rs)) (\<lambda>st.
           bind_io (emit (err_line ''Exiting application...'')) (\<lambda>_.
             if transport_protocol args = Some TCP
             then bind_io (emits [SendTcp BYE_MESSAGE, CloseSocket]) (\<lambda>_. ret 0)
             else bind_io (construct_bye_udp (replicate 3 None) (message_id (snd st))) (\<lambda>m.
                  bind_io (udp_send (name_resolves env) args (fst m, 3) (snd st)) (\<lambda>_. ret 0))))))))"

section \<open>Words\<close>

text \<open>A word: a string that \<open>strtok\<close> takes as one token.\<close>

definition word :: "u8 list \<Rightarrow> bool" where
  "word s \<longleftrightarrow> s \<noteq> [] \<and> 0 \<notin> set s \<and> 10 \<notin> set s \<and> 13 \<notin> set s \<and> 32 \<notin> set s"

definition text_line :: "u8 list \<Rightarrow> bool" where
  "text_line s \<longleftrightarrow> s \<noteq> [] \<and> 0 \<notin> set s \<and> 10 \<notin> set s \<and> 13 \<notin> set s"

lemma strtok_word: "word u \<Longrightarrow> strtok blank (u @ 32 # r) = (Some u, r)"
  by (rule strtok_token) (auto simp: word_def blank_def)

lemma strtok_line: "text_line u \<Longrightarrow> strtok crlf (u @ crlf) = (Some u, [10])"
  using strtok_token(1) [of u crlf 13 "[10]"] by (auto simp: text_line_def crlf_def)

lemma strtok_line': "text_line u \<Longrightarrow> strtok crlf (u @ 13 # r) = (Some u, r)"
  by (rule strtok_token) (auto simp: text_line_def crlf_def)

lemma strtok_no_delim: "s \<noteq> [] \<Longrightarrow> strtok [] s = (Some s, [])"
  by (simp add: strtok_def Let_def takeWhile_eq_all_conv [THEN iffD2])

lemma words [simp]:
  "word (bytes_of ''MSG'')" "word (bytes_of ''FROM'')" "word (bytes_of ''IS'')" "word (bytes_of ''ERR'')"
  "word (bytes_of ''REPLY'')" "word (bytes_of ''OK'')" "word (bytes_of ''NOK'')" "word (bytes_of ''AUTH'')"
  "word (bytes_of ''AS'')" "word (bytes_of ''USING'')" "word (bytes_of ''JOIN'')" "word (bytes_of ''/auth'')"
  by code_simp+

lemma bytes_of_append: "bytes_of (s @ t) = bytes_of s @ bytes_of t"
  by (simp add: bytes_of_def)

lemma bytes_of_phrases:
  "bytes_of ''MSG FROM '' = bytes_of ''MSG'' @ 32 # bytes_of ''FROM'' @ [32]"
  "bytes_of ''ERR FROM '' = bytes_of ''ERR'' @ 32 # bytes_of ''FROM'' @ [32]"
  "bytes_of '' IS '' = 32 # bytes_of ''IS'' @ [32]"
  "bytes_of ''AUTH '' = bytes_of ''AUTH'' @ [32]"
  "bytes_of '' AS '' = 32 # bytes_of ''AS'' @ [32]"
  "bytes_of '' USING '' = 32 # bytes_of ''USING'' @ [32]"
  "bytes_of ''JOIN '' = bytes_of ''JOIN'' @ [32]"
  "bytes_of ''REPLY OK IS '' = bytes_of ''REPLY'' @ 32 # bytes_of ''OK'' @ 32 # bytes_of ''IS'' @ [32]"
  "bytes_of ''REPLY NOK IS '' = bytes_of ''REPLY'' @ 32 # bytes_of ''NOK'' @ 32 # bytes_of ''IS'' @ [32]"
  by code_simp+

lemmas tokens = strtok_word strtok_line strtok_line' strtok_no_delim

lemma extract_msg_built:
  assumes "word d" and "text_line c" and "length c < 1400"
  shows "extract_msg (MSG_MESSAGE d c) = ret \<lparr>from_name = Some d, text_content = c\<rparr>"
proof -
  have "MSG_MESSAGE d c = bytes_of ''MSG'' @ 32 # (bytes_of ''FROM'' @ 32 # (d @ 32 # (bytes_of ''IS'' @ 32 # (c @ crlf))))"
    by (simp add: MSG_MESSAGE_def bytes_of_phrases)
  then show ?thesis
    using assms by (simp add: extract_msg_def extract_text_def tokens copy_1400_def)
qed

lemma extract_auth_built:
  assumes "word u" and "word d" and "text_line p"
  shows "extract_auth (AUTH_MESSAGE u d p) = \<lparr>display_name = Some d, username = Some u, password = Some p\<rparr>"
proof -
  have "AUTH_MESSAGE u d p = bytes_of ''AUTH'' @ 32 # (u @ 32 # (bytes_of ''AS'' @ 32 # (d @ 32 #
      (bytes_of ''USING'' @ 32 # (p @ crlf)))))"
    by (simp add: AUTH_MESSAGE_def bytes_of_phrases)
  then show ?thesis using assms by (simp add: extract_auth_def tokens)
qed

lemma extract_join_built:
  assumes "word c" and "text_line d"
  shows "extract_join (JOIN_MESSAGE c d) = \<lparr>join_channel = Some c, join_name = Some d\<rparr>"
proof -
  have "JOIN_MESSAGE c d = bytes_of ''JOIN'' @ 32 # (c @ 32 # (bytes_of ''AS'' @ 32 # (d @ crlf)))"
    by (simp add: JOIN_MESSAGE_def bytes_of_phrases)
  then show ?thesis using assms by (simp add: extract_join_def tokens)
qed

lemma extract_reply_built:
  assumes "text_line c" and "length c < 1400"
  shows "extract_reply (bytes_of ''REPLY OK IS '' @ c @ crlf) = ret \<lparr>is_ok = True, reply_message = c\<rparr>"
    and "extract_reply (bytes_of ''REPLY NOK IS '' @ c @ crlf) = ret \<lparr>is_ok = False, reply_message = c\<rparr>"
proof -
  have "bytes_of ''NOK'' \<noteq> bytes_of ''OK''" by code_simp
  with assms show "extract_reply (bytes_of ''REPLY OK IS '' @ c @ crlf) = ret \<lparr>is_ok = True, reply_message = c\<rparr>"
    and "extract_reply (bytes_of ''REPLY NOK IS '' @ c @ crlf) = ret \<lparr>is_ok = False, reply_message = c\<rparr>"
    by (simp_all add: bytes_of_phrases extract_reply_def tokens copy_1400_def)
qed

section \<open>Logging in\<close>

lemma processAuthCmd_words:
  assumes "word u" and "word p" and "text_line d"
  shows "processAuthCmd (bytes_of ''/auth'' @ 32 # u @ 32 # p @ 32 # d) =
    \<lparr>display_name = Some d, username = Some u, password = Some p\<rparr>"
proof -
  have tw: "takeWhile (\<lambda>c. c \<noteq> 10) d = d" using assms(3) by (auto simp: takeWhile_eq_all_conv text_line_def)
  have "cut_newline d = d" by (simp only: cut_newline_def Let_def tw if_cancel)
  moreover have "d \<noteq> []" using assms(3) by (simp add: text_line_def)
  ultimately show ?thesis using assms by (simp add: processAuthCmd_def tokens)
qed

lemma parse_auth: "parse_command (bytes_of ''/auth'' @ r) = AUTHENTICATE"
  by (simp add: parse_command_def bytes_of_def)

lemma stdin_line_newline:
  assumes "0 \<notin> set s" and "10 \<notin> set s" and "length s < 256"
  shows "stdin_line (s @ [10]) = ret s"
proof -
  have b: "take 256 (s @ [10]) @ replicate (256 - length (s @ [10])) 0 = s @ 10 # replicate (255 - length s) 0"
    using assms(3) by simp
  have "takeWhile (\<lambda>c. c \<noteq> 10 \<and> c \<noteq> 0) (s @ 10 # replicate (255 - length s) 0) = s"
    using assms(1,2) by (subst takeWhile_append2) auto
  with b assms(3) show ?thesis by (simp add: stdin_line_def Let_def)
qed

text \<open>The line \<open>/auth\<close> with a user, a password and a display name sends the message that the server expects.\<close>

lemma tcp_auth_sends:
  assumes "word u" and "word p" and "text_line d" and "length u + length p + length d < 240" and "curr_state s = START"
  shows "fsm_tcp dead (TcpLine (bytes_of ''/auth'' @ 32 # u @ 32 # p @ 32 # d @ [10])) s =
    (Inr (s\<lparr>curr_state := AUTH, tcp_DISPLAYNAME := d\<rparr>), [SendTcp (AUTH_MESSAGE u d p)])"
proof -
  let ?l = "bytes_of ''/auth'' @ 32 # u @ 32 # p @ 32 # d"
  have z: "0 \<notin> set (bytes_of ''/auth'')" "10 \<notin> set (bytes_of ''/auth'')" by code_simp+
  have len5: "length (bytes_of ''/auth'') = 5" by (simp add: bytes_of_def)
  have "stdin_line (?l @ [10]) = ret ?l"
    using assms z len5 by (intro stdin_line_newline) (auto simp: word_def text_line_def)
  moreover have "snprintf 500 (AUTH_MESSAGE u d p) = AUTH_MESSAGE u d p"
    using assms(4) by (simp add: snprintf_def AUTH_MESSAGE_def bytes_of_def crlf_def)
  moreover have "set_DISPLAYNAME (Some d) = ret d" using assms(4) by (simp add: set_DISPLAYNAME_def)
  ultimately show ?thesis
    using assms processAuthCmd_words [OF assms(1-3)]
    by (cases s) (simp add: tcp_start_def parse_auth authenticate_def bind_emit bind_pair)
qed

lemma server_answers:
  assumes "0 \<notin> set m" and "take 4 m = bytes_of ''AUTH''" and "length m < 1024"
  shows "server_loop (Some m # ds) =
    (fst (server_loop ds), Print m # SendTcp (bytes_of ''REPLY OK IS '' @ bytes_of ''Auth success'' @ crlf) #
      snd (server_loop ds))"
proof -
  have m: "m \<noteq> []" using assms(2) by (auto simp: bytes_of_def)
  obtain k where "1024 - length m = Suc k" using assms(3) by (cases "1024 - length m") auto
  then have b: "map Some (take MAX_BUFFER_SIZE m @ replicate (MAX_BUFFER_SIZE - length m) 0) =
      map Some m @ Some 0 # replicate k (Some 0)"
    using assms(3) by (simp add: MAX_BUFFER_SIZE_def)
  have "cstring_at (map Some (take MAX_BUFFER_SIZE m @ replicate (MAX_BUFFER_SIZE - length m) 0)) 0 = ret m"
    unfolding b cstring_at_def by (simp add: read_cstr_ok [OF assms(1)])
  moreover have "bytes_of ''REPLY OK IS Auth success'' = bytes_of ''REPLY OK IS '' @ bytes_of ''Auth success''"
    by (simp add: bytes_of_def)
  ultimately show ?thesis using m assms(2) by (simp add: bind_emit)
qed

text \<open>An answer that is read as it was sent lets the client in.\<close>

lemma tcp_reply_opens:
  assumes "curr_state s = AUTH" and "text_line c" and "length c < 900"
    and m: "m = bytes_of ''REPLY OK IS '' @ c @ crlf"
    and dead: "dead (map Some m @ replicate (1024 - length m) None) = ret m"
  shows "fsm_tcp dead (TcpSock m) s =
    (Inr (s\<lparr>curr_state := OPEN\<rparr>), [PrintErr (bytes_of ''Success: '' @ c @ [10])])"
proof -
  have "length (bytes_of ''REPLY OK IS '') = 12" by code_simp
  then have "length m < 1024" using assms(3) m by (auto simp: crlf_def)
  moreover have "m \<noteq> []" by (simp add: m crlf_def)
  ultimately have "read_from_server m = ret (map Some m @ replicate (1024 - length m) None)"
    by (simp add: read_from_server_def MAX_BUFFER_SIZE_def)
  moreover have "strncaseeq m ''REPLY'' 5" by (simp add: m strncaseeq_def bytes_of_def)
  moreover have "extract_reply m = ret \<lparr>is_ok = True, reply_message = c\<rparr>"
    using extract_reply_built(1) [OF assms(2)] assms(3) m by simp
  ultimately show ?thesis
    using assms(1) dead by (simp add: tcp_auth_sock_def show_reply_def bind_emit)
qed

section \<open>Before the client is let in\<close>

text \<open>What lets the client in, however it was read: the word \<open>REPLY\<close> at the start and the second word \<open>OK\<close>.\<close>

definition positive_text :: "u8 list \<Rightarrow> bool" where
  "positive_text m \<longleftrightarrow>
     strncaseeq m ''REPLY'' 5 \<and> fst (strtok blank (snd (strtok blank m))) = Some (bytes_of ''OK'')"

text \<open>A reading that prints nothing and gives no positive reply; it may be a fault.\<close>

definition not_let_in :: "u8 list chat_io \<Rightarrow> bool" where
  "not_let_in r \<longleftrightarrow> snd r = [] \<and> (\<forall>m. fst r = Inr m \<longrightarrow> \<not> positive_text m)"

text \<open>Only \<open>AUTH\<close> and \<open>BYE\<close> are sent, and no message is shown.\<close>

fun tcp_quiet :: "chat_event \<Rightarrow> bool" where
  "tcp_quiet (SendTcp m) \<longleftrightarrow> take 5 m = bytes_of ''AUTH '' \<or> m = BYE_MESSAGE"
| "tcp_quiet (Print t) \<longleftrightarrow> t = BYE_MESSAGE \<or> t = bytes_of ''Server disconnected'' @ [10]"
| "tcp_quiet _ \<longleftrightarrow> True"

definition tcp_outside :: "tcp_state \<Rightarrow> bool" where
  "tcp_outside s \<longleftrightarrow> curr_state s \<in> {START, AUTH, END}"

lemma extract_reply_ok: "extract_reply m = (Inr r, w) \<Longrightarrow> is_ok r \<longleftrightarrow> fst (strtok blank (snd (strtok blank m))) = Some (bytes_of ''OK'')"
  by (auto simp: extract_reply_def bind_ok_iff split: prod.splits option.splits)

lemma silent_extract: "snd (extract_reply m) = []" "snd (extract_err m) = []" "snd (extract_msg m) = []"
  by (auto simp: extract_reply_def extract_err_def extract_msg_def extract_text_def copy_1400_def
      split: prod.splits option.splits)

lemma always_tcp_end: "always tcp_quiet (\<lambda>_. True) Q tcp_end"
  by (simp add: tcp_end_def emits_def always_def bind_pair stop_def)

lemma always_tcp_start:
  assumes "tcp_outside s"
  shows "always tcp_quiet (\<lambda>_. True) tcp_outside (tcp_start line s)"
proof -
  have sent: "take 5 (snprintf 500 (AUTH_MESSAGE u d p)) = bytes_of ''AUTH ''" for u d p
    by (simp add: snprintf_def AUTH_MESSAGE_def bytes_of_def)
  show ?thesis
    using assms sent
    by (auto simp: tcp_start_def authenticate_def Let_def err_line_def tcp_outside_def set_DISPLAYNAME_def
        intro!: always_intros always_bind [where R = "\<lambda>_. True"] always_bind [where R = "\<lambda>(rc, s'). tcp_outside s'"]
        split: option.splits prod.splits)
qed

lemma always_tcp_auth:
  assumes "tcp_outside s" and "\<And>b w. read_from_server d = (Inr b, w) \<Longrightarrow> not_let_in (dead b)"
  shows "always tcp_quiet (\<lambda>_. True) tcp_outside (tcp_auth_sock dead d s)"
  unfolding tcp_auth_sock_def
proof (rule always_bind_val)
  show "always tcp_quiet (\<lambda>_. True) (\<lambda>_. True) (read_from_server d)"
    unfolding read_from_server_def
    by (intro always_bind [where R = "\<lambda>_. True"]) (auto intro!: always_intros)
  fix b w
  assume "read_from_server d = (Inr b, w)"
  then have b: "snd (dead b) = []" "\<And>m. fst (dead b) = Inr m \<Longrightarrow> \<not> positive_text m"
    using assms(2) by (auto simp: not_let_in_def)
  show "always tcp_quiet (\<lambda>_. True) tcp_outside (bind_io (dead b) (\<lambda>m.
       if strncaseeq m ''REPLY'' 5 then
         bind_io (extract_reply m) (\<lambda>r.
         bind_io (show_reply r) (\<lambda>_. ret (s\<lparr>curr_state := (if is_ok r then OPEN else START)\<rparr>)))
       else if strncaseeq m ''ERR'' 3 then
         bind_io (extract_err m) (\<lambda>t.
         bind_io (show_text PrintErr ''ERR FROM '' t) (\<lambda>_.
         bind_io (emit (SendTcp BYE_MESSAGE)) (\<lambda>_. ret s)))
       else ret s))"
  proof (rule always_bind_val [OF always_no_events [OF b(1)]])
    fix m w'
    assume "dead b = (Inr m, w')"
    then have m: "\<not> positive_text m" using b(2) by simp
    have "always tcp_quiet (\<lambda>_. True) tcp_outside (bind_io (extract_reply m) (\<lambda>r.
         bind_io (show_reply r) (\<lambda>_. ret (s\<lparr>curr_state := (if is_ok r then OPEN else START)\<rparr>))))"
      if "strncaseeq m ''REPLY'' 5"
      using m that
      by (intro always_bind_val [OF always_no_events [OF silent_extract(1)]])
        (auto simp: show_reply_def tcp_outside_def positive_text_def dest!: extract_reply_ok
          intro!: always_intros always_bind [where R = "\<lambda>_. True"])
    moreover have "always tcp_quiet (\<lambda>_. True) tcp_outside (bind_io (extract_err m) (\<lambda>t.
         bind_io (show_text PrintErr ''ERR FROM '' t) (\<lambda>_.
         bind_io (emit (SendTcp BYE_MESSAGE)) (\<lambda>_. ret s))))"
      using assms(1)
      by (intro always_silent [OF silent_extract(2)])
        (auto simp: show_text_def intro!: always_intros always_bind [where R = "\<lambda>_. True"] split: option.splits)
    ultimately show "always tcp_quiet (\<lambda>_. True) tcp_outside
      (if strncaseeq m ''REPLY'' 5 then
         bind_io (extract_reply m) (\<lambda>r.
         bind_io (show_reply r) (\<lambda>_. ret (s\<lparr>curr_state := (if is_ok r then OPEN else START)\<rparr>)))
       else if strncaseeq m ''ERR'' 3 then
         bind_io (extract_err m) (\<lambda>t.
         bind_io (show_text PrintErr ''ERR FROM '' t) (\<lambda>_.
         bind_io (emit (SendTcp BYE_MESSAGE)) (\<lambda>_. ret s)))
       else ret s)"
      using assms(1) by (auto intro: always_ret)
  qed
qed

lemma always_fsm_tcp:
  assumes "tcp_outside s" and "\<And>d b w. ev = TcpSock d \<Longrightarrow> read_from_server d = (Inr b, w) \<Longrightarrow> not_let_in (dead b)"
  shows "always tcp_quiet (\<lambda>_. True) tcp_outside (fsm_tcp dead ev s)"
proof (cases ev)
  case (TcpLine bs)
  have "snd (stdin_line bs) = []" by (simp add: stdin_line_def Let_def)
  then show ?thesis
    using assms(1) always_tcp_start always_tcp_end unfolding TcpLine fsm_tcp.simps
    by (intro always_silent) (auto simp: tcp_outside_def intro!: always_ret split: FSMState.splits)
next
  case (TcpSock d)
  have "always tcp_quiet (\<lambda>_. True) tcp_outside (tcp_bye s)"
    by (auto simp: tcp_bye_def tcp_outside_def intro!: always_intros always_bind [where R = "\<lambda>_. True"])
  with always_tcp_auth [OF assms(1) assms(2) [OF TcpSock]] always_tcp_end assms(1) TcpSock show ?thesis
    by (auto simp: tcp_outside_def split: FSMState.splits)
qed (simp_all add: always_tcp_end)

lemma always_run_tcp:
  assumes "tcp_outside s"
    and "\<And>d b w. TcpSock d \<in> set evs \<Longrightarrow> read_from_server d = (Inr b, w) \<Longrightarrow> not_let_in (dead b)"
  shows "always tcp_quiet (\<lambda>_. True) tcp_outside (run_tcp dead evs s)"
  using assms
proof (induction evs arbitrary: s)
  case (Cons ev evs)
  then show ?case by (auto intro!: always_bind [where R = tcp_outside] always_fsm_tcp)
qed (simp add: always_ret)

end
