(* ===== verification/Chat_Claims.thy ===== *)
theory Chat_Claims
  imports Chat_Main
begin

text \<open>The properties of the chat client \<open>ipk/1\<close>.\<close>

section \<open>A sample\<close>

definition sample_args :: CLIArguments where
  "sample_args = \<lparr>transport_protocol = Some UDP, server_ip = Some ''localhost'', server_port = 4567,
     udp_timeout = 250, udp_retransmissions = 3\<rparr>"

definition sample_open :: udp_state where
  "sample_open = (udp_init [] [])\<lparr>curr_state_u := OPEN, DISPLAYNAME := bytes_of ''me''\<rparr>"

lemma sample_ids: "ids_ok (received_ids sample_open)" "\<not> seen (received_ids sample_open) i"
    "ids_index (received_ids sample_open) < 100" "curr_state_u sample_open = OPEN"
  unfolding sample_open_def
  by (auto simp: udp_init_def no_ids_def ids_ok_def seen_def intro!: exI [of _ "replicate 100 (0, 0)"])

section \<open>States\<close>

text \<open>
  C7. Until a \<open>REPLY\<close> with a positive result has come, whatever the user types and whatever else the
  server sends, the client sends neither \<open>JOIN\<close> nor \<open>MSG\<close>, shows no message, and stays in the states
  \<open>START\<close> and \<open>END\<close>.
\<close>

theorem nothing_before_reply:
  assumes "\<forall>port d. SockRead port d \<in> set evs \<longrightarrow> \<not> positive_reply d"
  shows "list_all before_open (snd (run_udp rv args evs (udp_init es rs))) \<and>
    (\<forall>s. fst (run_udp rv args evs (udp_init es rs)) = Inr s \<longrightarrow> curr_state_u s \<in> {START, END})"
proof -
  have "outside_open (udp_init es rs)" by (simp add: outside_open_def udp_init_def)
  with assms have "always before_open (\<lambda>_. True) outside_open (run_udp rv args evs (udp_init es rs))"
    by (intro run_quiet) auto
  then show ?thesis by (auto simp: always_def outside_open_def split: sum.splits)
qed

theorem nothing_before_reply_witness:
  "list_all before_open (snd (run_udp True sample_args
     [StdinRead (bytes_of ''hello''), StdinRead (bytes_of ''/auth a b c''), SockRead 5000 [0, 0, 0]]
     (udp_init [] [Datagram [0, 0, 0]])))"
proof -
  have "list_all before_open (snd (run_udp True sample_args
     [StdinRead (bytes_of ''hello''), StdinRead (bytes_of ''/auth a b c''), SockRead 5000 [0, 0, 0]]
     (udp_init [] [Datagram [0, 0, 0]]))) \<and>
    (\<forall>s. fst (run_udp True sample_args
     [StdinRead (bytes_of ''hello''), StdinRead (bytes_of ''/auth a b c''), SockRead 5000 [0, 0, 0]]
     (udp_init [] [Datagram [0, 0, 0]])) = Inr s \<longrightarrow> curr_state_u s \<in> {START, END})"
    by (rule nothing_before_reply) (auto simp: positive_reply_def)
  then show ?thesis ..
qed

section \<open>Datagrams\<close>

text \<open>
  C8. Messages: in the state \<open>OPEN\<close>, a \<open>MSG\<close> of at most 100 bytes that was not seen before is shown with the
  sender's name and confirmed to the port it came from. The confirmation repeats the low byte of the
  message id; the high byte only if the low one is below 128, for the id is put together from signed
  characters.
\<close>

theorem message_is_shown:
  assumes "curr_state_u s = OPEN" and "ids_ok (received_ids s)" and "\<not> seen (received_ids s) (a, b)"
    and "ids_index (received_ids s) < 100" and "0 < unat (udp_retransmissions args)"
    and "0 \<notin> set name" and "0 \<notin> set content" and "length name + length content + 5 \<le> 100"
  shows "\<exists>s'. fsm_udp True args (SockRead port ([0x04, a, b] @ name @ [0] @ content @ [0])) s =
      (Inr s', [Print (name @ bytes_of '': '' @ content @ [10]),
                SendTo port [0, if bit b 7 then 0xFF else a, b]]) \<and> curr_state_u s' = OPEN"
  using message_shown [OF assms(1-8), of port]
  by (auto simp: msg_bytes_def fields_bytes_def echo_high_def)

theorem message_is_shown_witness:
  "\<exists>s'. fsm_udp True sample_args (SockRead 5000 ([0x04, 1, 0x80] @ bytes_of ''bob'' @ [0] @ bytes_of ''hi'' @ [0]))
      sample_open =
    (Inr s', [Print (bytes_of ''bob'' @ bytes_of '': '' @ bytes_of ''hi'' @ [10]), SendTo 5000 [0, 0xFF, 0x80]]) \<and>
     curr_state_u s' = OPEN"
proof -
  have "bit (0x80 :: u8) 7" by code_simp
  then show ?thesis
    using message_is_shown [OF sample_ids(4,1,2,3), of sample_args "bytes_of ''bob''" "bytes_of ''hi''" 5000 1 "0x80"]
    by (simp add: sample_args_def bytes_of_def)
qed

text \<open>
  C36. Long messages: \<open>recvfrom\<close> is given room for 100 bytes only. A longer \<open>MSG\<close>, which the protocol allows,
  leaves its text without a terminating zero, and the client reads on into bytes it never set.
\<close>

theorem long_message_unterminated:
  assumes "curr_state_u s = OPEN" and "ids_ok (received_ids s)" and "\<not> seen (received_ids s) (a, b)"
    and "ids_index (received_ids s) < 100" and "0 \<notin> set name" and "0 \<notin> set content"
    and "100 < length name + length content + 5"
  shows "fsm_udp rv args (SockRead port ([0x04, a, b] @ name @ [0] @ content @ [0])) s = stop (Fault Uninitialised)"
  using long_message_faults [OF assms(1-7), of rv args port] by (simp add: msg_bytes_def fields_bytes_def)

theorem long_message_unterminated_witness:
  "fsm_udp True sample_args (SockRead 5000 ([0x04, 0, 1] @ bytes_of ''bob'' @ [0] @ replicate 93 97 @ [0])) sample_open =
     stop (Fault Uninitialised)"
  by (rule long_message_unterminated [OF sample_ids(4,1,2,3)]) (auto simp: bytes_of_def)

text \<open>
  C35. Retransmissions of the server: a datagram other than \<open>CONFIRM\<close> that has been handled once changes nothing
  when it comes again, from any port, and nothing is sent for it: it is not even confirmed again.
\<close>

theorem duplicate_is_dropped:
  assumes "d = t # fst i # snd i # r" and "t \<noteq> 0" and "ids_ok (received_ids s)"
    and "fsm_udp rv args (SockRead port d) s = (Inr s', w)"
  shows "fsm_udp rv args (SockRead port' d) s' = (Inr s', [])"
proof -
  have "message_of d i" using assms(1,2) by (auto simp: message_of_def)
  then show ?thesis by (rule duplicate_dropped [OF _ assms(3,4)])
qed

theorem duplicate_is_dropped_witness:
  "\<exists>s'. fsm_udp True sample_args (SockRead 5000 [0x04, 0, 7, 98, 0, 104, 0]) s' = (Inr s', [])"
proof -
  obtain s' w where "fsm_udp True sample_args (SockRead 5000 ([0x04, 0, 7] @ [98] @ [0] @ [104] @ [0])) sample_open = (Inr s', w)"
    using message_shown [OF sample_ids(4,1,2,3), of sample_args "[98]" "[104]" 5000 "(0, 7)"]
    by (auto simp: msg_bytes_def fields_bytes_def sample_args_def)
  then have "fsm_udp True sample_args (SockRead 5000 [0x04, 0, 7, 98, 0, 104, 0]) sample_open = (Inr s', w)" by simp
  from duplicate_is_dropped [OF _ _ sample_ids(1) this, of 4 "(0, 7)" "[98, 0, 104, 0]" 5000] show ?thesis by auto
qed

section \<open>Sending\<close>

text \<open>
  C13. Waiting for a confirmation. Let \<open>xs\<close> be waits that end without a \<open>CONFIRM\<close>, fewer than the
  transmissions allowed, and let a \<open>CONFIRM\<close> come next. The client transmits once more than there are \<open>xs\<close> and
  returns, unless a wait has timed out (or \<open>errno\<close> said so before) and the time-out is below 1000 ms: then
  \<open>errno\<close> keeps the \<open>CONFIRM\<close>, and everything that follows, from being looked at, and the
  client exits after all its transmissions. From 1000 on \<open>setsockopt\<close> refuses the time-out and so resets
  \<open>errno\<close>. What else arrives in \<open>xs\<close> is dropped without a trace: it is neither shown nor confirmed.
\<close>

theorem udp_send_waits:
  assumes "hd data \<noteq> 0" and "buffer_bytes (fst m) (snd m) = ret data"
    and "list_all no_confirm xs" and "length xs < unat (udp_retransmissions args)"
    and "RecvError \<notin> set (take (unat (udp_retransmissions args)) rs)"
    and "arriving s = xs @ Datagram (0 # x) # rs"
  shows "udp_send True args m s =
    (if uint (udp_timeout args) < 1000 \<and> (would_block (find_errno s) \<or> TimedOut \<in> set xs)
     then (Inl (Exit 1), replicate (unat (udp_retransmissions args)) (SendTo (server_port args) data))
     else (Inr (find_errno s\<lparr>arriving := rs, would_block := False\<rparr>),
           replicate (Suc (length xs)) (SendTo (server_port args) data)))"
  using send_loop_heard [OF assms(1,3,4), of "udp_timeout args" "would_block (find_errno s)" "server_port args" x rs]
    send_loop_deaf [OF assms(1,3,4) _ assms(5), of "udp_timeout args" "would_block (find_errno s)" "server_port args" x]
    assms(2,6)
  by (simp add: udp_send_def bind_pair deaf_def timeout_accepted_def)

text \<open>The same stream of answers, with a time-out of 250 and of 1000 milliseconds.\<close>

theorem udp_send_waits_witness:
  "fst (udp_send True sample_args (map Some [0xFF, 0, 0], 3)
     (sample_open\<lparr>arriving := [TimedOut, Datagram [0, 0, 0]]\<rparr>)) = Inl (Exit 1) \<and>
   udp_send True (sample_args\<lparr>udp_timeout := 1000\<rparr>) (map Some [0xFF, 0, 0], 3)
     (sample_open\<lparr>arriving := [TimedOut, Datagram [0, 0, 0]]\<rparr>) =
     (Inr sample_open, [SendTo 4567 [0xFF, 0, 0], SendTo 4567 [0xFF, 0, 0]])"
proof -
  have b: "buffer_bytes (fst (map Some [0xFF, 0, 0 :: u8], 3)) (snd (map Some [0xFF, 0, 0 :: u8], 3)) = ret [0xFF, 0, 0]"
    by (simp add: buffer_bytes_def)
  let ?s = "sample_open\<lparr>arriving := [TimedOut, Datagram [0, 0, 0]]\<rparr>"
  have "find_errno ?s = ?s" by (simp add: find_errno_def sample_open_def udp_init_def)
  with udp_send_waits [OF _ b, of "[TimedOut]" sample_args "[]" ?s "[0, 0]"]
    udp_send_waits [OF _ b, of "[TimedOut]" "sample_args\<lparr>udp_timeout := 1000\<rparr>" "[]" ?s "[0, 0]"]
  show ?thesis by (simp add: sample_args_def sample_open_def udp_init_def)
qed

text \<open>
  C14. Lines from standard input. 256 bytes without a newline or a zero are read past their buffer, in every
  state. Any other line never leads out of an array, and the display name stays within its 256
  bytes; the client may exit when it has sent without an answer, and what can go wrong is the null
  pointer of a \<open>/join\<close> or \<open>/rename\<close> without its argument in \<open>OPEN\<close>, and the uninitialised buffer of \<open>udp_send\<close> if its
  \<open>recv\<close> fails or receives nothing.
\<close>

theorem stdin_overflow_exactly:
  assumes "length (DISPLAYNAME s) < 256"
  shows "if length bs < 256 \<or> 10 \<in> set (take 256 bs) \<or> 0 \<in> set (take 256 bs)
    then (\<exists>line. stdin_line bs = ret line \<and>
      (case fst (fsm_udp rv args (StdinRead bs) s) of
         Inr s' \<Rightarrow> length (DISPLAYNAME s') < 256
       | Inl h \<Rightarrow> h = Exit 1 \<or> h = Fault NullPointer \<and> curr_state_u s = OPEN \<and> argument_missing line \<or>
           h = Fault Uninitialised \<and> (RecvError \<in> set (arriving s) \<or> Datagram [] \<in> set (arriving s))))
    else fsm_udp rv args (StdinRead bs) s = stop (Fault OutOfBounds)"
proof (cases "length bs < 256 \<or> 10 \<in> set (take 256 bs) \<or> 0 \<in> set (take 256 bs)")
  case True
  from stdin_line_short [OF this] obtain line where line: "stdin_line bs = ret line" by blast
  then have len: "length line < 256" using stdin_line_length(1) [of bs line "[]"] by (simp add: ret_def)
  let ?H = "\<lambda>h. h = Exit 1 \<or> h = Fault NullPointer \<and> curr_state_u s = OPEN \<and> argument_missing line \<or>
    h = Fault Uninitialised \<and> unfilled (arriving s)"
  let ?Q = "\<lambda>s'. length (DISPLAYNAME s') < 256"
  have "always (\<lambda>_. True) ?H ?Q (start_stdin rv args line s)"
    by (rule always_mono [OF always_start_stdin]) (use len assms in \<open>simp_all add: named_def\<close>)
  moreover have "always (\<lambda>_. True) ?H ?Q (open_stdin rv args line s)" if "curr_state_u s = OPEN"
    by (rule always_mono [OF always_open_stdin]) (use len assms that in \<open>simp_all add: named_def\<close>)
  ultimately have "always (\<lambda>_. True) ?H ?Q (fsm_udp rv args (StdinRead bs) s)"
    using assms by (auto simp: fsm_udp_def line intro: always_ret split: FSMState.splits)
  then show ?thesis using True line by (simp only: if_True) (auto simp: always_def unfilled_def split: sum.splits)
next
  case False
  then show ?thesis by (simp add: fsm_udp_def stdin_line_long)
qed

theorem stdin_overflow_exactly_witness:
  "fsm_udp True sample_args (StdinRead (replicate 256 97)) sample_open = stop (Fault OutOfBounds)"
  using stdin_overflow_exactly [of sample_open "replicate 256 97" True sample_args]
  by (simp add: sample_open_def bytes_of_def)

section \<open>TCP\<close>

text \<open>
  C34. Round trips of the TCP messages: what is built from words and a line of text is taken apart into the
  same parts. The name in \<open>MSG\<close>, the user and the display name in \<open>AUTH\<close>, and the channel in \<open>JOIN\<close>
  have to be words; the rest may have blanks, but must not be empty.
\<close>

theorem tcp_messages_read_back:
  assumes "word d" and "word u" and "text_line c" and "length c < 1400"
  shows "extract_msg (MSG_MESSAGE d c) = ret \<lparr>from_name = Some d, text_content = c\<rparr> \<and>
    extract_auth (AUTH_MESSAGE u d c) = \<lparr>display_name = Some d, username = Some u, password = Some c\<rparr> \<and>
    extract_join (JOIN_MESSAGE d c) = \<lparr>join_channel = Some d, join_name = Some c\<rparr> \<and>
    extract_reply (bytes_of ''REPLY OK IS '' @ c @ crlf) = ret \<lparr>is_ok = True, reply_message = c\<rparr> \<and>
    extract_reply (bytes_of ''REPLY NOK IS '' @ c @ crlf) = ret \<lparr>is_ok = False, reply_message = c\<rparr>"
  using extract_msg_built [OF assms(1,3,4)] extract_auth_built [OF assms(2,1,3)] extract_join_built [OF assms(1,3)]
    extract_reply_built [OF assms(3,4)]
  by blast

theorem tcp_messages_read_back_witness:
  "extract_msg (MSG_MESSAGE (bytes_of ''bob'') (bytes_of ''hi there'')) =
     ret \<lparr>from_name = Some (bytes_of ''bob''), text_content = bytes_of ''hi there''\<rparr>"
proof -
  have "word (bytes_of ''bob'')" "text_line (bytes_of ''hi there'')" by code_simp+
  from tcp_messages_read_back [OF this(1,1,2)] show ?thesis by (simp add: bytes_of_def)
qed

text \<open>
  C15. The TCP client before it is let in, for any events and whatever reading the dead array of
  \<open>read_from_server\<close> gives, a fault included: as long as no reading gives a \<open>REPLY\<close> with \<open>OK\<close>, the client
  sends nothing but \<open>AUTH\<close> and \<open>BYE\<close>, shows no message, and stays in the states \<open>START\<close>, \<open>AUTH\<close> and \<open>END\<close>.
\<close>

theorem tcp_nothing_before_reply:
  assumes "\<forall>d b w. TcpSock d \<in> set evs \<longrightarrow> read_from_server d = (Inr b, w) \<longrightarrow> not_let_in (dead b)"
  shows "list_all tcp_quiet (snd (run_tcp dead evs tcp_init)) \<and>
    (\<forall>s. fst (run_tcp dead evs tcp_init) = Inr s \<longrightarrow> curr_state s \<in> {START, AUTH, END})"
proof -
  have "tcp_outside tcp_init" by (simp add: tcp_outside_def tcp_init_def)
  with assms have "always tcp_quiet (\<lambda>_. True) tcp_outside (run_tcp dead evs tcp_init)"
    by (intro always_run_tcp) auto
  then show ?thesis by (auto simp: always_def tcp_outside_def split: sum.splits)
qed

text \<open>A user who authenticates, is refused, and goes on to write; the dead array gives what was received.\<close>

definition intact :: "u8 option list \<Rightarrow> u8 list chat_io" where
  "intact buf = ret (map the (takeWhile (\<lambda>b. b \<noteq> None) buf))"

theorem tcp_nothing_before_reply_witness:
  "list_all tcp_quiet (snd (run_tcp intact
     [TcpLine (bytes_of ''/auth a b c''), TcpSock (bytes_of ''REPLY NOK IS no''), TcpLine (bytes_of ''hello'')] tcp_init))"
proof -
  have "not_let_in (intact b)" if "read_from_server (bytes_of ''REPLY NOK IS no'') = (Inr b, w)" for b w
  proof -
    have "b = map Some (bytes_of ''REPLY NOK IS no'') @ replicate 1009 None"
      using that by (simp add: read_from_server_def MAX_BUFFER_SIZE_def bytes_of_def)
    then have "intact b = ret (bytes_of ''REPLY NOK IS no'')"
      by (simp add: intact_def bytes_of_def)
    moreover have "\<not> positive_text (bytes_of ''REPLY NOK IS no'')" by code_simp
    ultimately show ?thesis by (simp add: not_let_in_def)
  qed
  then have "list_all tcp_quiet (snd (run_tcp intact
      [TcpLine (bytes_of ''/auth a b c''), TcpSock (bytes_of ''REPLY NOK IS no''), TcpLine (bytes_of ''hello'')] tcp_init)) \<and>
    (\<forall>s. fst (run_tcp intact
      [TcpLine (bytes_of ''/auth a b c''), TcpSock (bytes_of ''REPLY NOK IS no''), TcpLine (bytes_of ''hello'')] tcp_init) = Inr s \<longrightarrow>
      curr_state s \<in> {START, AUTH, END})"
    by (intro tcp_nothing_before_reply) auto
  then show ?thesis ..
qed

section \<open>Observations\<close>

text \<open>
  As the language has it, every answer of the server is a fault: the array is dead when it is read, and
  nothing put a zero behind the bytes received.
\<close>

lemma answer_not_terminated:
  assumes "0 \<notin> set d" and "length d < 1024" and "d \<noteq> []" and "curr_state s \<in> {AUTH, OPEN}"
  shows "fsm_tcp (\<lambda>buf. cstring_at buf 0) (TcpSock d) s = stop (Fault Uninitialised)"
proof -
  obtain k where "1024 - length d = Suc k" using assms(2) by (cases "1024 - length d") auto
  then have "cstring_at (map Some d @ replicate (1024 - length d) None) 0 = stop (Fault Uninitialised)"
    using read_cstr_unterminated [OF assms(1)] by (simp add: cstring_at_def)
  with assms show ?thesis
    by (auto simp: tcp_auth_sock_def tcp_open_sock_def read_from_server_def MAX_BUFFER_SIZE_def)
qed

text \<open>
  So a login over TCP ends in a fault: the client sends \<open>AUTH\<close>, the test server prints it and answers, and the
  answer is read behind what was received.
\<close>

lemma tcp_login_faults:
  assumes "word u" and "word p" and "text_line d" and "length u + length p + length d < 240"
  shows "\<exists>message answer s.
    fsm_tcp dead (TcpLine (bytes_of ''/auth'' @ 32 # u @ 32 # p @ 32 # d @ [10])) tcp_init = (Inr s, [SendTcp message]) \<and>
    snd (server_loop [Some message]) = [Print message, SendTcp answer] \<and>
    fsm_tcp (\<lambda>buf. cstring_at buf 0) (TcpSock answer) s = stop (Fault Uninitialised)"
proof -
  let ?m = "AUTH_MESSAGE u d p" and ?a = "bytes_of ''REPLY OK IS '' @ bytes_of ''Auth success'' @ crlf"
  let ?s = "tcp_init\<lparr>curr_state := AUTH, tcp_DISPLAYNAME := d\<rparr>"
  have 1: "fsm_tcp dead (TcpLine (bytes_of ''/auth'' @ 32 # u @ 32 # p @ 32 # d @ [10])) tcp_init = (Inr ?s, [SendTcp ?m])"
    by (rule tcp_auth_sends [OF assms(1-4)]) (simp add: tcp_init_def)
  have z: "0 \<notin> set (bytes_of x)" if "x \<in> {''AUTH '', '' AS '', '' USING ''}" for x
    using that by (auto simp: bytes_of_def)
  have "0 \<notin> set ?m" "length ?m < 1024" "take 4 ?m = bytes_of ''AUTH''"
    using assms(1-4) z by (auto simp: AUTH_MESSAGE_def crlf_def word_def text_line_def bytes_of_def)
  from server_answers [OF this(1,3,2), of "[]"]
  have 2: "snd (server_loop [Some ?m]) = [Print ?m, SendTcp ?a]" by simp
  have "0 \<notin> set ?a" "length ?a < 1024" "?a \<noteq> []" by code_simp+
  then have "fsm_tcp (\<lambda>buf. cstring_at buf 0) (TcpSock ?a) ?s = stop (Fault Uninitialised)"
    by (rule answer_not_terminated) simp
  with 1 2 show ?thesis by blast
qed

text \<open>\<open>/join\<close> and \<open>/rename\<close> without an argument dereference the null pointer that \<open>strtok\<close> returned.\<close>

lemma rename_without_name:
  "fst (fsm_udp True sample_args (StdinRead (bytes_of ''/rename'')) sample_open) = Inl (Fault NullPointer)"
  "fst (fsm_udp True sample_args (StdinRead (bytes_of ''/join'')) sample_open) = Inl (Fault NullPointer)"
  by code_simp+

text \<open>In the state \<open>END\<close> the UDP client does nothing any more, and it does not exit.\<close>

lemma end_goes_on:
  "curr_state_u s = END \<Longrightarrow> fsm_udp rv args StdinEof s = (Inr s, [])"
  by (simp add: fsm_udp_def ret_def)

text \<open>The port of the server's answers is not kept: what the user types goes to the port of the command line.\<close>

lemma first_port_again:
  assumes "curr_state_u s = OPEN" and "stdin_line bs = ret line" and "parse_command line = MESSAGE"
    and "length (DISPLAYNAME s) < 256" and "arriving s = Datagram (0 # x) # rs" and "\<not> would_block (find_errno s)"
    and "0 < unat (udp_retransmissions args)"
  shows "snd (fsm_udp True args (StdinRead bs) s) =
    [SendTo (server_port args) (msg_bytes 0x04 (message_id s) [DISPLAYNAME s, line])]"
proof -
  have "stdin_line bs = (Inr line, [])" using assms(2) by (simp add: ret_def)
  then have len: "length line < 256" by (rule stdin_line_length)
  have "hd (msg_bytes 4 (message_id s) [DISPLAYNAME s, line]) \<noteq> 0" by (simp add: msg_bytes_def)
  from send_loop_heard [OF this, of "[]" "unat (udp_retransmissions args)" "udp_timeout args"
      "would_block (find_errno s)" "server_port args" x rs]
  have "send_loop (unat (udp_retransmissions args)) (udp_timeout args) (server_port args)
      (msg_bytes 4 (message_id s) [DISPLAYNAME s, line]) (Datagram (0 # x) # rs, would_block (find_errno s)) =
    (Inr (rs, False), [SendTo (server_port args) (msg_bytes 4 (message_id s) [DISPLAYNAME s, line])])"
    using assms(6,7) by (simp add: deaf_def)
  then show ?thesis
    using assms len by (simp add: fsm_udp_def open_stdin_def construct_msg_eq send_built bind_pair increment_keeps)
qed

text \<open>No retransmissions means no transmission: \<open>-r 0\<close> ends the client at the first message, which is not sent.\<close>

lemma no_retransmissions:
  "udp_send True (sample_args\<lparr>udp_retransmissions := 0\<rparr>) (map Some [0xFF, 0, 0], 3) s = (Inl (Exit 1), [])"
  by (simp add: udp_send_def buffer_bytes_def sample_args_def stop_def bind_pair)

text \<open>The array of received ids has room for 100 messages; the next one is written behind it.\<close>

lemma too_many_messages:
  assumes "message_of d i" and "ids_ok (received_ids s)" and "ids_index (received_ids s) = 100"
    and "\<not> seen (received_ids s) i"
  shows "fsm_udp rv args (SockRead port d) s = stop (Fault OutOfBounds)"
proof -
  have "d \<noteq> []" using assms(1) by (auto simp: message_of_def)
  moreover have "receive_id (response_of d) s = stop (Fault OutOfBounds)"
    unfolding receive_id_eq [OF assms(1,2)] using assms(3,4) add_received_eq [OF assms(2), of i] by simp
  ultimately show ?thesis by (simp add: fsm_udp_def Let_def)
qed

end
