(* ===== verification/Izp_String.thy ===== *)
theory Izp_String
  imports Stdlib
begin

text \<open>
  \<open>izp/cvika/02-string.c\<close>: finding a substring and replacing it in a buffer. \<open>realloc\<close> is a parameter: it may
  leave the block where it is or move it (\<open>moved\<close>). The code goes on to use the old pointer, so with a
  moved block every access through \<open>str\<close> is undefined; without, \<open>str\<close> and \<open>new_str\<close> are one buffer.
\<close>

section \<open>The code\<close>

datatype izp_event = Put string

type_synonym 'a izp_io = "(izp_event, 'a) io"

type_synonym buf = "u8 option list"

text \<open>
  The loop of \<open>find_substr\<close>. \<open>strlen(substr) - 1\<close> is unsigned: for an empty \<open>substr\<close> it is the largest
  number, which \<open>substr_index\<close> never is.
\<close>

function substr_loop :: "buf \<Rightarrow> buf \<Rightarrow> int \<Rightarrow> int \<Rightarrow> int \<Rightarrow> int izp_io" where
  "substr_loop str substr i substr_index start_substr =
     bind_io (strlen str) (\<lambda>n.
       if i < n
       then bind_io (strlen substr) (\<lambda>m.
         if 0 < m \<and> substr_index = m - 1 then ret start_substr
         else bind_io (arr_get str i) (\<lambda>a. bind_io (arr_get substr substr_index) (\<lambda>b.
           if a = b
           then substr_loop str substr (i + 1) (substr_index + 1) (if substr_index = 0 then i else start_substr)
           else substr_loop str substr (i + 1) 0 (-1))))
       else ret start_substr)"
  by pat_completeness auto
termination
  by (relation "measure (\<lambda>(str, substr, i, j, k). nat (int (length str) - i))")
    (auto simp: arr_get_def split: if_splits option.splits)

declare substr_loop.simps [simp del]

definition find_substr :: "buf \<Rightarrow> buf \<Rightarrow> int izp_io" where
  "find_substr str substr = substr_loop str substr 0 0 (-1)"

text \<open>\<open>for (int i = 0; i < strlen(bound); i++) dst[i + off] = src[i]\<close>.\<close>

function copy_at :: "buf \<Rightarrow> buf \<Rightarrow> int \<Rightarrow> int \<Rightarrow> buf \<Rightarrow> buf izp_io" where
  "copy_at bound src off i dst =
     bind_io (strlen bound) (\<lambda>n.
       if i < n
       then bind_io (arr_get src i) (\<lambda>c. bind_io (arr_set dst (i + off) c) (copy_at bound src off (i + 1)))
       else ret dst)"
  by pat_completeness auto
termination
  by (relation "measure (\<lambda>(bound, src, off, i, dst). nat (int (length src) - i))")
    (auto simp: arr_get_def split: if_splits option.splits)

declare copy_at.simps [simp del]

definition replace_same_length :: "buf \<Rightarrow> buf \<Rightarrow> buf \<Rightarrow> buf izp_io" where
  "replace_same_length str substr new_substr =
     bind_io (strlen substr) (\<lambda>m. bind_io (strlen new_substr) (\<lambda>k.
       if m \<noteq> k then ret str
       else bind_io (find_substr str substr) (\<lambda>start_sub. copy_at substr new_substr start_sub 0 str)))"

text \<open>The shorter replacement: the rest moves to the left, in one buffer.\<close>

function shift_left :: "bool \<Rightarrow> int \<Rightarrow> int \<Rightarrow> buf \<Rightarrow> buf izp_io" where
  "shift_left moved diff i new_str =
     (let str = (if moved then [] else new_str) in
      bind_io (strlen str) (\<lambda>n.
        if i < n
        then bind_io (arr_get str i) (\<lambda>c. bind_io (arr_set new_str (i - diff) c) (shift_left moved diff (i + 1)))
        else ret new_str))"
  by pat_completeness auto
termination
  by (relation "measure (\<lambda>(moved, diff, i, new_str). nat (int (length new_str) - i))")
    (auto simp: arr_get_def arr_set_def split: if_splits option.splits)

declare shift_left.simps [simp del]

text \<open>The longer one: the rest is saved in \<open>endstr\<close>, and written behind the place for the new part.\<close>

function save_end :: "buf \<Rightarrow> int \<Rightarrow> int \<Rightarrow> buf \<Rightarrow> buf izp_io" where
  "save_end str after_str i endstr =
     bind_io (strlen str) (\<lambda>n.
       if i < n
       then bind_io (arr_get str i) (\<lambda>c. bind_io (arr_set endstr (i - after_str) c) (save_end str after_str (i + 1)))
       else ret endstr)"
  by pat_completeness auto
termination
  by (relation "measure (\<lambda>(str, after_str, i, endstr). nat (int (length str) - i))")
    (auto simp: arr_get_def split: if_splits option.splits)

declare save_end.simps [simp del]

function put_end :: "buf \<Rightarrow> int \<Rightarrow> int \<Rightarrow> int \<Rightarrow> buf \<Rightarrow> buf izp_io" where
  "put_end endstr base nova_delka i new_str =
     (if i < nova_delka
      then bind_io (arr_get endstr (i - base)) (\<lambda>c. bind_io (arr_set new_str i c)
             (put_end endstr base nova_delka (i + 1)))
      else ret new_str)"
  by pat_completeness auto
termination
  by (relation "measure (\<lambda>(endstr, base, nova_delka, i, new_str). nat (nova_delka - i))") auto

declare put_end.simps [simp del]

text \<open>\<open>realloc\<close> keeps what fits; what is new is uninitialised.\<close>

definition resized :: "int \<Rightarrow> buf \<Rightarrow> buf" where
  "resized n b = take (nat n) b @ replicate (nat n - length b) None"

text \<open>\<open>None\<close> is the null pointer that \<open>replace\<close> returns when there is nothing to replace.\<close>

definition replace :: "bool \<Rightarrow> buf \<Rightarrow> buf \<Rightarrow> buf \<Rightarrow> buf option izp_io" where
  "replace moved str substr new_substr =
     bind_io (find_substr str substr) (\<lambda>start_sub.
     if start_sub = -1 then ret None
     else
       bind_io (strlen str) (\<lambda>delka_str. bind_io (strlen substr) (\<lambda>m. bind_io (strlen new_substr) (\<lambda>k.
       let nova_delka = delka_str - m + k; new_str = resized (nova_delka + 1) str;
           str = (if moved then [] else new_str) in
       if m - k = 0
       then bind_io (replace_same_length str substr new_substr) (\<lambda>s. ret (Some s))
       else
         bind_io
           (if k < m
            then bind_io (copy_at new_substr new_substr start_sub 0 new_str) (shift_left moved (m - k) (start_sub + m))
            else
              bind_io (strlen str) (\<lambda>n.
              bind_io (save_end str (start_sub + m) (start_sub + m) (replicate (nat (n - (start_sub + m))) None)) (\<lambda>endstr.
              bind_io (put_end endstr (start_sub + k) nova_delka (start_sub + k) new_str)
                (copy_at new_substr new_substr start_sub 0))))
           (\<lambda>new_str. bind_io (arr_set new_str nova_delka 0) (\<lambda>s. ret (Some s)))))))"

definition literal :: "string \<Rightarrow> buf" where
  "literal s = cstr (map of_char s)"

text \<open>\<open>printf("%s\n", str)\<close>.\<close>

definition put_line :: "buf \<Rightarrow> unit izp_io" where
  "put_line b =
     bind_io (strlen b) (\<lambda>n.
       emit (Put (map (\<lambda>c. char_of (unat (the c))) (take (nat n) b) @ [CHR 0x0A])))"

definition str_init :: string where
  "str_init = ''Hello WORLD''"

definition replace_and_put :: "bool \<Rightarrow> buf \<Rightarrow> string \<Rightarrow> string \<Rightarrow> (buf \<Rightarrow> int izp_io) \<Rightarrow> int izp_io" where
  "replace_and_put moved str x y cont =
     bind_io (replace moved str (literal x) (literal y)) (\<lambda>r.
       case r of None \<Rightarrow> ret 1 | Some s \<Rightarrow> bind_io (put_line s) (\<lambda>_. cont s))"

text \<open>One result of \<open>realloc\<close> for each call of \<open>replace\<close>.\<close>

definition string_main :: "bool \<Rightarrow> bool \<Rightarrow> bool \<Rightarrow> int izp_io" where
  "string_main moved1 moved2 moved3 =
     bind_io (strcpy (replicate 12 None) (literal str_init)) (\<lambda>str.
     bind_io (replace_same_length str (literal ''WORLD'') (literal ''World'')) (\<lambda>str.
     bind_io (put_line str) (\<lambda>_.
     replace_and_put moved1 str ''World'' ''IZP'' (\<lambda>str.
     replace_and_put moved2 str ''IZP'' ''llalalalall'' (\<lambda>str.
     bind_io (emit (Put (''Successully replaced all substrings!'' @ [CHR 0x0A]))) (\<lambda>_.
     bind_io (strcpy (replicate 12 None) (literal str_init)) (\<lambda>str.
     replace_and_put moved3 str ''worlds'' ''World!'' (\<lambda>str. ret 0))))))))"

section \<open>What \<open>find_substr\<close> finds\<close>

text \<open>The loop over lists: \<open>i\<close> is the place in the string, \<open>j\<close> that in the substring.\<close>

fun find_in :: "u8 list \<Rightarrow> u8 list \<Rightarrow> nat \<Rightarrow> nat \<Rightarrow> int \<Rightarrow> int" where
  "find_in [] t i j k = k"
| "find_in (c # s) t i j k =
     (if Suc j = length t then k
      else if j < length t \<and> c = t ! j then find_in s t (Suc i) (Suc j) (if j = 0 then int i else k)
      else find_in s t (Suc i) 0 (-1))"

lemma substr_loop_in:
  assumes "holds str s" and "holds substr t"
  shows "i \<le> length s \<Longrightarrow> j < length t \<or> t = [] \<and> j = 0 \<Longrightarrow>
    substr_loop str substr (int i) (int j) k = ret (find_in (drop i s) t i j k)"
proof (induction "length s - i" arbitrary: i j k)
  case 0
  then show ?case by (subst substr_loop.simps) (simp add: strlen_holds [OF assms(1)])
next
  case (Suc n)
  then have i: "i < length s" by simp
  have z: "arr_get substr (int j) = (ret (if j < length t then t ! j else 0) :: u8 izp_io)"
    using Suc.prems(2) holds_get [OF assms(2)] by auto
  have s0: "s ! i \<noteq> 0" using assms(1) i by (auto simp: holds_def dest: nth_mem)
  have run: "substr_loop str substr (int i) (int j) k =
    (if Suc j = length t then ret k
     else if j < length t \<and> s ! i = t ! j
     then substr_loop str substr (int (Suc i)) (int (Suc j)) (if j = 0 then int i else k)
     else substr_loop str substr (int (Suc i)) (int 0) (-1))"
    using i Suc.prems(2) z s0 by (subst substr_loop.simps)
      (auto simp: strlen_holds [OF assms(1)] strlen_holds [OF assms(2)] holds_get [OF assms(1)] add.commute)
  have IH: "j' < length t \<or> t = [] \<and> j' = 0 \<Longrightarrow>
      substr_loop str substr (int (Suc i)) (int j') k' = ret (find_in (drop (Suc i) s) t (Suc i) j' k')" for j' k'
    by (rule Suc.hyps(1)) (use Suc.hyps(2) in auto)
  show ?case
    unfolding run using IH [of "Suc j"] IH [of 0] i Suc.prems(2) by (auto simp flip: Cons_nth_drop_Suc)
qed

lemma find_substr_in:
  assumes "holds str s" and "holds substr t"
  shows "find_substr str substr = ret (find_in s t 0 0 (-1))"
  using substr_loop_in [OF assms, of 0 0 "-1"] by (cases t) (simp_all add: find_substr_def)

text \<open>
  The places that \<open>find_substr\<close> can return: all characters of \<open>t\<close> but the last agree with those of \<open>s\<close> from
  \<open>k\<close> on, or \<open>s\<close> ends within them.
\<close>

definition front_at :: "u8 list \<Rightarrow> u8 list \<Rightarrow> nat \<Rightarrow> nat \<Rightarrow> bool" where
  "front_at s t k j \<longleftrightarrow> 0 < j \<and> j < length t \<and> k + j \<le> length s \<and> take j t = take j (drop k s)"

lemma front_at_Suc:
  assumes "front_at s t k j" and "k + j < length s" and "Suc j < length t" and "s ! (k + j) = t ! j"
  shows "front_at s t k (Suc j)"
  using assms by (simp add: front_at_def take_Suc_conv_app_nth)

lemma front_at_1: "i < length s \<Longrightarrow> 1 < length t \<Longrightarrow> s ! i = t ! 0 \<Longrightarrow> front_at s t i (Suc 0)"
  by (cases t) (simp_all add: front_at_def take_Suc hd_drop_conv_nth)

lemma find_in_result:
  "i \<le> length s \<Longrightarrow> j = 0 \<and> k = -1 \<or> (\<exists>p. k = int p \<and> front_at s t p j \<and> i = p + j) \<Longrightarrow>
    r = find_in (drop i s) t i j k \<Longrightarrow>
    r = -1 \<or> (\<exists>p j. r = int p \<and> front_at s t p j \<and> (Suc j = length t \<or> p + j = length s))"
proof (induction "length s - i" arbitrary: i j k)
  case 0
  then show ?case by auto
next
  case (Suc n)
  then have i: "i < length s" by simp
  then have d: "drop i s = s ! i # drop (Suc i) s" by (simp add: Cons_nth_drop_Suc)
  have n: "n = length s - Suc i" and l: "Suc i \<le> length s" using Suc.hyps(2) i by auto
  consider (full) "Suc j = length t" | (hit) "Suc j < length t" "s ! i = t ! j"
    | (miss) "Suc j \<noteq> length t" "\<not> (j < length t \<and> s ! i = t ! j)"
    using Suc_lessI by blast
  then show ?case
  proof cases
    case full
    then show ?thesis using Suc.prems(2,3) by (auto simp: d)
  next
    case miss
    then show ?thesis using Suc.hyps(1) [OF n l, of 0 "-1"] Suc.prems(3) by (auto simp: d)
  next
    case hit
    have "\<exists>p. (if j = 0 then int i else k) = int p \<and> front_at s t p (Suc j) \<and> Suc i = p + Suc j"
      using Suc.prems(2) hit i front_at_1 [of i s t] front_at_Suc by (cases "j = 0") auto
    then show ?thesis
      using Suc.hyps(1) [OF n l, of "Suc j" "if j = 0 then int i else k"] Suc.prems(3) hit by (simp add: d)
  qed
qed

lemma find_substr_result:
  assumes "holds str s" and "holds substr t"
  shows "\<exists>r. find_substr str substr = ret r \<and>
    (r = -1 \<or> (\<exists>p j. r = int p \<and> front_at s t p j \<and> (Suc j = length t \<or> p + j = length s)))"
  using find_in_result [of 0 s 0 "-1" t "find_in s t 0 0 (-1)"] by (simp add: find_substr_in [OF assms])

text \<open>The last character of the substring is never read.\<close>

lemma find_in_last: "j \<le> length t \<Longrightarrow> find_in s (t @ [c]) i j k = find_in s (t @ [d]) i j k"
  by (induction s arbitrary: i j k) (simp_all add: nth_append)

section \<open>Loops that copy\<close>

lemma copy_at_ok:
  assumes "holds src u" and "holds bound v" and "length v = length u" and "p + length u \<le> length dst"
  shows "copy_at bound src (int p) 0 dst = ret (take p dst @ map Some u @ drop (p + length u) dst)"
proof -
  have "i \<le> length u \<Longrightarrow> p + length u \<le> length d \<Longrightarrow>
    copy_at bound src (int p) (int i) d = ret (take (p + i) d @ map Some (drop i u) @ drop (p + length u) d)" for i d
  proof (induction "length u - i" arbitrary: i d)
    case 0
    then show ?case
      by (subst copy_at.simps) (simp add: strlen_holds [OF assms(2)] assms(3))
  next
    case (Suc n)
    then have i: "i < length u" by simp
    have "copy_at bound src (int p) (int i) d = copy_at bound src (int p) (int (Suc i)) (d[p + i := Some (u ! i)])"
      using i Suc.prems(2)
      by (subst copy_at.simps) (simp add: strlen_holds [OF assms(2)] assms(3) holds_get [OF assms(1)] add.commute nat_add_distrib)
    also have "\<dots> = ret (take (p + Suc i) (d[p + i := Some (u ! i)]) @ map Some (drop (Suc i) u)
        @ drop (p + length u) (d[p + i := Some (u ! i)]))"
      using Suc.hyps(1) [of "Suc i" "d[p + i := Some (u ! i)]"] Suc.hyps(2) Suc.prems(2) i by simp
    also have "take (p + Suc i) (d[p + i := Some (u ! i)]) = take (p + i) d @ [Some (u ! i)]"
      using i Suc.prems(2) by (simp add: take_Suc_conv_app_nth)
    finally show ?case using i by (simp flip: Cons_nth_drop_Suc)
  qed
  from this [of 0 dst] assms(4) show ?thesis by simp
qed

lemma save_end_ok:
  assumes "holds str s" and "a \<le> length s"
  shows "save_end str (int a) (int a) (replicate (length s - a) None) = ret (map Some (drop a s))"
proof -
  have "a \<le> i \<Longrightarrow> i \<le> length s \<Longrightarrow> length e = length s - a \<Longrightarrow>
    save_end str (int a) (int i) e = ret (take (i - a) e @ map Some (drop i s))" for i e
  proof (induction "length s - i" arbitrary: i e)
    case 0
    then show ?case by (subst save_end.simps) (simp add: strlen_holds [OF assms(1)])
  next
    case (Suc n)
    then have i: "i < length s" by simp
    have ia: "arr_set e (int i - int a) c = (ret (e[i - a := Some c]) :: buf izp_io)" for c
    proof -
      have "nat (int i - int a) = i - a" by simp
      then show ?thesis using Suc.prems i by (simp add: arr_set_def)
    qed
    have "save_end str (int a) (int i) e = save_end str (int a) (int (Suc i)) (e[i - a := Some (s ! i)])"
      using i Suc.prems
      by (subst save_end.simps) (simp add: strlen_holds [OF assms(1)] holds_get [OF assms(1)] ia add.commute)
    also have "\<dots> = ret (take (Suc i - a) (e[i - a := Some (s ! i)]) @ map Some (drop (Suc i) s))"
      using Suc.hyps(1) [of "Suc i" "e[i - a := Some (s ! i)]"] Suc.hyps(2) Suc.prems i by simp
    also have "take (Suc i - a) (e[i - a := Some (s ! i)]) = take (i - a) e @ [Some (s ! i)]"
      using i Suc.prems by (simp add: Suc_diff_le take_Suc_conv_app_nth)
    finally show ?case using i by (simp flip: Cons_nth_drop_Suc)
  qed
  from this [of a "replicate (length s - a) None"] assms(2) show ?thesis by simp
qed

lemma put_end_ok:
  assumes "p + length w \<le> length d"
  shows "put_end (map Some w) (int p) (int (p + length w)) (int p) d
    = ret (take p d @ map Some w @ drop (p + length w) d)"
proof -
  have "i \<le> length w \<Longrightarrow> p + length w \<le> length d \<Longrightarrow>
    put_end (map Some w) (int p) (int (p + length w)) (int (p + i)) d
     = ret (take (p + i) d @ map Some (drop i w) @ drop (p + length w) d)" for i d
  proof (induction "length w - i" arbitrary: i d)
    case 0
    then show ?case by (subst put_end.simps) simp
  next
    case (Suc n)
    then have i: "i < length w" by simp
    have pi: "int (p + i) - int p = int i" by simp
    have "put_end (map Some w) (int p) (int (p + length w)) (int (p + i)) d
      = put_end (map Some w) (int p) (int (p + length w)) (int (p + Suc i)) (d[p + i := Some (w ! i)])"
      using i Suc.prems(2) by (subst put_end.simps) (simp add: pi add.commute nat_add_distrib)
    also have "\<dots> = ret (take (p + Suc i) (d[p + i := Some (w ! i)]) @ map Some (drop (Suc i) w)
        @ drop (p + length w) (d[p + i := Some (w ! i)]))"
      by (rule Suc.hyps(1)) (use Suc.hyps(2) Suc.prems(2) i in auto)
    also have "take (p + Suc i) (d[p + i := Some (w ! i)]) = take (p + i) d @ [Some (w ! i)]"
      using i Suc.prems(2) by (simp add: take_Suc_conv_app_nth)
    finally show ?case using i by (simp flip: Cons_nth_drop_Suc)
  qed
  from this [of 0 d] assms show ?thesis by simp
qed

section \<open>Buffers without an end\<close>

definition endless :: "buf \<Rightarrow> bool" where
  "endless b \<longleftrightarrow> list_all (\<lambda>c. case c of Some x \<Rightarrow> x \<noteq> 0 | None \<Rightarrow> False) b"

lemma strlen_endless: "endless b \<Longrightarrow> strlen b = stop (Fault OutOfBounds)"
proof -
  assume e: "endless b"
  have "i \<le> length b \<Longrightarrow> strlen_from b (int i) = stop (Fault OutOfBounds)" for i
  proof (induction "length b - i" arbitrary: i)
    case 0
    then show ?case by (subst strlen_from.simps) simp
  next
    case (Suc n)
    then have i: "i < length b" by simp
    then obtain x where x: "b ! i = Some x" "x \<noteq> 0"
      using e by (auto simp: endless_def list_all_length split: option.splits)
    show ?case using i x Suc.hyps(1) [of "Suc i"] Suc.hyps(2)
      by (subst strlen_from.simps) (simp add: add.commute)
  qed
  from this [of 0] show ?thesis by (simp add: strlen_def)
qed

lemma endless_update: "endless b \<Longrightarrow> x \<noteq> 0 \<Longrightarrow> endless (b[i := Some x])"
  unfolding endless_def list_all_iff using set_update_subset_insert [of b i "Some x"] by fastforce

lemma copy_at_endless:
  assumes "holds src u"
  shows "i \<le> length u \<Longrightarrow> endless d \<Longrightarrow>
    copy_at src src p (int i) d = stop (Fault OutOfBounds) \<or> (\<exists>e. copy_at src src p (int i) d = ret e \<and> endless e)"
proof (induction "length u - i" arbitrary: i d)
  case 0
  then show ?case by (subst (1 2) copy_at.simps) (simp add: strlen_holds [OF assms(1)])
next
  case (Suc n)
  then have i: "i < length u" by simp
  have x: "u ! i \<noteq> 0" using assms i by (auto simp: holds_def dest: nth_mem)
  have run: "copy_at src src p (int i) d = bind_io (arr_set d (int i + p) (u ! i)) (copy_at src src p (int (Suc i)))"
    using i by (subst copy_at.simps) (simp add: strlen_holds [OF assms(1)] holds_get [OF assms(1)] add.commute)
  show ?case
  proof (cases "0 \<le> int i + p \<and> int i + p < int (length d)")
    case True
    with run have "copy_at src src p (int i) d = copy_at src src p (int (Suc i)) (d[nat (int i + p) := Some (u ! i)])" by simp
    then show ?thesis
      using Suc.hyps(1) [of "Suc i" "d[nat (int i + p) := Some (u ! i)]"] Suc.hyps(2) Suc.prems(2) i x endless_update
      by (metis Suc_leI diff_Suc_Suc Suc_diff_Suc nat.inject)
  next
    case False
    with run show ?thesis by (simp add: arr_set_def)
  qed
qed

section \<open>What \<open>replace\<close> gives\<close>

lemma resized_holds:
  assumes "holds b s" and "int (length s) < n"
  shows "holds (resized n b) s" and "length (resized n b) = nat n"
proof -
  have "length s < length b" "Suc (length s) \<le> nat n" using holds_nth(3) [OF assms(1)] assms(2) by simp_all
  then have "take (Suc (length s)) (resized n b) = take (Suc (length s)) b"
    using assms(2) by (simp add: resized_def min_def)
  then show "holds (resized n b) s" using assms(1) by (simp add: holds_def)
  show "length (resized n b) = nat n" by (simp add: resized_def)
qed

lemma holds_take:
  assumes "holds b s" and "p \<le> length s"
  shows "take p b = map Some (take p s)"
proof -
  have "take p (take (Suc (length s)) b) = take p (cstr s)" using assms(1) by (simp add: holds_def)
  then show ?thesis using assms(2) by (simp add: cstr_def take_map)
qed

lemma holds_splice:
  assumes "holds b s" and "p + length u \<le> length s" and "0 \<notin> set u"
  shows "holds (take p b @ map Some u @ drop (p + length u) b) (take p s @ u @ drop (p + length u) s)"
proof -
  have "take (Suc (length s)) (take p b @ map Some u @ drop (p + length u) b)
    = map Some (take p s) @ map Some u @ drop (p + length u) (take (Suc (length s)) b)"
  proof -
    obtain k where "length s = p + length u + k" using assms(2) by (auto simp: le_iff_add)
    then show ?thesis
      using holds_nth(3) [OF assms(1)] holds_take [OF assms(1), of p] by (simp add: drop_take)
  qed
  also have "take (Suc (length s)) b = map Some s @ [Some 0]" using assms(1) by (simp add: holds_def cstr_def)
  finally have "take (Suc (length s)) (take p b @ map Some u @ drop (p + length u) b)
      = cstr (take p s @ u @ drop (p + length u) s)"
    using assms(2) by (simp add: cstr_def drop_map)
  moreover have "0 \<notin> set (take p s @ u @ drop (p + length u) s)"
    using assms(1,3) by (auto simp: holds_def dest: in_set_takeD in_set_dropD)
  ultimately show ?thesis using assms(2) by (simp add: holds_def)
qed

lemma replace_equal:
  assumes "holds str s" "holds substr t" "holds new_substr u" and "find_substr str substr = ret (int p)"
    and "length u = length t" and "p + length t \<le> length s"
  shows "\<exists>b. replace False str substr new_substr = ret (Some b) \<and> holds b (take p s @ u @ drop (p + length t) s)"
proof -
  let ?d = "resized (int (length s) + 1) str"
  note d = resized_holds [OF assms(1), of "int (length s) + 1", simplified]
  have f: "find_substr ?d substr = ret (int p)"
    using assms(4) by (simp add: find_substr_in [OF assms(1,2)] find_substr_in [OF d(1) assms(2)])
  have c: "copy_at substr new_substr (int p) 0 ?d = ret (take p ?d @ map Some u @ drop (p + length u) ?d)"
    by (rule copy_at_ok [OF assms(3,2)]) (use assms(5,6) d(2) in auto)
  have "0 \<notin> set u" using assms(3) by (simp add: holds_def)
  then have h: "holds (take p ?d @ map Some u @ drop (p + length u) ?d) (take p s @ u @ drop (p + length u) s)"
    using assms(5,6) by (intro holds_splice [OF d(1)]) auto
  show ?thesis
    using f c h assms(4,5)
    by (simp add: replace_def replace_same_length_def strlen_holds [OF assms(1)] strlen_holds [OF assms(2)]
        strlen_holds [OF assms(3)] Let_def)
qed

lemma replace_longer:
  assumes "holds str s" "holds substr t" "holds new_substr u" and "find_substr str substr = ret (int p)"
    and "length t < length u" and "p + length t \<le> length s"
  shows "\<exists>b. replace False str substr new_substr = ret (Some b) \<and> holds b (take p s @ u @ drop (p + length t) s)"
proof -
  define w where "w = drop (p + length t) s"
  define d where "d = resized (int (length s) - int (length t) + int (length u) + 1) str"
  have lw: "length w = length s - (p + length t)" by (simp add: w_def)
  have d: "holds d s" "length d = Suc (p + length u + length w)"
    using resized_holds [OF assms(1), of "int (length s) - int (length t) + int (length u) + 1"] assms(5,6) lw
    by (simp_all add: d_def nat_diff_distrib)
  have se: "save_end d (int (p + length t)) (int (p + length t)) (replicate (length s - (p + length t)) None)
    = ret (map Some w)"
    using save_end_ok [OF d(1), of "p + length t"] assms(6) by (simp add: w_def)
  define d1 where "d1 = take (p + length u) d @ map Some w @ drop (p + length u + length w) d"
  have pe: "put_end (map Some w) (int (p + length u)) (int (p + length u + length w)) (int (p + length u)) d = ret d1"
    using put_end_ok [of "p + length u" w d] d(2) by (simp add: d1_def)
  define d2 where "d2 = take p d1 @ map Some u @ drop (p + length u) d1"
  have ca: "copy_at new_substr new_substr (int p) 0 d1 = ret d2"
    using copy_at_ok [OF assms(3,3) refl, of p d1] d(2) by (simp add: d1_def d2_def)
  have "length d1 = Suc (p + length u + length w)" using d(2) by (simp add: d1_def)
  moreover have "take p d1 = map Some (take p s)"
    using holds_take [OF d(1), of p] d(2) assms(6) by (simp add: d1_def)
  moreover have "drop (p + length u) d1 = map Some w @ drop (p + length u + length w) d"
    using d(2) by (simp add: d1_def)
  moreover obtain x where "drop (p + length u + length w) d = [x]"
    using d(2) by (cases "drop (p + length u + length w) d") (auto dest: arg_cong [of _ _ length])
  ultimately have d2: "d2 = map Some (take p s @ u @ w) @ [x]" "p \<le> length s"
    using assms(6) by (simp_all add: d2_def)
  then have st: "arr_set d2 (int (p + length u + length w)) 0 = (ret (cstr (take p s @ u @ w)) :: buf izp_io)"
    by (simp add: cstr_def min_def list_update_append nat_add_distrib)
  have "0 \<notin> set (take p s @ u @ w)"
    using assms(1,3) by (auto simp: holds_def w_def dest: in_set_takeD in_set_dropD)
  then have h: "holds (cstr (take p s @ u @ w)) (take p s @ u @ w)" by simp
  have i: "int (length s) - int (length t) + int (length u) = int (p + length u + length w)"
    "nat (int (length s) - (int p + int (length t))) = length s - (p + length t)"
    using lw assms(6) by simp_all
  have pe': "put_end (map Some w) (int p + int (length u)) (int (length s) - int (length t) + int (length u))
      (int p + int (length u)) d = ret d1"
    and st': "arr_set d2 (int (length s) - int (length t) + int (length u)) 0 = (ret (cstr (take p s @ u @ w)) :: buf izp_io)"
    using pe st by (simp_all only: i(1) of_nat_add)
  have "replace False str substr new_substr = ret (Some (cstr (take p s @ u @ w)))"
    using assms(4,5) se pe' ca st'
    unfolding replace_def
    by (simp add: strlen_holds [OF assms(1)] strlen_holds [OF assms(2)] Let_def i(2)
        strlen_holds [OF assms(3)] strlen_holds [OF d(1)] flip: d_def)
  with h show ?thesis by (simp add: w_def)
qed

text \<open>A shorter replacement cuts the string off before its end is read.\<close>

lemma replace_shorter:
  assumes "holds str s" "holds substr t" "holds new_substr u" and "find_substr str substr = ret k" "k \<noteq> -1"
    and "length u < length t"
  shows "replace moved str substr new_substr = stop (Fault OutOfBounds)"
proof -
  let ?n = "int (length s) - int (length t) + int (length u) + 1"
  let ?d = "resized ?n str"
  have "length s < length str" by (rule holds_nth(3) [OF assms(1)])
  moreover have n: "nat ?n \<le> length s" using assms(6) by simp
  ultimately have "?d = map Some (take (nat ?n) s)"
    using holds_take [OF assms(1) n] by (simp add: resized_def)
  then have e: "endless ?d"
    using assms(1) by (auto simp: endless_def list_all_iff holds_def dest!: in_set_takeD)
  have shift: "endless d \<Longrightarrow> shift_left moved x i d = stop (Fault OutOfBounds)" for d x i
    by (subst shift_left.simps) (simp add: Let_def strlen_endless, simp add: strlen_endless endless_def)
  show ?thesis
    using copy_at_endless [OF assms(3) _ e, of 0 k] assms(4-6)
    by (auto simp: replace_def strlen_holds [OF assms(1)] strlen_holds [OF assms(2)]
        strlen_holds [OF assms(3)] Let_def shift)
qed

section \<open>Properties\<close>

lemma literal_holds: "0 \<notin> (of_char :: char \<Rightarrow> u8) ` set s \<Longrightarrow> holds (literal s) (map of_char s)"
  by (simp add: literal_def)

text \<open>
  \<open>find_substr\<close> returns -1 or a place where all but the last character of the substring agree, unless
  the string ends before; it never reads the last character, so that the answer is the same for
  every other last character.
\<close>

theorem find_substr_front:
  assumes "holds str s" and "holds substr (t @ [c])" and "holds other (t @ [d])"
  shows "(\<exists>r. find_substr str substr = ret r \<and>
      (r = -1 \<or> (\<exists>p j. r = int p \<and> front_at s (t @ [c]) p j \<and> (j = length t \<or> p + j = length s))))
    \<and> find_substr str other = find_substr str substr"
  using find_substr_result [OF assms(1,2)] find_in_last [of 0 t s c 0 "-1" d]
  by (simp add: find_substr_in [OF assms(1,2)] find_substr_in [OF assms(1,3)])

text \<open>It finds \<open>ab\<close> in \<open>axb\<close>.\<close>

theorem find_substr_front_witness:
  "find_substr (literal ''axb'') (literal ''ab'') = find_substr (literal ''axb'') (literal ''az'')
    \<and> find_substr (literal ''axb'') (literal ''ab'') = ret 0"
proof -
  have h: "holds (literal ''axb'') (map of_char ''axb'')" "holds (literal ''ab'') ([97] @ [98])"
    "holds (literal ''az'') ([97] @ [122])"
    using literal_holds [of "''axb''"] literal_holds [of "''ab''"] literal_holds [of "''az''"] by simp_all
  from find_substr_front [OF h(1,3,2)] show ?thesis by (simp add: find_substr_in [OF h(1,2)])
qed

text \<open>
  C38. \<open>replace\<close>, at a place that \<open>find_substr\<close> gave and where the substring fits, and with a block that stays
  where it is: a part that is at least as long takes the place of the substring, and the rest
  follows; a shorter one always ends in a read behind the block.
\<close>

theorem replace_result:
  assumes "holds str s" "holds substr t" "holds new_substr u" and "find_substr str substr = ret (int p)"
    and "p + length t \<le> length s"
  shows "if length u < length t
    then replace False str substr new_substr = stop (Fault OutOfBounds)
    else \<exists>b. replace False str substr new_substr = ret (Some b) \<and> holds b (take p s @ u @ drop (p + length t) s)"
  using replace_shorter [OF assms(1-4)] replace_equal [OF assms(1-4)] replace_longer [OF assms(1-4)] assms(5)
  by (auto simp: not_less le_less)

theorem replace_result_witness:
  "\<exists>b. replace False (literal ''to IZP'') (literal ''IZP'') (literal ''Brno'') = ret (Some b)
     \<and> holds b (map of_char ''to Brno'')"
proof -
  have h: "holds (literal ''to IZP'') (map of_char ''to IZP'')" "holds (literal ''IZP'') (map of_char ''IZP'')"
    "holds (literal ''Brno'') (map of_char ''Brno'')"
    by (rule literal_holds, simp)+
  have "find_substr (literal ''to IZP'') (literal ''IZP'') = ret (int 3)" by (simp add: find_substr_in [OF h(1,2)])
  from replace_result [OF h this] show ?thesis by simp
qed

text \<open>The program of \<open>02-string.c\<close> prints one line and then reads behind a block, wherever \<open>realloc\<close> puts it.\<close>

lemma char_of_byte: "char_of (unat (of_char c :: u8)) = c"
proof -
  have "unat (of_char c :: u8) = unat (of_nat (of_char c :: nat) :: u8)" by (simp only: of_nat_of_char)
  also have "\<dots> = (of_char c :: nat)" by (simp add: unat_of_nat del: of_nat_of_char)
  finally show ?thesis by simp
qed

lemma put_line_literal:
  "0 \<notin> (of_char :: char \<Rightarrow> u8) ` set s \<Longrightarrow> put_line (literal s) = emit (Put (s @ [CHR 0x0A]))"
proof -
  assume z: "0 \<notin> (of_char :: char \<Rightarrow> u8) ` set s"
  have "strlen (literal s) = (ret (int (length s)) :: int izp_io)"
    using strlen_holds [OF literal_holds [OF z]] by simp
  then show ?thesis by (simp add: put_line_def) (simp add: literal_def cstr_def o_def char_of_byte)
qed

lemma string_main_faults:
  "string_main moved1 moved2 moved3 = (Inl (Fault OutOfBounds), [Put (''Hello World'' @ [CHR 0x0A])])"
proof -
  have h: "holds (literal str_init) (map of_char str_init)" "holds (literal ''WORLD'') (map of_char ''WORLD'')"
    "holds (literal ''World'') (map of_char ''World'')" "holds (literal ''IZP'') (map of_char ''IZP'')"
    "holds (literal ''Hello World'') (map of_char ''Hello World'')"
    by (rule literal_holds, simp add: str_init_def)+
  have c: "strcpy (replicate 12 None) (literal str_init) = (ret (literal str_init) :: buf izp_io)"
    unfolding strcpy_holds [OF h(1)] by (simp add: literal_def str_init_def)
  have f: "find_substr (literal str_init) (literal ''WORLD'') = ret (int 6)"
    "find_substr (literal ''Hello World'') (literal ''World'') = ret (int 6)"
    unfolding find_substr_in [OF h(1,2)] find_substr_in [OF h(5,3)] by (simp_all add: str_init_def)
  have r: "replace_same_length (literal str_init) (literal ''WORLD'') (literal ''World'') = ret (literal ''Hello World'')"
  proof -
    have "copy_at (literal ''WORLD'') (literal ''World'') (int 6) 0 (literal str_init) = ret (literal ''Hello World'')"
      by (subst copy_at_ok [OF h(3,2)]) (simp_all add: literal_def cstr_def str_init_def)
    then show ?thesis
      by (simp add: replace_same_length_def strlen_holds [OF h(2)] strlen_holds [OF h(3)] f(1) [simplified])
  qed
  have p: "put_line (literal ''Hello World'') = emit (Put (''Hello World'' @ [CHR 0x0A]))"
    by (subst put_line_literal) simp_all
  have x: "replace moved1 (literal ''Hello World'') (literal ''World'') (literal ''IZP'') = stop (Fault OutOfBounds)"
    by (rule replace_shorter [OF h(5,3,4) f(2)]) simp_all
  show ?thesis
    by (simp add: string_main_def replace_and_put_def c r p x bind_emit)
qed

end
