(* ===== verification/Izp_Arrays.thy ===== *)
theory Izp_Arrays
  imports Izp_String Format
begin

text \<open>
  The exercises of \<open>izp/cvika\<close> with arrays that grow: a vector of numbers (\<open>01-vector.c\<close>) and an array of
  persons (\<open>array.c\<close>). A block that was freed or moved away has no cells, so that an access to it is
  out of bounds.
\<close>

type_synonym u32 = "32 word"

section \<open>\<open>01-vector.c\<close>\<close>

record vector_t =
  arr :: "int option list"
  vsize :: u32

definition vector_ctor :: vector_t where
  "vector_ctor = \<lparr>arr = [], vsize = 0\<rparr>"

text \<open>
  What \<open>realloc\<close> may do; \<open>resize\<close> gives the block at the old address and the pointer that is returned.
\<close>

datatype realloc_result = InPlace | Moved | Failed

definition realloc :: "realloc_result \<Rightarrow> 'a option list \<Rightarrow> nat \<Rightarrow> 'a option list \<times> 'a option list option" where
  "realloc r b n =
     (let new = take n b @ replicate (n - length b) None in
      case r of InPlace \<Rightarrow> (new, Some new) | Moved \<Rightarrow> ([], Some new) | Failed \<Rightarrow> (b, None))"

definition resize :: "realloc_result \<Rightarrow> int option list \<Rightarrow> u32 \<Rightarrow> int option list \<times> int option list option" where
  "resize r b new_size = realloc r b (unat new_size)"

text \<open>The pointer that \<open>resize\<close> returns is not used; \<open>vec->arr\<close> is never null.\<close>

definition vector_add :: "realloc_result \<Rightarrow> vector_t \<Rightarrow> int \<Rightarrow> vector_t izp_io" where
  "vector_add r vec value =
     (let old = fst (resize r (arr vec) (vsize vec + 1)); n = vsize vec + 1 in
      bind_io (arr_set old (uint (n - 1)) value) (\<lambda>b. ret \<lparr>arr = b, vsize = n\<rparr>))"

primrec print_numbers :: "int option list \<Rightarrow> int list \<Rightarrow> unit izp_io" where
  "print_numbers b [] = ret ()"
| "print_numbers b (i # is) =
     bind_io (arr_get b i) (\<lambda>x. bind_io (emit (Put (show_int x @ ''  ''))) (\<lambda>_. print_numbers b is))"

definition print_vector :: "vector_t \<Rightarrow> unit izp_io" where
  "print_vector v =
     bind_io (emit (Put (''Vektor o velikosti '' @ show_int (sint (vsize v)) @ '':'' @ [CHR 0x0A, CHR 0x09] @ '' (  ''))) (\<lambda>_.
     bind_io (print_numbers (arr v) [0..uint (vsize v) - 1]) (\<lambda>_.
       emit (Put ('')'' @ [CHR 0x0A]))))"

text \<open>\<open>scanf\<close> gives the numbers one after the other, each with the result of the \<open>realloc\<close> for it.\<close>

primrec add_all :: "(realloc_result \<times> int) list \<Rightarrow> vector_t \<Rightarrow> vector_t izp_io" where
  "add_all [] v = ret v"
| "add_all (x # xs) v = bind_io (vector_add (fst x) v (snd x)) (add_all xs)"

definition vector_main :: "(realloc_result \<times> int) list \<Rightarrow> int izp_io" where
  "vector_main nums =
     bind_io (add_all nums vector_ctor) (\<lambda>v. bind_io (print_vector v) (\<lambda>_. ret 0))"

subsection \<open>What it prints\<close>

lemma print_numbers_ok:
  "print_numbers (map Some xs) (map int [i..<length xs])
    = (Inr (), map (\<lambda>x. Put (show_int x @ ''  '')) (drop i xs))"
proof (induction "length xs - i" arbitrary: i)
  case 0
  then show ?case by (simp add: ret_def)
next
  case (Suc n)
  then have i: "i < length xs" by simp
  have "print_numbers (map Some xs) (map int [Suc i..<length xs])
      = (Inr (), map (\<lambda>x. Put (show_int x @ ''  '')) (drop (Suc i) xs))"
    by (rule Suc.hyps(1)) (use Suc.hyps(2) in simp)
  then show ?case using i by (simp add: upt_conv_Cons bind_emit flip: Cons_nth_drop_Suc)
qed

lemma vector_add_result:
  assumes "length (arr v) = unat (vsize v)" and "unat (vsize v) + 1 < 2 ^ 32"
  shows "vector_add r v x =
    (if r = InPlace then ret \<lparr>arr = arr v @ [Some x], vsize = vsize v + 1\<rparr> else stop (Fault OutOfBounds))"
proof -
  have n: "unat (vsize v + 1) = Suc (length (arr v))" using assms by (simp add: unat_word_ariths)
  have u: "uint (vsize v) = int (length (arr v))" using assms(1) by simp
  show ?thesis
    by (cases r) (simp_all add: vector_add_def resize_def realloc_def n u Let_def)
qed

lemma add_all_result:
  assumes "length (arr v) = unat (vsize v)" and "unat (vsize v) + length nums < 2 ^ 32"
  shows "add_all nums v =
    (if \<forall>x\<in>set nums. fst x = InPlace
     then ret \<lparr>arr = arr v @ map (Some \<circ> snd) nums, vsize = vsize v + of_nat (length nums)\<rparr>
     else stop (Fault OutOfBounds))"
  using assms
proof (induction nums arbitrary: v)
  case (Cons x xs)
  have n: "unat (vsize v + 1) = Suc (unat (vsize v))" using Cons.prems(2) by (simp add: unat_word_ariths)
  show ?case
    using Cons.prems Cons.IH [of "\<lparr>arr = arr v @ [Some (snd x)], vsize = vsize v + 1\<rparr>"] n
    by (simp add: vector_add_result algebra_simps)
qed simp

text \<open>
  The vector program prints all numbers that it read, in their order, as long as no \<open>realloc\<close> moves or
  refuses the block; otherwise, since \<open>vector_add\<close> drops the new pointer, it writes behind or into freed
  memory before anything is printed.
\<close>

theorem vector_main_prints:
  assumes "length nums < 2 ^ 31"
  shows "vector_main nums =
    (if \<forall>x\<in>set nums. fst x = InPlace
     then (Inr 0, Put (''Vektor o velikosti '' @ show_nat (length nums) @ '':'' @ [CHR 0x0A, CHR 0x09] @ '' (  '')
        # map (\<lambda>x. Put (show_int (snd x) @ ''  '')) nums @ [Put ('')'' @ [CHR 0x0A])])
     else stop (Fault OutOfBounds))"
proof -
  have u: "uint (of_nat (length nums) :: u32) = int (length nums)"
    and s: "sint (of_nat (length nums) :: u32) = int (length nums)"
    using assms by (simp_all add: unsigned_of_nat signed_of_nat take_bit_nat_eq_self signed_take_bit_int_eq_self)
  have p: "print_numbers (map (Some \<circ> snd) nums) (map int [0..<length nums])
      = (Inr (), map (\<lambda>x. Put (show_int (snd x) @ ''  '')) nums)"
    using print_numbers_ok [of "map snd nums" 0] by (simp add: o_def)
  show ?thesis
    using assms add_all_result [of vector_ctor nums] p
    by (simp add: vector_main_def vector_ctor_def print_vector_def u s upto_int bind_emit bind_pair show_int_def)
qed

theorem vector_main_prints_witness:
  "vector_main [(InPlace, 3), (InPlace, -1)] =
     (Inr 0, [Put (''Vektor o velikosti '' @ show_nat 2 @ '':'' @ [CHR 0x0A, CHR 0x09] @ '' (  ''),
       Put (show_int 3 @ ''  ''), Put (show_int (-1) @ ''  ''), Put ('')'' @ [CHR 0x0A])])
   \<and> vector_main [(InPlace, 3), (Moved, -1)] = stop (Fault OutOfBounds)"
  using vector_main_prints [of "[(InPlace, 3), (InPlace, -1)]"] vector_main_prints [of "[(InPlace, 3), (Moved, -1)]"]
  by (simp add: numeral_2_eq_2 [symmetric])

section \<open>\<open>array.c\<close>\<close>

text \<open>A name is the address of a string in the heap; nothing changes or frees the strings.\<close>

record Person =
  year :: u32
  name_p :: "nat option"

record PersonArray =
  len :: u32
  data :: "Person option list"

type_synonym names = "string list"

definition person_ctor :: "u32 \<Rightarrow> string \<Rightarrow> names \<Rightarrow> Person \<times> names" where
  "person_ctor y name h = (\<lparr>year = y, name_p = Some (length h)\<rparr>, h @ [name])"

definition person_dtor :: "Person \<Rightarrow> Person" where
  "person_dtor p = p\<lparr>year := 0, name_p := None\<rparr>"

text \<open>\<open>*dst = *src\<close> for two places of the array.\<close>

definition person_move :: "int \<Rightarrow> int \<Rightarrow> Person option list \<Rightarrow> Person option list izp_io" where
  "person_move src dst d = bind_io (arr_get d src) (arr_set d dst)"

definition person_swap :: "int \<Rightarrow> int \<Rightarrow> Person option list \<Rightarrow> Person option list izp_io" where
  "person_swap a b d =
     bind_io (arr_get d a) (\<lambda>tmp. bind_io (arr_get d b) (\<lambda>y. bind_io (arr_set d a y) (\<lambda>d'. arr_set d' b tmp)))"

definition name_of :: "names \<Rightarrow> Person \<Rightarrow> string izp_io" where
  "name_of h p = (case name_p p of None \<Rightarrow> stop (Fault NullPointer) | Some a \<Rightarrow> ret (h ! a))"

text \<open>\<open>strcmp\<close> compares unsigned characters; only its sign is defined.\<close>

fun strcmp :: "string \<Rightarrow> string \<Rightarrow> int" where
  "strcmp [] [] = 0"
| "strcmp [] (y # ys) = -1"
| "strcmp (x # xs) [] = 1"
| "strcmp (x # xs) (y # ys) =
     (if (of_char x :: nat) < of_char y then -1 else if (of_char y :: nat) < of_char x then 1 else strcmp xs ys)"

definition person_cmp :: "names \<Rightarrow> Person \<Rightarrow> Person \<Rightarrow> int izp_io" where
  "person_cmp h a b =
     (if year a < year b then ret (-1)
      else if year a > year b then ret 1
      else bind_io (name_of h a) (\<lambda>x. bind_io (name_of h b) (\<lambda>y. ret (strcmp x y))))"

definition array_ctor :: PersonArray where
  "array_ctor = \<lparr>len = 0, data = []\<rparr>"

text \<open>\<open>None\<close> is the null pointer that \<open>array_inc\<close> and \<open>array_append\<close> return; here the new pointer is used.\<close>

definition array_inc :: "realloc_result \<Rightarrow> PersonArray \<Rightarrow> PersonArray option" where
  "array_inc r a =
     map_option (\<lambda>p. \<lparr>len = len a + 1, data = p\<rparr>) (snd (realloc r (data a) (unat (len a + 1))))"

definition array_append :: "realloc_result \<Rightarrow> PersonArray \<Rightarrow> Person \<Rightarrow> (PersonArray \<times> bool) izp_io" where
  "array_append r a p =
     (case array_inc r a of
        None \<Rightarrow> ret (a, False)
      | Some a' \<Rightarrow> bind_io (arr_set (data a') (uint (len a' - 1)) p) (\<lambda>d. ret (a'\<lparr>data := d\<rparr>, True)))"

primrec move_all :: "int list \<Rightarrow> Person option list \<Rightarrow> Person option list izp_io" where
  "move_all [] d = ret d"
| "move_all (i # is) d = bind_io (person_move (i - 1) i d) (move_all is)"

text \<open>\<open>array_remove\<close>, where the block stays or moves; \<open>len\<close> keeps its value.\<close>

definition array_remove :: "PersonArray \<Rightarrow> u32 \<Rightarrow> PersonArray izp_io" where
  "array_remove a idx =
     bind_io (move_all [uint (idx + 1)..uint (len a) - 1] (data a)) (\<lambda>d.
       ret (if len a \<noteq> 0 then a\<lparr>data := take (unat (len a - 1)) d\<rparr> else a\<lparr>data := d\<rparr>))"

primrec print_persons :: "names \<Rightarrow> Person option list \<Rightarrow> int list \<Rightarrow> unit izp_io" where
  "print_persons h d [] = ret ()"
| "print_persons h d (i # is) =
     bind_io (if i \<noteq> 0 then emit (Put '', '') else ret ()) (\<lambda>_.
     bind_io (arr_get d i) (\<lambda>p. bind_io (name_of h p) (\<lambda>n.
     bind_io (emit (Put (''['' @ show_int (sint (year p)) @ '', '' @ n @ '']''))) (\<lambda>_.
       print_persons h d is))))"

definition array_print :: "names \<Rightarrow> PersonArray \<Rightarrow> unit izp_io" where
  "array_print h a =
     bind_io (print_persons h (data a) [0..uint (len a) - 1]) (\<lambda>_. emit (Put [CHR 0x0A]))"

text \<open>The results of \<open>array_append\<close> are not looked at.\<close>

definition array_main :: "realloc_result \<Rightarrow> realloc_result \<Rightarrow> realloc_result \<Rightarrow> realloc_result \<Rightarrow> int izp_io" where
  "array_main r1 r2 r3 r4 =
     (let (p1, h) = person_ctor 2000 ''Bill'' []; (p2, h) = person_ctor 2010 ''Amanda'' h;
          (p3, h) = person_ctor 1990 ''Joe'' h in
      bind_io (array_append r1 array_ctor p1) (\<lambda>(a, _).
      bind_io (array_append r2 a p2) (\<lambda>(a, _).
      bind_io (array_append r3 a p3) (\<lambda>(a, _).
      let p1 = p1\<lparr>year := 1990\<rparr> in
      bind_io (array_append r4 a p1) (\<lambda>(a, _).
      bind_io (array_print h a) (\<lambda>_. ret 0))))))"

subsection \<open>Appending and printing\<close>

definition array_ok :: "PersonArray \<Rightarrow> Person list \<Rightarrow> bool" where
  "array_ok a ps \<longleftrightarrow> data a = map Some ps \<and> unat (len a) = length ps"

lemma uint_len: "array_ok a ps \<Longrightarrow> uint (len a) = int (length ps)"
  unfolding array_ok_def by (metis uint_nat)

lemma array_append_result:
  assumes "array_ok a ps" and "Suc (length ps) < 2 ^ 32"
  shows "array_append Failed a p = ret (a, False)"
    and "r \<noteq> Failed \<Longrightarrow> \<exists>a'. array_append r a p = ret (a', True) \<and> array_ok a' (ps @ [p])"
proof -
  have n: "unat (len a + 1) = Suc (length ps)" using assms by (simp add: array_ok_def unat_word_ariths)
  note u = uint_len [OF assms(1)]
  have d: "data a = map Some ps" using assms(1) by (simp add: array_ok_def)
  show "array_append Failed a p = ret (a, False)"
    by (simp add: array_append_def array_inc_def realloc_def Let_def)
  show "\<exists>a'. array_append r a p = ret (a', True) \<and> array_ok a' (ps @ [p])" if "r \<noteq> Failed"
    using that by (cases r) (simp_all add: array_append_def array_inc_def realloc_def Let_def n u d array_ok_def list_update_append)
qed

lemma array_ctor_ok: "array_ok array_ctor []"
  by (simp add: array_ok_def array_ctor_def)

text \<open>What is printed for a person whose name is in the heap.\<close>

definition person_text :: "names \<Rightarrow> Person \<Rightarrow> string" where
  "person_text h p = ''['' @ show_int (sint (year p)) @ '', '' @ (h ! the (name_p p)) @ '']''"

fun persons_text :: "names \<Rightarrow> nat \<Rightarrow> Person list \<Rightarrow> izp_event list" where
  "persons_text h i [] = []"
| "persons_text h i (p # ps) =
     (if i \<noteq> 0 then [Put '', ''] else []) @ Put (person_text h p) # persons_text h (Suc i) ps"

lemma print_persons_ok:
  assumes "\<forall>p\<in>set ps. name_p p \<noteq> None" and "take (length ps) d = map Some ps" and "length ps \<le> length d"
  shows "print_persons h d (map int [i..<length ps]) = (Inr (), persons_text h i (drop i ps))"
proof (induction "length ps - i" arbitrary: i)
  case 0
  then show ?case by (simp add: ret_def)
next
  case (Suc n)
  then have i: "i < length ps" by simp
  have IH: "print_persons h d (map int [Suc i..<length ps]) = (Inr (), persons_text h (Suc i) (drop (Suc i) ps))"
    by (rule Suc.hyps(1)) (use Suc.hyps(2) in simp)
  have "take (length ps) d ! i = Some (ps ! i)" unfolding assms(2) using i by simp
  then have "d ! i = Some (ps ! i)" using i by simp
  then have g: "arr_get d (int i) = (ret (ps ! i) :: Person izp_io)" using i assms(3) by simp
  have nm: "name_of h (ps ! i) = (ret (h ! the (name_p (ps ! i))) :: string izp_io)"
    using assms(1) nth_mem [OF i] by (auto simp: name_of_def)
  have "print_persons h d (map int [i..<length ps]) =
    bind_io (if i \<noteq> 0 then emit (Put '', '') else ret ()) (\<lambda>_.
    bind_io (emit (Put (person_text h (ps ! i)))) (\<lambda>_. print_persons h d (map int [Suc i..<length ps])))"
    using i by (simp add: upt_conv_Cons g nm person_text_def)
  moreover have d: "drop i ps = ps ! i # drop (Suc i) ps" using i by (simp add: Cons_nth_drop_Suc)
  ultimately show ?case by (simp only: IH d persons_text.simps) (simp add: bind_emit)
qed

lemma array_print_ok:
  assumes "array_ok a ps" and "\<forall>p\<in>set ps. name_p p \<noteq> None"
  shows "array_print h a = (Inr (), persons_text h 0 ps @ [Put [CHR 0x0A]])"
proof -
  have "print_persons h (data a) (map int [0..<length ps]) = (Inr (), persons_text h 0 ps)"
    using print_persons_ok [OF assms(2), of "data a" h 0] assms(1) by (simp add: array_ok_def)
  then show ?thesis
    by (simp add: array_print_def uint_len [OF assms(1)] upto_int bind_pair)
qed

text \<open>The program prints its four persons; a \<open>realloc\<close> that moves the block does no harm here.\<close>

lemma array_main_prints:
  assumes "Failed \<notin> {r1, r2, r3, r4}"
  shows "\<exists>w. array_main r1 r2 r3 r4 = (Inr 0, w) \<and>
    concat (map (\<lambda>e. case e of Put s \<Rightarrow> s) w)
      = ''['' @ show_int 2000 @ '', Bill], ['' @ show_int 2010 @ '', Amanda], ['' @ show_int 1990
          @ '', Joe], ['' @ show_int 1990 @ '', Bill]'' @ [CHR 0x0A]"
proof -
  define h where "h = [''Bill'', ''Amanda'', ''Joe'']"
  define p where "p = (\<lambda>y n. \<lparr>year = y, name_p = Some n\<rparr>)"
  obtain a1 where a1: "array_append r1 array_ctor (p 2000 0) = ret (a1, True)" "array_ok a1 [p 2000 0]"
    using array_append_result(2) [OF array_ctor_ok, of r1] assms by auto
  obtain a2 where a2: "array_append r2 a1 (p 2010 1) = ret (a2, True)" "array_ok a2 [p 2000 0, p 2010 1]"
    using array_append_result(2) [OF a1(2), of r2] assms by auto
  obtain a3 where a3: "array_append r3 a2 (p 1990 (Suc (Suc 0))) = ret (a3, True)" "array_ok a3 [p 2000 0, p 2010 1, p 1990 (Suc (Suc 0))]"
    using array_append_result(2) [OF a2(2), of r3] assms by auto
  obtain a4 where a4: "array_append r4 a3 (p 1990 0) = ret (a4, True)"
      "array_ok a4 [p 2000 0, p 2010 1, p 1990 (Suc (Suc 0)), p 1990 0]"
    using array_append_result(2) [OF a3(2), of r4] assms by auto
  have "array_print h a4 = (Inr (), persons_text h 0 [p 2000 0, p 2010 1, p 1990 (Suc (Suc 0)), p 1990 0] @ [Put [CHR 0x0A]])"
    by (rule array_print_ok [OF a4(2)]) (simp add: p_def)
  then have "array_main r1 r2 r3 r4 =
      (Inr 0, persons_text h 0 [p 2000 0, p 2010 1, p 1990 (Suc (Suc 0)), p 1990 0] @ [Put [CHR 0x0A]])"
    using a1(1) a2(1) a3(1) a4(1) by (simp add: array_main_def person_ctor_def p_def h_def bind_pair)
  then show ?thesis by (simp add: person_text_def p_def h_def)
qed

subsection \<open>Removing\<close>

lemma move_all_result:
  assumes "\<And>i. lo \<le> i \<Longrightarrow> i < n \<Longrightarrow> q ! i = q ! (i - 1)" and "n = length ps" and "n \<le> length q" and "0 < lo"
  shows "lo \<le> i \<Longrightarrow> i \<le> n \<Longrightarrow>
    move_all (map int [i..<n]) (map Some (take i q @ drop i ps)) = ret (map Some (take n q))"
proof (induction "n - i" arbitrary: i)
  case 0
  then show ?case using assms(2) by simp
next
  case (Suc k)
  then have i: "i < n" "0 < i" using assms(4) by auto
  let ?d = "map Some (take i q @ drop i ps)"
  have l: "length ?d = n" using assms(2,3) i by simp
  have "?d ! (i - 1) = Some (q ! (i - 1))" using assms(3) i by (simp add: nth_append)
  moreover have "nat (int i - 1) = i - 1" by simp
  ultimately have g: "arr_get ?d (int i - 1) = (ret (q ! (i - 1)) :: Person izp_io)"
    using l i by (simp add: arr_get_def del: map_append)
  have "take (Suc i) q = take i q @ [q ! i]" using assms(3) i by (simp add: take_Suc_conv_app_nth)
  moreover have "drop i ps = ps ! i # drop (Suc i) ps" using i assms(2) by (simp add: Cons_nth_drop_Suc)
  ultimately have u: "?d[i := Some (q ! (i - 1))] = map Some (take (Suc i) q @ drop (Suc i) ps)"
    using assms(1) [OF Suc.prems(1) i(1)] assms(3) i by (simp add: list_update_append)
  have "person_move (int i - 1) (int i) ?d = ret (map Some (take (Suc i) q @ drop (Suc i) ps))"
    using l i u by (simp add: person_move_def g del: map_append)
  then show ?case
    using Suc.hyps(1) [of "Suc i"] Suc.hyps(2) Suc.prems i
    by (simp add: upt_conv_Cons del: map_append)
qed

text \<open>The list that is left: everything behind the removed place is overwritten by what was to be removed.\<close>

definition removed :: "nat \<Rightarrow> Person list \<Rightarrow> Person list" where
  "removed idx ps = take (length ps - 1) (take (Suc idx) ps @ replicate (length ps) (ps ! idx))"

lemma array_remove_result:
  assumes "array_ok a ps" and "unat idx < length ps"
  shows "array_remove a idx = ret \<lparr>len = len a, data = map Some (removed (unat idx) ps)\<rparr>"
proof -
  let ?q = "take (Suc (unat idx)) ps @ replicate (length ps) (ps ! unat idx)"
  have ok: "data a = map Some ps" "unat (len a) = length ps" using assms(1) by (simp_all add: array_ok_def)
  have "length ps < 2 ^ 32" using ok(2) uint_lt2p [of "len a"] uint_len [OF assms(1)] by simp
  then have "unat (idx + 1) = Suc (unat idx)" using assms(2) by (simp add: unat_word_ariths)
  then have n1: "uint (idx + 1) = int (Suc (unat idx))" by (metis uint_nat)
  have "[int k..int n - 1] = map int [k..<n]" for k n
    by (rule nth_equalityI) (auto simp: nth_upto)
  then have js: "[uint (idx + 1)..uint (len a) - 1] = map int [Suc (unat idx)..<length ps]"
    unfolding n1 uint_len [OF assms(1)] .
  have step: "?q ! i = ?q ! (i - 1)" if i: "Suc (unat idx) \<le> i" "i < length ps" for i
  proof -
    have "i - 1 = unat idx \<or> Suc (unat idx) \<le> i - 1" using i by linarith
    then show ?thesis using i assms(2) by (auto simp: nth_append)
  qed
  have "move_all (map int [Suc (unat idx)..<length ps]) (map Some (take (Suc (unat idx)) ?q @ drop (Suc (unat idx)) ps))
      = ret (map Some (take (length ps) ?q))"
    by (rule move_all_result [OF step refl]) (use assms(2) in auto)
  moreover have "take (Suc (unat idx)) ?q = take (Suc (unat idx)) ps" using assms(2) by simp
  ultimately have m: "move_all (map int [Suc (unat idx)..<length ps]) (data a) = ret (map Some (take (length ps) ?q))"
    by (simp only: ok(1) append_take_drop_id)
  have z: "len a \<noteq> 0" using ok(2) assms(2) by auto
  then have "unat (len a - 1) = length ps - 1" using ok(2) by (simp add: unat_minus_one)
  then show ?thesis
    unfolding array_remove_def js m using z by (simp add: removed_def take_map min_def)
qed

lemma print_persons_append:
  "print_persons h d (is @ js) = bind_io (print_persons h d is) (\<lambda>_. print_persons h d js)"
  by (induction "is") (simp_all add: bind_assoc)

text \<open>
  C39. \<open>array_remove\<close> of a place before the last keeps the person there, puts copies of it over everybody
  behind it, and leaves the length as it was, so that printing the array afterwards reads behind it.
\<close>

theorem array_remove_spoils:
  assumes "array_ok a ps" and "unat idx < length ps" and "\<forall>p\<in>set ps. name_p p \<noteq> None"
  shows "\<exists>a'. array_remove a idx = ret a' \<and> len a' = len a \<and> data a' = map Some (removed (unat idx) ps)
    \<and> (Suc (unat idx) < length ps \<longrightarrow> removed (unat idx) ps ! unat idx = ps ! unat idx)
    \<and> fst (array_print h a') = Inl (Fault OutOfBounds)"
proof -
  let ?r = "removed (unat idx) ps"
  define a' where "a' = \<lparr>len = len a, data = map Some ?r\<rparr>"
  have l: "length ?r = length ps - 1" using assms(2) by (simp add: removed_def)
  have "set ?r \<subseteq> set ps" using assms(2) by (auto simp: removed_def dest!: in_set_takeD split: if_splits)
  then have "print_persons h (data a') (map int [0..<length ?r]) = (Inr (), persons_text h 0 ?r)"
    using print_persons_ok [of ?r "data a'" h 0] assms(3) by (auto simp: a'_def)
  moreover have "arr_get (data a') (int (length ?r)) = (stop (Fault OutOfBounds) :: Person izp_io)"
    by (simp add: a'_def)
  moreover have "[0..uint (len a') - 1] = map int [0..<length ?r] @ [int (length ?r)]"
  proof -
    have "[0..<length ps] = [0..<length ?r] @ [length ?r]" using l assms(2) by (cases "length ps") auto
    then show ?thesis using uint_len [OF assms(1)] by (simp add: a'_def upto_int)
  qed
  ultimately have "fst (array_print h a') = Inl (Fault OutOfBounds)"
    by (simp add: array_print_def print_persons_append bind_pair) (simp add: bind_io_def)
  moreover have "?r ! unat idx = ps ! unat idx" if "Suc (unat idx) < length ps"
    using that by (simp add: removed_def nth_append)
  ultimately show ?thesis using array_remove_result [OF assms(1,2)] by (simp add: a'_def)
qed

theorem array_remove_spoils_witness:
  "\<exists>a'. array_remove \<lparr>len = 3, data = map Some
       [\<lparr>year = 1, name_p = Some 0\<rparr>, \<lparr>year = 2, name_p = Some 0\<rparr>, \<lparr>year = 3, name_p = Some 0\<rparr>]\<rparr> 0 = ret a'
     \<and> data a' = map Some [\<lparr>year = 1, name_p = Some 0\<rparr>, \<lparr>year = 1, name_p = Some 0\<rparr>]
     \<and> fst (array_print [''Joe''] a') = Inl (Fault OutOfBounds)"
proof -
  let ?ps = "[\<lparr>year = 1, name_p = Some 0\<rparr>, \<lparr>year = 2, name_p = Some 0\<rparr>, \<lparr>year = 3, name_p = Some 0\<rparr>]"
  have "array_ok \<lparr>len = 3, data = map Some ?ps\<rparr> ?ps" by (simp add: array_ok_def)
  from array_remove_spoils [OF this, of 0 "[''Joe'']"] show ?thesis by (auto simp: removed_def)
qed

subsection \<open>Comparing\<close>

lemma strcmp_Cons:
  "strcmp (x # xs) (y # ys) \<le> 0 \<longleftrightarrow>
     (of_char x :: nat) < of_char y \<or> (of_char x :: nat) = of_char y \<and> strcmp xs ys \<le> 0"
  by (simp del: of_char_eq_iff)

lemma strcmp_sym: "strcmp y x = - strcmp x y"
  by (induction x y rule: strcmp.induct) simp_all

lemma strcmp_eq: "strcmp x y = 0 \<longleftrightarrow> x = y"
proof (induction x y rule: strcmp.induct)
  case (4 x xs y ys)
  have "(of_char x :: nat) = of_char y \<longleftrightarrow> x = y" by (rule of_char_eq_iff)
  then show ?case using 4 by (cases "(of_char x :: nat)" "of_char y :: nat" rule: linorder_cases) auto
qed simp_all

lemma strcmp_trans: "strcmp x y \<le> 0 \<Longrightarrow> strcmp y z \<le> 0 \<Longrightarrow> strcmp x z \<le> 0"
proof (induction x arbitrary: y z)
  case Nil
  then show ?case by (cases z) simp_all
next
  case (Cons a x)
  then obtain b y' c z' where y: "y = b # y'" and z: "z = c # z'" by (cases y; cases z) auto
  show ?case using Cons.prems Cons.IH [of y' z'] unfolding y z strcmp_Cons by (elim disjE) auto
qed

text \<open>\<open>person_cmp\<close> orders by the year and then by the name.\<close>

definition person_le :: "names \<Rightarrow> Person \<Rightarrow> Person \<Rightarrow> bool" where
  "person_le h a b \<longleftrightarrow> (case fst (person_cmp h a b) of Inr r \<Rightarrow> r \<le> 0 | Inl _ \<Rightarrow> False)"

lemma person_le_order:
  assumes "name_p a \<noteq> None" "name_p b \<noteq> None" "name_p c \<noteq> None"
  shows "person_le h a b \<or> person_le h b a" and "person_le h a b \<Longrightarrow> person_le h b c \<Longrightarrow> person_le h a c"
    and "person_le h a b \<Longrightarrow> person_le h b a \<Longrightarrow> year a = year b \<and> h ! the (name_p a) = h ! the (name_p b)"
proof -
  obtain x y z where n: "name_p a = Some x" "name_p b = Some y" "name_p c = Some z" using assms by auto
  have le: "name_p p = Some i \<Longrightarrow> name_p q = Some j \<Longrightarrow>
      person_le h p q \<longleftrightarrow> year p < year q \<or> year p = year q \<and> strcmp (h ! i) (h ! j) \<le> 0" for p q i j
    by (simp add: person_le_def person_cmp_def name_of_def) (metis not_less_iff_gr_or_eq)
  note l = le [OF n(1,2)] le [OF n(2,1)] le [OF n(2,3)] le [OF n(1,3)]
  show "person_le h a b \<or> person_le h b a"
    unfolding l using strcmp_sym [of "h ! y" "h ! x"] by auto
  show "person_le h a b \<Longrightarrow> person_le h b c \<Longrightarrow> person_le h a c"
    unfolding l using strcmp_trans [of "h ! x" "h ! y" "h ! z"] by auto
  show "person_le h a b \<Longrightarrow> person_le h b a \<Longrightarrow> year a = year b \<and> h ! the (name_p a) = h ! the (name_p b)"
    unfolding l using strcmp_sym [of "h ! y" "h ! x"] strcmp_eq [of "h ! x" "h ! y"] by (auto simp: n)
qed

end
