(* ===== verification/Izp_Lessons.thy ===== *)
theory Izp_Lessons
  imports Izp_String Format
begin

text \<open>
  The small programs \<open>test.c\<close>, \<open>test2.c\<close> and \<open>test3.c\<close> of \<open>izp/cvika\<close>: counting letters and digits, shifting
  letters, and functions on numbers, strings and arrays.
\<close>

section \<open>\<open>test3.c\<close>\<close>

definition my_crazy_min :: "int \<Rightarrow> int \<Rightarrow> int izp_io" where
  "my_crazy_min a b =
     bind_io (if a < 0 then cint (- a) else ret a) (\<lambda>a.
     bind_io (if b < 0 then cint (- b) else ret b) (\<lambda>b.
       if a < b then ret a else ret b))"

text \<open>The loop of \<open>strlen_m\<close> and of \<open>my_strchr\<close>: the first place of a character, whatever lies before it.\<close>

function index_from :: "buf \<Rightarrow> u8 \<Rightarrow> int \<Rightarrow> int izp_io" where
  "index_from str ch i =
     bind_io (arr_get str i) (\<lambda>c. if c \<noteq> ch then index_from str ch (i + 1) else ret i)"
  by pat_completeness auto
termination
  by (relation "measure (\<lambda>(str, ch, i). nat (int (length str) - i))")
    (auto simp: arr_get_def split: if_splits option.splits)

declare index_from.simps [simp del]

definition strlen_m :: "buf \<Rightarrow> int izp_io" where
  "strlen_m str = index_from str 0 0"

definition my_strchr :: "buf \<Rightarrow> u8 \<Rightarrow> int izp_io" where
  "my_strchr str ch = index_from str ch 0"

primrec includes_from :: "int option list \<Rightarrow> int \<Rightarrow> int list \<Rightarrow> bool izp_io" where
  "includes_from arr i [] = ret False"
| "includes_from arr i (j # js) =
     bind_io (arr_get arr j) (\<lambda>x. if x = i then ret True else includes_from arr i js)"

definition includes_m :: "int option list \<Rightarrow> int \<Rightarrow> int \<Rightarrow> bool izp_io" where
  "includes_m arr i len = includes_from arr i [0..len - 1]"

text \<open>The state is \<open>duplikaty\<close> and its length, which is also the result; \<open>&&\<close> calls \<open>includes\<close> only for equal numbers.\<close>

type_synonym dups = "int option list \<times> int"

definition same_step :: "int option list \<Rightarrow> int option list \<Rightarrow> int \<Rightarrow> int \<Rightarrow> dups \<Rightarrow> dups izp_io" where
  "same_step arr1 arr2 i j d =
     bind_io (arr_get arr1 i) (\<lambda>x. bind_io (arr_get arr2 j) (\<lambda>y.
       if_io (if x = y then bind_io (includes_m (fst d) x (snd d)) (\<lambda>b. ret (\<not> b)) else ret False)
         (bind_io (arr_set (fst d) (snd d) x) (\<lambda>ds. ret (ds, snd d + 1)))
         (ret d)))"

primrec same_row :: "int option list \<Rightarrow> int option list \<Rightarrow> int \<Rightarrow> int list \<Rightarrow> dups \<Rightarrow> dups izp_io" where
  "same_row arr1 arr2 i [] d = ret d"
| "same_row arr1 arr2 i (j # js) d = bind_io (same_step arr1 arr2 i j d) (same_row arr1 arr2 i js)"

primrec same_rows :: "int option list \<Rightarrow> int option list \<Rightarrow> int list \<Rightarrow> int list \<Rightarrow> dups \<Rightarrow> dups izp_io" where
  "same_rows arr1 arr2 [] js d = ret d"
| "same_rows arr1 arr2 (i # is) js d = bind_io (same_row arr1 arr2 i js d) (same_rows arr1 arr2 is js)"

text \<open>An array of variable length has at least one element; a length below 1 is undefined.\<close>

definition cisla_stejne :: "int option list \<Rightarrow> int option list \<Rightarrow> int \<Rightarrow> int izp_io" where
  "cisla_stejne arr1 arr2 len =
     (if len < 1 then stop (Fault OutOfBounds) else
     bind_io (same_rows arr1 arr2 [0..len - 1] [0..len - 1] (replicate (nat len) None, 0)) (\<lambda>d. ret (snd d)))"

text \<open>The text of the sum of two \<open>float\<close> numbers is a parameter.\<close>

definition test3_main :: "(int \<Rightarrow> int \<Rightarrow> string) \<Rightarrow> int izp_io" where
  "test3_main sum_text =
     bind_io (emit (Put (''Sum: '' @ sum_text 2 30 @ [CHR 0x0A]))) (\<lambda>_.
     bind_io (my_crazy_min 4 3) (\<lambda>m.
     bind_io (emit (Put (''My crazy min: '' @ show_int m @ [CHR 0x0A]))) (\<lambda>_.
     bind_io (strlen_m (literal ''Hello'')) (\<lambda>n.
     bind_io (emit (Put (''Length: '' @ show_int n @ [CHR 0x0A]))) (\<lambda>_.
     bind_io (cisla_stejne (map Some [1, 1, 5, 5, 2]) (map Some [5, 5, 1, 1, 3]) 5) (\<lambda>k.
     bind_io (emit (Put (''Stejna cisla: '' @ show_int k @ [CHR 0x0A]))) (\<lambda>_. ret 0)))))))"

section \<open>\<open>test.c\<close>\<close>

text \<open>
  \<open>scanf("%100s", ...)\<close> stores up to 100 characters of the first word and a zero, in an array of 100.
\<close>

definition is_lower :: "u8 \<Rightarrow> bool" where
  "is_lower b \<longleftrightarrow> 97 \<le> sint b \<and> sint b \<le> 122"

definition is_upper :: "u8 \<Rightarrow> bool" where
  "is_upper b \<longleftrightarrow> 65 \<le> sint b \<and> sint b \<le> 90"

definition isdigit_c :: "u8 \<Rightarrow> bool" where
  "isdigit_c b \<longleftrightarrow> 48 \<le> sint b \<and> sint b \<le> 57"

definition isalpha_c :: "u8 \<Rightarrow> bool" where
  "isalpha_c b \<longleftrightarrow> is_lower b \<or> is_upper b"

definition putchar :: "int \<Rightarrow> unit izp_io" where
  "putchar c = emit (Put [char_of (nat (c mod 256))])"

function count_from :: "buf \<Rightarrow> int \<Rightarrow> int \<Rightarrow> int \<Rightarrow> (int \<times> int \<times> int) izp_io" where
  "count_from retezec i cisla pismena =
     bind_io (arr_get retezec i) (\<lambda>c.
       if c \<noteq> 0
       then bind_io (putchar (if is_lower c then (sint c - 97) + 65 else sint c)) (\<lambda>_.
         if isdigit_c c then count_from retezec (i + 1) (cisla + 1) pismena
         else if isalpha_c c then count_from retezec (i + 1) cisla (pismena + 1)
         else count_from retezec (i + 1) cisla pismena)
       else ret (i, cisla, pismena))"
  by pat_completeness auto
termination
  by (relation "measure (\<lambda>(str, i, m, n). nat (int (length str) - i))")
    (auto simp: arr_get_def split: if_splits option.splits)

declare count_from.simps [simp del]

definition test_main :: "u8 list \<Rightarrow> int izp_io" where
  "test_main word =
     bind_io (strcpy (replicate 100 None) (cstr (take 100 word))) (\<lambda>retezec.
     bind_io (count_from retezec 0 0 0) (\<lambda>(i, cisla, pismena).
     bind_io (emit (Put ([CHR 0x0A] @ ''Delka je '' @ show_int i @ '', a ma '' @ show_int cisla @ '' cislic a ''
       @ show_int pismena @ '' znaku.'' @ [CHR 0x0A]))) (\<lambda>_. ret 0)))"

section \<open>\<open>test2.c\<close>\<close>

primrec shift_chars :: "int \<Rightarrow> u8 list \<Rightarrow> unit izp_io" where
  "shift_chars posun [] = ret ()"
| "shift_chars posun (c # s) =
     bind_io (cint (sint c + posun)) (\<lambda>x. bind_io (putchar x) (\<lambda>_. shift_chars posun s))"

definition test2_main :: "string list \<Rightarrow> int izp_io" where
  "test2_main argv =
     bind_io (arg_get argv 2) (\<lambda>a. bind_io (atoi a) (\<lambda>posun.
     bind_io (arg_get argv 1) (\<lambda>s.
     bind_io (shift_chars posun (map of_char s)) (\<lambda>_.
     bind_io (putchar 10) (\<lambda>_. ret 0)))))"

section \<open>Lemmas\<close>

lemma index_from_first:
  assumes "str = map Some s @ r" and "ch \<in> set s"
  shows "index_from str ch 0 = ret (int (length (takeWhile (\<lambda>c. c \<noteq> ch) s)))"
proof -
  let ?n = "length (takeWhile (\<lambda>c. c \<noteq> ch) s)"
  have n: "?n < length s" using assms(2) by (induction s) auto
  have "i \<le> ?n \<Longrightarrow> index_from str ch (int i) = ret (int ?n)" for i
  proof (induction "?n - i" arbitrary: i)
    case 0
    then have i: "i = ?n" by simp
    have "arr_get str (int ?n) = (ret ch :: u8 izp_io)"
      using n nth_length_takeWhile [OF n] assms(1) by (simp add: nth_append)
    then show ?case unfolding i by (subst index_from.simps) simp
  next
    case (Suc k)
    then have i: "i < ?n" by simp
    then have "s ! i \<noteq> ch" using nth_mem [OF i] set_takeWhileD takeWhile_nth [OF i] by metis
    moreover have "arr_get str (int i) = (ret (s ! i) :: u8 izp_io)"
      using i n assms(1) by (simp add: nth_append)
    ultimately show ?case using Suc.hyps(1) [of "Suc i"] Suc.hyps(2) i
      by (subst index_from.simps) (simp add: add.commute)
  qed
  from this [of 0] show ?thesis by simp
qed

text \<open>The array of duplicates holds a list of different numbers.\<close>

definition dups_of :: "nat \<Rightarrow> int list \<Rightarrow> dups" where
  "dups_of n ds = (map Some ds @ replicate (n - length ds) None, int (length ds))"

definition note_dup :: "int \<Rightarrow> int list \<Rightarrow> int list" where
  "note_dup x ds = (if x \<in> set ds then ds else ds @ [x])"

lemma includes_ok:
  "includes_m (fst (dups_of n ds)) x (int (length ds)) = ret (x \<in> set ds)"
proof -
  have "i \<le> length ds \<Longrightarrow>
    includes_from (fst (dups_of n ds)) x (map int [i..<length ds]) = ret (x \<in> set (drop i ds))" for i
  proof (induction "length ds - i" arbitrary: i)
    case (Suc k)
    then have i: "i < length ds" by simp
    have g: "arr_get (fst (dups_of n ds)) (int i) = (ret (ds ! i) :: int izp_io)"
      using i by (simp add: dups_of_def nth_append)
    have IH: "includes_from (fst (dups_of n ds)) x (map int [Suc i..<length ds]) = ret (x \<in> set (drop (Suc i) ds))"
      by (rule Suc.hyps(1)) (use Suc.hyps(2) i in auto)
    have "drop i ds = ds ! i # drop (Suc i) ds" using i by (simp add: Cons_nth_drop_Suc)
    then show ?case using i by (simp add: upt_conv_Cons g IH)
  qed simp
  from this [of 0] show ?thesis by (simp add: includes_m_def upto_int)
qed

lemma same_step_ok:
  assumes "i < length xs" "j < length ys" "distinct ds" "set ds \<subseteq> set xs"
  shows "same_step (map Some xs) (map Some ys) (int i) (int j) (dups_of (length xs) ds)
    = ret (dups_of (length xs) (if xs ! i = ys ! j then note_dup (xs ! i) ds else ds))"
proof (cases "xs ! i = ys ! j \<and> xs ! i \<notin> set ds")
  case True
  have "card (set (xs ! i # ds)) \<le> card (set xs)" by (rule card_mono) (use assms(1,4) in auto)
  moreover have "card (set (xs ! i # ds)) = length (xs ! i # ds)" by (rule distinct_card) (use True assms(3) in auto)
  ultimately have "Suc (length ds) \<le> length xs" using card_length [of xs] by (simp del: set_simps)
  then have "arr_set (fst (dups_of (length xs) ds)) (snd (dups_of (length xs) ds)) (xs ! i)
      = (ret (fst (dups_of (length xs) (ds @ [xs ! i]))) :: int option list izp_io)"
    by (simp add: dups_of_def list_update_append replicate_Suc [symmetric] Suc_diff_Suc del: replicate_Suc)
      (metis Suc_diff_Suc Suc_le_lessD list_update_code(2) replicate_Suc)
  then show ?thesis using True assms(1,2) includes_ok [of "length xs" ds "ys ! j"]
    by (simp add: same_step_def note_dup_def) (simp add: dups_of_def)
next
  case False
  then show ?thesis using assms(1,2) includes_ok [of "length xs" ds "ys ! j"]
    by (auto simp: same_step_def note_dup_def) (simp add: dups_of_def)
qed

lemma note_dup_facts [simp]:
  "distinct ds \<Longrightarrow> distinct (note_dup x ds)" "set (note_dup x ds) = insert x (set ds)"
  by (auto simp: note_dup_def)

lemma same_row_ok:
  assumes "i < length xs" and "\<forall>j\<in>set js. j < length ys"
  shows "distinct ds \<Longrightarrow> set ds \<subseteq> set xs \<Longrightarrow>
    same_row (map Some xs) (map Some ys) (int i) (map int js) (dups_of (length xs) ds)
     = ret (dups_of (length xs) (if xs ! i \<in> (!) ys ` set js then note_dup (xs ! i) ds else ds))"
  using assms(2)
proof (induction js arbitrary: ds)
  case (Cons j js)
  have s: "same_step (map Some xs) (map Some ys) (int i) (int j) (dups_of (length xs) ds)
      = ret (dups_of (length xs) (if xs ! i = ys ! j then note_dup (xs ! i) ds else ds))"
    by (rule same_step_ok) (use assms(1) Cons.prems in auto)
  have twice: "note_dup x (note_dup x ds) = note_dup x ds" for x by (simp add: note_dup_def)
  let ?ds = "if xs ! i = ys ! j then note_dup (xs ! i) ds else ds"
  have IH: "same_row (map Some xs) (map Some ys) (int i) (map int js) (dups_of (length xs) ?ds)
      = ret (dups_of (length xs) (if xs ! i \<in> (!) ys ` set js then note_dup (xs ! i) ?ds else ?ds))"
    by (rule Cons.IH) (use Cons.prems nth_mem [OF assms(1)] in auto)
  show ?case by (simp only: list.map same_row.simps s bind_ret IH) (auto simp: twice)
qed simp

lemma same_rows_ok:
  assumes "length ys = length xs" and "\<forall>i\<in>set is. i < length xs"
  shows "distinct ds \<Longrightarrow> set ds \<subseteq> set xs \<Longrightarrow>
    \<exists>es. same_rows (map Some xs) (map Some ys) (map int is) (map int [0..<length xs]) (dups_of (length xs) ds)
       = ret (dups_of (length xs) es) \<and> distinct es \<and> set es = set ds \<union> ((!) xs ` set is \<inter> set ys)"
  using assms(2)
proof (induction "is" arbitrary: ds)
  case (Cons i "is")
  have y: "(!) ys ` set [0..<length xs] = set ys" using assms(1) by (simp add: nth_image)
  let ?ds = "if xs ! i \<in> set ys then note_dup (xs ! i) ds else ds"
  have r: "same_row (map Some xs) (map Some ys) (int i) (map int [0..<length xs]) (dups_of (length xs) ds)
      = ret (dups_of (length xs) ?ds)"
    using same_row_ok [of i xs "[0..<length xs]" ys ds] Cons.prems assms(1) y by auto
  have "distinct ?ds" "set ?ds \<subseteq> set xs" "\<forall>i\<in>set is. i < length xs" using Cons.prems by auto
  from Cons.IH [OF this] obtain es where
    "same_rows (map Some xs) (map Some ys) (map int is) (map int [0..<length xs]) (dups_of (length xs) ?ds)
       = ret (dups_of (length xs) es)" "distinct es" "set es = set ?ds \<union> ((!) xs ` set is \<inter> set ys)"
    by blast
  then show ?case using r by (intro exI [of _ es]) auto
qed auto

lemma cisla_stejne_card:
  assumes "length ys = length xs" and "xs \<noteq> []"
  shows "cisla_stejne (map Some xs) (map Some ys) (int (length xs)) = ret (int (card (set xs \<inter> set ys)))"
proof -
  have x: "(!) xs ` set [0..<length xs] = set xs" by (simp add: nth_image)
  obtain es where es: "same_rows (map Some xs) (map Some ys) (map int [0..<length xs]) (map int [0..<length xs])
        (dups_of (length xs) []) = ret (dups_of (length xs) es)" "distinct es" "set es = set xs \<inter> set ys"
    using same_rows_ok [OF assms(1), of "[0..<length xs]" "[]"] x by auto
  have "length es = card (set xs \<inter> set ys)" using distinct_card [OF es(2)] es(3) by simp
  then show ?thesis using es(1) assms(2) by (simp add: cisla_stejne_def upto_int dups_of_def Suc_le_eq)
qed

text \<open>
  C40. \<open>cisla_stejne\<close> returns how many different numbers the two arrays share, and never writes behind its
  array of duplicates, which for empty arrays cannot be declared.
\<close>

theorem cisla_stejne_counts:
  assumes "length ys = length xs"
  shows "cisla_stejne (map Some xs) (map Some ys) (int (length xs)) =
    (if xs = [] then stop (Fault OutOfBounds) else ret (int (card (set xs \<inter> set ys))))"
  using cisla_stejne_card [OF assms] by (cases "xs = []") (simp_all add: cisla_stejne_def)

theorem cisla_stejne_counts_witness:
  "cisla_stejne (map Some [1, 1, 5, 5, 2]) (map Some [5, 5, 1, 1, 3]) 5 = ret 2"
  using cisla_stejne_counts [of "[5, 5, 1, 1, 3]" "[1, 1, 5, 5, 2]"] by simp

lemma my_crazy_min_result:
  assumes "in_int a" "in_int b"
  shows "my_crazy_min a b =
    (if a = INT_MIN \<or> b = INT_MIN then stop (Fault SignedOverflow) else ret (min \<bar>a\<bar> \<bar>b\<bar>))"
  using assms by (auto simp: my_crazy_min_def cint_def in_int_def INT_MIN_def INT_MAX_def)

lemma strlen_m_ok:
  assumes "0 \<notin> set s"
  shows "strlen_m (cstr s) = ret (int (length s))"
proof -
  have "takeWhile (\<lambda>c. c \<noteq> 0) (s @ [0]) = s" using assms by (subst takeWhile_append2) auto
  then show ?thesis
    using index_from_first [of "cstr s" "s @ [0]" "[]" 0] by (simp add: strlen_m_def cstr_def)
qed

lemma test3_main_prints:
  "test3_main sum_text = (Inr 0, [Put (''Sum: '' @ sum_text 2 30 @ [CHR 0x0A]),
     Put (''My crazy min: '' @ show_int 3 @ [CHR 0x0A]), Put (''Length: '' @ show_int 5 @ [CHR 0x0A]),
     Put (''Stejna cisla: '' @ show_int 2 @ [CHR 0x0A])])"
proof -
  have "cisla_stejne (map Some [1, 1, 5, 5, 2]) (map Some [5, 5, 1, 1, 3]) 5 = ret 2"
    using cisla_stejne_card [of "[5, 5, 1, 1, 3]" "[1, 1, 5, 5, 2]"] by simp
  moreover have "strlen_m (literal ''Hello'') = ret 5"
    using strlen_m_ok [of "map of_char ''Hello''"] by (simp add: literal_def)
  ultimately show ?thesis
    by (simp add: test3_main_def my_crazy_min_result in_int_def INT_MIN_def INT_MAX_def bind_emit)
qed

text \<open>What \<open>test.c\<close> prints: the word in capitals, and its numbers of characters, digits and letters.\<close>

definition upper_case :: "u8 \<Rightarrow> char" where
  "upper_case c = char_of (nat ((if is_lower c then sint c - 32 else sint c) mod 256))"

lemma count_from_ok:
  assumes "holds buf s"
  shows "count_from buf 0 0 0 =
    (Inr (int (length s), int (length (filter isdigit_c s)), int (length (filter isalpha_c s))),
     map (\<lambda>c. Put [upper_case c]) s)"
proof -
  have alt: "isdigit_c c \<Longrightarrow> \<not> isalpha_c c" for c
    by (auto simp: isdigit_c_def isalpha_c_def is_lower_def is_upper_def)
  have "i \<le> length s \<Longrightarrow> count_from buf (int i) m n =
    (Inr (int (length s), m + int (length (filter isdigit_c (drop i s))), n + int (length (filter isalpha_c (drop i s)))),
     map (\<lambda>c. Put [upper_case c]) (drop i s))" for i m n
  proof (induction "length s - i" arbitrary: i m n)
    case 0
    then have i: "i = length s" by simp
    have "arr_get buf (int (length s)) = (ret 0 :: u8 izp_io)" by (rule holds_get(2) [OF assms])
    then show ?case unfolding i by (subst count_from.simps) simp
  next
    case (Suc k)
    then have i: "i < length s" by simp
    have d: "drop i s = s ! i # drop (Suc i) s" using i by (simp add: Cons_nth_drop_Suc)
    have nz: "s ! i \<noteq> 0" using assms i by (auto simp: holds_def dest: nth_mem)
    have IH: "count_from buf (int i + 1) m' n' =
      (Inr (int (length s), m' + int (length (filter isdigit_c (drop (Suc i) s))), n' + int (length (filter isalpha_c (drop (Suc i) s)))),
       map (\<lambda>c. Put [upper_case c]) (drop (Suc i) s))" for m' n'
      using Suc.hyps(1) [of "Suc i" m' n'] Suc.hyps(2) i by (simp add: add.commute)
    show ?case
      unfolding d using nz alt [of "s ! i"]
      by (subst count_from.simps) (simp add: holds_get(1) [OF assms i] IH putchar_def bind_emit upper_case_def)
  qed
  from this [of 0 0 0] show ?thesis by simp
qed

lemma test_main_prints:
  assumes "0 \<notin> set word" and "length word < 100"
  shows "test_main word = (Inr 0, map (\<lambda>c. Put [upper_case c]) word @
    [Put ([CHR 0x0A] @ ''Delka je '' @ show_int (int (length word)) @ '', a ma ''
       @ show_int (int (length (filter isdigit_c word))) @ '' cislic a ''
       @ show_int (int (length (filter isalpha_c word))) @ '' znaku.'' @ [CHR 0x0A])])"
proof -
  have h: "holds (cstr word) word" using assms(1) by simp
  have "holds (cstr word @ drop (Suc (length word)) (replicate 100 None)) word" using assms(1) by simp
  from count_from_ok [OF this] show ?thesis
    using assms(2) by (simp add: test_main_def strcpy_holds [OF h] bind_pair bind_emit)
qed

text \<open>A word of 100 characters or more is stored with its zero behind the array.\<close>

lemma test_main_overflows:
  assumes "0 \<notin> set word" and "100 \<le> length word"
  shows "test_main word = stop (Fault OutOfBounds)"
proof -
  have "0 \<notin> set (take 100 word)" using assms(1) by (auto dest: in_set_takeD)
  then have h: "holds (cstr (take 100 word)) (take 100 word)" by simp
  show ?thesis using assms(2) by (simp add: test_main_def strcpy_holds [OF h])
qed

text \<open>Shifting by a number and then by its opposite gives the characters back.\<close>

definition shifted :: "int \<Rightarrow> u8 list \<Rightarrow> u8 list" where
  "shifted n s = map (\<lambda>c. word_of_int (sint c + n)) s"

lemma shift_chars_ok:
  assumes "\<bar>n\<bar> \<le> 2 ^ 30"
  shows "shift_chars n s = (Inr (), map (\<lambda>c. Put [char_of (unat c)]) (shifted n s))"
proof (induction s)
  case Nil
  then show ?case by (simp add: shifted_def ret_def)
next
  case (Cons c s)
  have "sint c < 128" "-128 \<le> sint c" using sint_lt [of c] sint_ge [of c] by simp_all
  then have "in_int (sint c + n)" using assms by (auto simp: in_int_def INT_MIN_def INT_MAX_def abs_le_iff)
  moreover have "unat (word_of_int x :: u8) = nat (x mod 256)" for x
    by (simp add: unsigned_of_int take_bit_eq_mod)
  ultimately show ?case using Cons.IH by (simp add: putchar_def bind_emit shifted_def del: of_int_add)
qed

lemma shifted_back: "shifted (- n) (shifted n s) = s"
proof -
  have "word_of_int (sint (word_of_int (sint c + n) :: u8) - n) = c" for c :: u8
  proof -
    have "word_of_int (sint c + n) = c + word_of_int n" by (simp only: of_int_add of_int_sint scast_id)
    then show ?thesis by (simp only: of_int_diff of_int_sint scast_id add_diff_cancel_right')
  qed
  then show ?thesis by (simp add: shifted_def o_def)
qed

end
