(* ===== verification/Spec2Isabelle.thy ===== *)
theory Spec2Isabelle
  imports Maze_Claims Keyfilter_Claims Skibus_Claims Skibus_Shared Top_Tests Top_Race Chat_Claims Izp_Arrays Izp_Lessons
begin

text \<open>
  A verification library for the C programs of this repository, the course work of its author. The
  programs are independent of each other. Modelled are

  \<^item> \<open>src/izp/projekt_2/maze.c\<close>: loading, checking and printing mazes of triangular cells, two wall
    followers and a breadth-first search for a nearest exit (theories \<open>Maze_*\<close>);
  \<^item> \<open>src/izp/projekt_1/keyfilter.c\<close>: the letters that a virtual keyboard offers next
    (\<open>Keyfilter*\<close>);
  \<^item> \<open>src/ios/skibus\<close>: a bus and skiers as processes over semaphores and shared counters (\<open>Skibus*\<close>);
  \<^item> \<open>src/isa/isa-top\<close>: a monitor of network traffic, with a capturing and a displaying thread over a
    doubly linked list (\<open>Top_*\<close>);
  \<^item> \<open>src/ipk/1\<close>: a chat client over UDP or TCP, and a test server (\<open>Chat_*\<close>);
  \<^item> \<open>src/izp/cvika\<close>: exercises with strings, arrays and memory that grows (\<open>Izp_*\<close>).

  \<^bold>\<open>How C is modelled.\<close> \<open>Prelude\<close> and \<open>Stdlib\<close> have what all programs share. A piece of code is a value of
  \<open>('ev, 'a) io\<close>: the events it produced (text on a stream, a datagram, a call of a foreign library)
  and either the value it returned or how it halted, by \<open>exit\<close> or by undefined behaviour
  (\<open>Fault\<close>). An access outside an array, of an uninitialised cell, of the null pointer, an
  \<open>int\<close> that overflows and a division by zero are faults, so that a statement about a returned value
  or about all events says that there are none. Arrays are lists of cells that may be uninitialised,
  of the size they have in the code. Where a loop may not end, the definition has fuel and gives \<open>None\<close>
  when it is used up; the theorems give an amount that is enough. \<open>Format\<close> has the conversions of \<open>printf\<close>.
  Allocation is assumed to succeed, and memory that is not freed is not counted.

  \<^bold>\<open>maze.c.\<close> \<open>Maze_Base\<close> (types), \<open>Maze_Queue\<close> (the ring buffer \<open>q_ctor\<close>, \<open>enqueue\<close>, \<open>dequeue\<close>; the locale
  \<open>reporting_fifo\<close>, which extends \<open>bounded_fifo\<close>, is interpreted on it), \<open>Maze_Map\<close> (\<open>Map_loader\<close>, \<open>isborder\<close>, \<open>start_border\<close>,
  \<open>Map_valid_maze\<close>, \<open>Map_print\<close>), \<open>Maze_Walk\<close> (\<open>Map_solve\<close>, modes \<open>l\<close> and \<open>r\<close>), \<open>Maze_Shortest\<close> (mode \<open>s\<close>) and
  \<open>Maze_Main\<close> (\<open>main\<close> over a map of files) follow the code. \<open>Maze_Walls\<close> says what the digits
  mean; \<open>Maze_Rules\<close> and \<open>Maze_Escape\<close> show that a wall follower leaves every consistent maze: its
  steps are injective on positions, so that it cannot circle, and \<open>3 * rows * cols + 1\<close> calls are
  enough, one for each position and the last. \<open>Maze_Search\<close>, \<open>Maze_BFS\<close>, \<open>Maze_Nearest\<close> and \<open>Maze_Path\<close> have the
  invariant of the search and its result, a shortest path to a nearest exit. \<open>Maze_Load\<close> and \<open>Maze_Print\<close>
  show that loading and printing are inverse, \<open>Maze_Claims\<close> has the properties that span the parts.

  \<^bold>\<open>keyfilter.c.\<close> \<open>Keyfilter\<close> follows the code with its buffers at their sizes; \<open>Keyfilter_Letters\<close>
  shows what \<open>remove_duplicates\<close> and \<open>sort_chars\<close> do to arrays; \<open>Keyfilter_Main\<close> computes the answer of the
  program for every input, overflows included; \<open>Keyfilter_Claims\<close> states it.

  \<^bold>\<open>skibus.\<close> \<open>Skibus\<close> has the command line, the shared state, and the two processes as programs with a
  counter, one step for each access of shared state; \<open>reachable\<close> are the states of all
  interleavings. \<open>Skibus_Locks\<close>, \<open>Skibus_Turn\<close>, \<open>Skibus_Output\<close> and \<open>Skibus_Runs\<close> have the invariants (mutual
  exclusion, the one turn that the bus passes on, the numbering of the output) and runs that end
  badly. \<open>Skibus_Setup\<close> follows \<open>shared.c\<close>, \<open>semaphors.c\<close> and \<open>main\<close> around the processes, on mapped blocks and
  named semaphores; \<open>Skibus_Shared\<close> shows that \<open>main\<close> sets up the initial state of \<open>Skibus\<close>, that the locks
  are its steps, and what happens at the end. \<open>Skibus_Claims\<close>: capacity, nobody left behind, order of the lines, and the ways to wait for ever.

  \<^bold>\<open>isa-top.\<close> \<open>Top_List\<close> follows \<open>linked_list.c\<close> and \<open>stats.c\<close> on a heap of nodes; loops along pointers need fuel for
  more than the nodes of the list. \<open>Top_Dll\<close> has segments of a doubly linked list and what the
  pointer assignments of \<open>update_node_position\<close> do to them. \<open>Top_Table\<close> has the abstract table
  (\<open>insert_spec\<close>, \<open>move_up\<close>) and shows that the code refines it. \<open>Top_Flows\<close> counts: the locale \<open>flow_table\<close> is
  any table with one entry per class of an equivalence, and the code's table is an instance. \<open>Top_Packets\<close> and
  \<open>Top_Capture\<close> model and prove reading frames (\<open>packet_handler.c\<close>) and errors (\<open>error.c\<close>), \<open>Top_Display\<close> the
  screen and the displaying thread, with the two threads interleaved where the mutex orders them,
  \<open>Top_Cli\<close> the arguments, \<open>main\<close> and the walks of \<open>pcap_file_tests.c\<close>. \<open>Top_Claims\<close> states the properties.
  \<open>Top_Tests\<close> has the rest of \<open>pcap_file_tests.c\<close>, its assertions over capture files that are a parameter,
  and when they all hold. \<open>Top_Race\<close> puts the reset of \<open>display_stats\<close>, which is outside the mutex, into the
  middle of an insertion and says when it dies and when it loses the packet.

  \<^bold>\<open>ipk/1.\<close> \<open>Chat_Base\<close> has events, strings in buffers and \<open>strtok\<close>; \<open>Chat_Cli\<close> follows \<open>cli.c\<close>; \<open>Chat_Codec\<close>
  the messages and ids of \<open>udp_handler.c\<close>; \<open>Chat_Udp\<close> its sockets and \<open>fsm_udp.c\<close>, one call of \<open>fsm_udp\<close> for one
  event; \<open>Chat_Tcp\<close> \<open>tcp_handler.c\<close>, \<open>fsm_tcp.c\<close> and \<open>tcp_server.c\<close>; \<open>Chat_Main\<close> \<open>epoll_handler.c\<close> and \<open>main\<close>.
  \<open>Chat_Runs\<close> has a calculus for what a run may do (\<open>always\<close>) and the waiting of \<open>udp_send\<close>, \<open>Chat_Safety\<close>
  and \<open>Chat_Receive\<close> the lemmas behind the properties of \<open>Chat_Claims\<close>.

  \<^bold>\<open>izp/cvika.\<close> \<open>Izp_String\<close> follows \<open>02-string.c\<close> and shows what \<open>find_substr\<close> and \<open>replace\<close> do to buffers,
  \<open>Izp_Arrays\<close> the vector of \<open>01-vector.c\<close> and the persons of \<open>array.c\<close>, \<open>Izp_Lessons\<close> the small programs.
  A block that \<open>realloc\<close> moved away has no cells.

  \<^bold>\<open>Parameters.\<close> What is not under \<open>src\<close> and not part of the language is an argument: the results of
  \<open>getopt\<close>, the answers of pcap, of sockets, of \<open>realloc\<close>, \<open>epoll\<close> and \<open>fork\<close>, the texts that \<open>inet_ntop\<close> and
  \<open>getprotobynumber\<close> give, the text of a quotient of doubles, what reading an array of a function
  that has returned gives (\<open>dead\<close>), and what \<open>errno\<close> is before each wait for a confirmation (\<open>errnos\<close>). Calls of
  curses are events.

  \<^bold>\<open>Not modelled.\<close> Signals other than as the end of a run; the time that a wait takes (of the socket options only
  their effect on \<open>errno\<close> is kept); a \<open>sendto\<close> that fails; other
  interleavings of the two threads of \<open>isa-top\<close> inside \<open>get_node\<close> and between the pointer assignments; sums of
  \<open>float\<close>; \<open>src/test.c\<close> and \<open>src/ijc/testfile.c\<close>, which try out the syntax of C; and the projects in other languages (assembly, Haskell, Python, web pages, hardware descriptions, data).
\<close>

end
